(* ===== verification/Prelude.thy ===== *)
theory Prelude
  imports Main "HOL-Library.Word"
begin

text \<open>
  What every component of the model shares: the widths of the C integers, the outcome of
  a C statement (a value, or the way the process ends), arrays reached through a pointer
  that may be NULL, regions of raw bytes (reading, writing, C strings, little-endian
  32-bit integers) and the two named collections \<open>c_simps\<close> (rewriting of the shared
  primitives) and \<open>c_splits\<close> (inversion of successful runs).
\<close>

named_theorems c_simps \<open>rewrite rules for the shared C primitives\<close>
named_theorems c_splits \<open>inversion rules for successful runs\<close>

section \<open>Machine integers\<close>

type_synonym u8 = "8 word"
type_synonym u32 = "32 word"
type_synonym size_t = "64 word"

text \<open>
  A C \<open>int\<close> is a value of type \<^typ>\<open>int\<close>; the conversions between it and the unsigned
  types are written out: \<open>(size_t) i\<close> is \<open>of_int i\<close>, \<open>(int) n\<close> keeps the low 32 bits
  read as two's complement, \<open>(ssize_t) n\<close> reads all 64 of them.
\<close>

definition c_int :: "size_t \<Rightarrow> int" where
  "c_int n = signed_take_bit 31 (uint n)"

definition c_ssize :: "size_t \<Rightarrow> int" where
  "c_ssize n = sint n"

lemma c_int_small: "unat n < 2 ^ 31 \<Longrightarrow> c_int n = int (unat n)"
proof -
  assume "unat n < 2 ^ 31"
  then have "int (unat n) < int (2 ^ 31)" by (simp only: of_nat_less_iff)
  moreover have "- (2 ^ 31) \<le> uint n" by (rule order_trans [of _ 0]) simp_all
  ultimately show ?thesis by (simp add: c_int_def signed_take_bit_int_eq_self)
qed

lemma c_int_of_nat: "k < 2 ^ 31 \<Longrightarrow> c_int (of_nat k) = int k"
  by (simp add: c_int_small unat_of_nat)

lemma c_ssize_small: "unat n < 2 ^ 63 \<Longrightarrow> c_ssize n = int (unat n)"
proof -
  assume "unat n < 2 ^ 63"
  then have "int (unat n) < int (2 ^ 63)" by (simp only: of_nat_less_iff)
  moreover have "- (2 ^ 63) \<le> uint n" by (rule order_trans [of _ 0]) simp_all
  ultimately show ?thesis by (simp add: c_ssize_def sint_uint signed_take_bit_int_eq_self)
qed

lemma unat_of_int_nat: "0 \<le> i \<Longrightarrow> i < 2 ^ 64 \<Longrightarrow> unat (of_int i :: size_t) = nat i"
  by (simp add: unat_eq_nat_uint uint_word_of_int)

section \<open>Outcomes\<close>

text \<open>
  A C function either returns or ends the process. \<open>Abort\<close> is a failed \<open>ALWAYS_ASSERT\<close>
  (\<open>PANIC\<close>, \<open>abort()\<close>) with its message, \<open>Exit_failure\<close> is \<open>exit(EXIT_FAILURE)\<close>, and
  \<open>Undefined\<close> is an access the C standard leaves undefined: through NULL, outside an
  array, past the end of the heap block, a division by zero.
\<close>

datatype fault = Abort string | Exit_failure | Undefined

type_synonym 'a res = "fault + 'a"

definition bindE :: "'a res \<Rightarrow> ('a \<Rightarrow> 'b res) \<Rightarrow> 'b res" where
  "bindE m f = (case m of Inl e \<Rightarrow> Inl e | Inr x \<Rightarrow> f x)"

lemma bindE_simps [simp, c_simps]:
  "bindE (Inr x) f = f x"
  "bindE (Inl e) f = Inl e"
  by (simp_all add: bindE_def)

lemma bindE_Inr_iff [c_splits]: "bindE m f = Inr y \<longleftrightarrow> (\<exists>x. m = Inr x \<and> f x = Inr y)"
  by (cases m) simp_all

lemma bindE_cong [fundef_cong]:
  "m = m' \<Longrightarrow> (\<And>x. m' = Inr x \<Longrightarrow> f x = f' x) \<Longrightarrow> bindE m f = bindE m' f'"
  by (cases m') simp_all

text \<open>\<open>ALWAYS_ASSERT(cond, msg)\<close> before the rest of the function.\<close>

definition always_assert :: "bool \<Rightarrow> string \<Rightarrow> 'a res \<Rightarrow> 'a res" where
  "always_assert c msg k = (if c then k else Inl (Abort msg))"

lemma always_assert_simps [simp, c_simps]:
  "always_assert True msg k = k"
  "always_assert False msg k = Inl (Abort msg)"
  by (simp_all add: always_assert_def)

lemma always_assert_Inr_iff [c_splits]: "always_assert c msg k = Inr y \<longleftrightarrow> c \<and> k = Inr y"
  by (simp add: always_assert_def)

section \<open>Arrays behind a pointer\<close>

text \<open>
  A pointer to a heap array is \<open>None\<close> when it is NULL and \<open>Some xs\<close> when it points to the
  first element of \<open>xs\<close>. Indexing through NULL or out of range is \<open>Undefined\<close>.
\<close>

fun aget :: "'a list option \<Rightarrow> nat \<Rightarrow> 'a res" where
  "aget None i = Inl Undefined"
| "aget (Some xs) i = (if i < length xs then Inr (xs ! i) else Inl Undefined)"

fun aset :: "'a list option \<Rightarrow> nat \<Rightarrow> 'a \<Rightarrow> 'a list option res" where
  "aset None i v = Inl Undefined"
| "aset (Some xs) i v = (if i < length xs then Inr (Some (xs[i := v])) else Inl Undefined)"

lemma aget_Inr_iff [c_splits]: "aget p i = Inr v \<longleftrightarrow> (\<exists>xs. p = Some xs \<and> i < length xs \<and> v = xs ! i)"
  by (cases p) auto

lemma aset_Inr_iff [c_splits]:
  "aset p i v = Inr q \<longleftrightarrow> (\<exists>xs. p = Some xs \<and> i < length xs \<and> q = Some (xs[i := v]))"
  by (cases p) auto

section \<open>Raw bytes\<close>

definition region :: "nat \<Rightarrow> nat \<Rightarrow> 'a list \<Rightarrow> 'a list" where
  "region off n xs = take n (drop off xs)"

definition patch :: "nat \<Rightarrow> 'a list \<Rightarrow> 'a list \<Rightarrow> 'a list" where
  "patch off bs xs = take off xs @ bs @ drop (off + length bs) xs"

text \<open>\<open>memcpy\<close> out of and into a heap block.\<close>

fun mem_read :: "'a list option \<Rightarrow> nat \<Rightarrow> nat \<Rightarrow> 'a list res" where
  "mem_read None off n = Inl Undefined"
| "mem_read (Some xs) off n =
     (if off + n \<le> length xs then Inr (region off n xs) else Inl Undefined)"

fun mem_write :: "'a list option \<Rightarrow> nat \<Rightarrow> 'a list \<Rightarrow> 'a list option res" where
  "mem_write None off bs = Inl Undefined"
| "mem_write (Some xs) off bs =
     (if off + length bs \<le> length xs then Inr (Some (patch off bs xs)) else Inl Undefined)"

lemma length_region [simp, c_simps]: "length (region off n xs) = min n (length xs - off)"
  by (simp add: region_def)

lemma length_patch [simp, c_simps]:
  "off + length bs \<le> length xs \<Longrightarrow> length (patch off bs xs) = length xs"
  by (simp add: patch_def)

lemma nth_region: "i < n \<Longrightarrow> off + i < length xs \<Longrightarrow> region off n xs ! i = xs ! (off + i)"
  by (simp add: region_def)

lemma nth_patch:
  assumes "off + length bs \<le> length xs" and "i < length xs"
  shows "patch off bs xs ! i = (if off \<le> i \<and> i < off + length bs then bs ! (i - off) else xs ! i)"
  using assms by (auto simp: patch_def nth_append)

lemma region_0 [simp]: "region off 0 xs = []"
  by (simp add: region_def)

lemma region_patch_other:
  assumes "off + length bs \<le> length xs" and "p + n \<le> off \<or> off + length bs \<le> p"
  shows "region p n (patch off bs xs) = region p n xs"
proof (rule nth_equalityI)
  show "length (region p n (patch off bs xs)) = length (region p n xs)"
    using assms by simp
next
  fix i assume "i < length (region p n (patch off bs xs))"
  then have "i < n" and "p + i < length xs" using assms by auto
  then show "region p n (patch off bs xs) ! i = region p n xs ! i"
    using assms by (auto simp: nth_region nth_patch)
qed

lemma region_patch_inside:
  assumes "off + length bs \<le> length xs" and "p \<le> off" and "off + length bs \<le> p + n"
  shows "region p n (patch off bs xs) = patch (off - p) bs (region p n xs)"
proof (rule nth_equalityI)
  show "length (region p n (patch off bs xs)) = length (patch (off - p) bs (region p n xs))"
    using assms by (simp add: patch_def)
next
  fix i assume "i < length (region p n (patch off bs xs))"
  then have i: "i < n" "p + i < length xs" using assms(1) by auto
  have 1: "region p n (patch off bs xs) ! i = patch off bs xs ! (p + i)"
    using i assms(1) by (simp add: nth_region)
  have 2: "patch (off - p) bs (region p n xs) ! i =
     (if off - p \<le> i \<and> i < off - p + length bs then bs ! (i - (off - p)) else region p n xs ! i)"
    using i assms by (intro nth_patch) auto
  have 3: "off - p \<le> i \<and> i < off - p + length bs \<longleftrightarrow> off \<le> p + i \<and> p + i < off + length bs"
    "i - (off - p) = p + i - off"
    using assms(2) by auto
  show "region p n (patch off bs xs) ! i = patch (off - p) bs (region p n xs) ! i"
    unfolding 1 2 3 using i assms(1) by (simp add: nth_region nth_patch)
qed

lemma region_patch_same:
  assumes "off + length bs \<le> length xs"
  shows "region off (length bs) (patch off bs xs) = bs"
  using assms by (simp add: region_def patch_def)

lemma region_region: "a + m \<le> n \<Longrightarrow> region a m (region off n xs) = region (off + a) m xs"
  unfolding region_def by (simp add: drop_take min_absorb1 add.commute)

lemma region_full [simp]: "length xs \<le> n \<Longrightarrow> region 0 n xs = xs"
  by (simp add: region_def)

subsection \<open>C strings\<close>

text \<open>
  A string argument is the list of its bytes before the terminating NUL, so it holds no
  0 byte. \<open>cstr bs\<close> is the string stored at the front of \<open>bs\<close>.
\<close>

type_synonym cstring = "u8 list"

definition is_cstring :: "cstring \<Rightarrow> bool" where
  "is_cstring s \<longleftrightarrow> 0 \<notin> set s"

definition cstr :: "u8 list \<Rightarrow> cstring" where
  "cstr bs = takeWhile (\<lambda>b. b \<noteq> 0) bs"

text \<open>
  \<open>strcmp(p, s) == 0\<close> where \<open>p\<close> points to the raw bytes \<open>ms\<close> (everything from \<open>p\<close> to the
  end of its heap block) and \<open>s\<close> is a string: the bytes are compared up to the first
  difference or the NUL; running off the block is \<open>Undefined\<close>. \<open>strncmp_eq\<close> stops after
  \<open>n\<close> bytes as well.
\<close>

fun strcmp_eq :: "u8 list \<Rightarrow> cstring \<Rightarrow> bool res" where
  "strcmp_eq [] s = Inl Undefined"
| "strcmp_eq (m # ms) [] = Inr (m = 0)"
| "strcmp_eq (m # ms) (c # cs) = (if m \<noteq> c then Inr False else strcmp_eq ms cs)"

fun strncmp_eq :: "nat \<Rightarrow> u8 list \<Rightarrow> cstring \<Rightarrow> bool res" where
  "strncmp_eq 0 ms s = Inr True"
| "strncmp_eq (Suc n) [] s = Inl Undefined"
| "strncmp_eq (Suc n) (m # ms) [] = Inr (m = 0)"
| "strncmp_eq (Suc n) (m # ms) (c # cs) = (if m \<noteq> c then Inr False else strncmp_eq n ms cs)"

text \<open>\<open>strncpy(dst, s, n)\<close> fills exactly \<open>n\<close> bytes: the string cut at \<open>n\<close>, padded with NUL.\<close>

definition strncpy_bytes :: "nat \<Rightarrow> cstring \<Rightarrow> u8 list" where
  "strncpy_bytes n s = take n (s @ replicate n 0)"

lemma length_strncpy_bytes [simp]: "length (strncpy_bytes n s) = n"
  by (simp add: strncpy_bytes_def)

lemma strcmp_eq_terminated:
  "0 \<in> set ms \<Longrightarrow> is_cstring s \<Longrightarrow> strcmp_eq ms s = Inr (cstr ms = s)"
  by (induction ms s rule: strcmp_eq.induct) (auto simp: is_cstring_def cstr_def)

lemma strncmp_eq_terminated:
  "0 \<in> set (take n ms) \<Longrightarrow> is_cstring s \<Longrightarrow> strncmp_eq n ms s = Inr (cstr ms = s)"
  by (induction n ms s rule: strncmp_eq.induct) (auto simp: is_cstring_def cstr_def)

lemma cstr_append_zero: "is_cstring s \<Longrightarrow> cstr (s @ 0 # ys) = s"
  unfolding cstr_def is_cstring_def by (induction s) auto

lemma cstr_take: "0 \<in> set (take n xs) \<Longrightarrow> cstr (take n xs) = cstr xs"
  unfolding cstr_def
  by (subst append_take_drop_id [of n xs, symmetric], subst takeWhile_append1) auto

lemma is_cstring_cstr [simp]: "is_cstring (cstr bs)"
  unfolding is_cstring_def cstr_def by (auto dest: set_takeWhileD)

lemma cstr_strncpy:
  assumes "is_cstring s" and "length s < n"
  shows "cstr (strncpy_bytes n s) = s" and "0 \<in> set (strncpy_bytes n s)"
proof -
  obtain k where k: "n - length s = Suc k" using assms(2) by (metis Suc_diff_Suc)
  have "strncpy_bytes n s = s @ take (n - length s) (replicate n 0)"
    using assms(2) by (simp add: strncpy_bytes_def)
  also have "\<dots> = s @ 0 # replicate k 0"
    using k by simp
  finally have eq: "strncpy_bytes n s = s @ 0 # replicate k 0" .
  show "cstr (strncpy_bytes n s) = s" unfolding eq by (rule cstr_append_zero [OF assms(1)])
  show "0 \<in> set (strncpy_bytes n s)" unfolding eq by simp
qed

subsection \<open>A 32-bit integer in memory\<close>

text \<open>The four bytes of an \<open>int\<close>, least significant first, and the value they hold.\<close>

definition int32_bytes :: "int \<Rightarrow> u8 list" where
  "int32_bytes i = [of_int i, of_int (i div 256), of_int (i div 65536), of_int (i div 16777216)]"

definition le_value :: "u8 list \<Rightarrow> int" where
  "le_value bs = foldr (\<lambda>b a. uint b + 256 * a) bs 0"

definition bytes_int32 :: "u8 list \<Rightarrow> int" where
  "bytes_int32 bs = signed_take_bit 31 (le_value bs)"

lemma length_int32_bytes [simp]: "length (int32_bytes i) = 4"
  by (simp add: int32_bytes_def)

lemma mod_2_32_bytes: "(i::int) mod 2 ^ 32 = i mod 256 + 256 * (i div 256 mod 256 + 256 * (i div 65536 mod 256
      + 256 * (i div 16777216 mod 256)))"
proof -
  have 1: "i mod 4294967296 = 256 * (i div 256 mod 16777216) + i mod 256"
    using zmod_zmult2_eq [of 16777216 i 256] by simp
  have 2: "i div 256 mod 16777216 = 256 * (i div 65536 mod 65536) + i div 256 mod 256"
    using zmod_zmult2_eq [of 65536 "i div 256" 256] zdiv_zmult2_eq [of 256 i 256] by simp
  have 3: "i div 65536 mod 65536 = 256 * (i div 16777216 mod 256) + i div 65536 mod 256"
    using zmod_zmult2_eq [of 256 "i div 65536" 256] zdiv_zmult2_eq [of 256 i 65536] by simp
  have 4: "(2::int) ^ 32 = 4294967296" by simp
  show ?thesis unfolding 4 1 2 3 by (simp only: add.commute)
qed

lemma le_value_int32_bytes: "le_value (int32_bytes i) = i mod 2 ^ 32"
  unfolding mod_2_32_bytes by (simp add: le_value_def int32_bytes_def uint_word_of_int)

lemma bytes_int32_bytes: "- (2 ^ 31) \<le> i \<Longrightarrow> i < 2 ^ 31 \<Longrightarrow> bytes_int32 (int32_bytes i) = i"
proof -
  assume a: "- (2 ^ 31) \<le> i" "i < 2 ^ 31"
  have "signed_take_bit 31 (take_bit 32 i) = signed_take_bit 31 i"
    by (simp add: signed_take_bit_take_bit)
  with a show ?thesis by (simp add: bytes_int32_def le_value_int32_bytes take_bit_eq_mod signed_take_bit_int_eq_self)
qed

end
