(* ===== verification/Tfs_State.thy ===== *)
theory Tfs_State
  imports Prelude
begin

text \<open>
  The persistent and volatile state of the file system and its primitive operations
  (\<open>fs/config.h\<close>, \<open>fs/state.h\<close>, \<open>fs/state.c\<close>): the inode table, the data blocks (one heap
  block of raw bytes), the allocation maps, the open file table, and the directory
  entries kept as 44-byte records inside a data block. A C pointer to an element of a
  table is the element's index; a pointer into \<open>fs_data\<close> is its byte offset. The busy
  loop \<open>insert_delay\<close> has no effect on the state and is left out.
\<close>

section \<open>Data\<close>

record tfs_params =
  max_inode_count :: size_t
  max_block_count :: size_t
  max_open_files_count :: size_t
  block_size :: size_t

datatype inode_type = T_FILE | T_DIRECTORY

record inode_t =
  i_node_type :: inode_type
  i_size :: size_t
  i_data_block :: int

datatype allocation_state_t = FREE | TAKEN

record open_file_entry_t =
  of_inumber :: int
  of_offset :: size_t

text \<open>The static variables of \<open>state.c\<close>; each pointer is NULL (\<open>None\<close>) or a heap array.\<close>

record fs =
  fs_params :: tfs_params
  inode_table :: "inode_t list option"
  freeinode_ts :: "allocation_state_t list option"
  fs_data :: "u8 list option"
  free_blocks :: "allocation_state_t list option"
  open_file_table :: "open_file_entry_t list option"
  free_open_file_entries :: "allocation_state_t list option"

definition ROOT_DIR_INUM :: int where "ROOT_DIR_INUM = 0"
definition MAX_FILE_NAME :: nat where "MAX_FILE_NAME = 40"

text \<open>\<open>sizeof(dir_entry_t)\<close>: the 40 bytes of \<open>d_name\<close>, then the 4 of \<open>d_inumber\<close>.\<close>

definition dir_entry_size :: nat where "dir_entry_size = 44"

lemmas config_defs [simp, c_simps] = ROOT_DIR_INUM_def MAX_FILE_NAME_def dir_entry_size_def

definition max_dir_entries :: "fs \<Rightarrow> nat" where
  "max_dir_entries s = unat (block_size (fs_params s)) div dir_entry_size"

text \<open>
  The comparisons of an \<open>int\<close> with a \<open>size_t\<close> convert the \<open>int\<close>, known not to be
  negative, to the same value.
\<close>

definition valid_inumber :: "int \<Rightarrow> fs \<Rightarrow> bool" where
  "valid_inumber inumber s \<longleftrightarrow> 0 \<le> inumber \<and> nat inumber < unat (max_inode_count (fs_params s))"

definition valid_block_number :: "int \<Rightarrow> fs \<Rightarrow> bool" where
  "valid_block_number block_number s \<longleftrightarrow>
     0 \<le> block_number \<and> nat block_number < unat (max_block_count (fs_params s))"

definition valid_file_handle :: "int \<Rightarrow> fs \<Rightarrow> bool" where
  "valid_file_handle file_handle s \<longleftrightarrow>
     0 \<le> file_handle \<and> nat file_handle < unat (max_open_files_count (fs_params s))"

definition state_block_size :: "fs \<Rightarrow> size_t" where
  "state_block_size s = block_size (fs_params s)"

section \<open>Start and end\<close>

text \<open>
  What the six calls of \<open>malloc\<close> in \<open>state_init\<close> return, in their order: \<open>None\<close> for NULL,
  or the fresh array with whatever it holds.
\<close>

record mallocs =
  m_inode_table :: "inode_t list option"
  m_freeinode_ts :: "allocation_state_t list option"
  m_fs_data :: "u8 list option"
  m_free_blocks :: "allocation_state_t list option"
  m_open_file_table :: "open_file_entry_t list option"
  m_free_open_file_entries :: "allocation_state_t list option"

text \<open>The three loops that mark every entry of an allocation map as free.\<close>

function fill_free :: "nat \<Rightarrow> nat \<Rightarrow> allocation_state_t list option \<Rightarrow> allocation_state_t list option res" where
  "fill_free i n tab =
     (if i < n then bindE (aset tab i FREE) (\<lambda>tab. fill_free (Suc i) n tab) else Inr tab)"
  by pat_completeness auto
termination
  by (relation "measure (\<lambda>(i, n, tab). n - i)") auto

declare fill_free.simps [simp del]

definition state_init :: "tfs_params \<Rightarrow> mallocs \<Rightarrow> fs \<Rightarrow> (int \<times> fs) res" where
  "state_init params m s =
     (let s = s\<lparr>fs_params := params\<rparr> in
      if inode_table s \<noteq> None then Inr (-1, s)
      else
        let s = s\<lparr>inode_table := m_inode_table m, freeinode_ts := m_freeinode_ts m,
                  fs_data := m_fs_data m, free_blocks := m_free_blocks m,
                  open_file_table := m_open_file_table m,
                  free_open_file_entries := m_free_open_file_entries m\<rparr> in
        if inode_table s = None \<or> freeinode_ts s = None \<or> fs_data s = None \<or> free_blocks s = None
           \<or> open_file_table s = None \<or> free_open_file_entries s = None
        then Inr (-1, s)
        else
          bindE (fill_free 0 (unat (max_inode_count params)) (freeinode_ts s)) (\<lambda>t1.
          bindE (fill_free 0 (unat (max_block_count params)) (free_blocks s)) (\<lambda>t2.
          bindE (fill_free 0 (unat (max_open_files_count params)) (free_open_file_entries s)) (\<lambda>t3.
          Inr (0, s\<lparr>freeinode_ts := t1, free_blocks := t2, free_open_file_entries := t3\<rparr>)))))"

definition state_destroy :: "fs \<Rightarrow> (int \<times> fs) res" where
  "state_destroy s =
     Inr (0, s\<lparr>inode_table := None, freeinode_ts := None, fs_data := None, free_blocks := None,
              open_file_table := None, free_open_file_entries := None\<rparr>)"

section \<open>Data blocks\<close>

text \<open>
  The search of \<open>inode_alloc\<close> and \<open>data_block_alloc\<close> for the first free entry. Each round
  computes \<open>i * sizeof(allocation_state_t) % BLOCK_SIZE\<close>, a division by zero when the
  block size is 0.
\<close>

function alloc_scan :: "size_t \<Rightarrow> allocation_state_t list option \<Rightarrow> nat \<Rightarrow> nat \<Rightarrow> nat option res" where
  "alloc_scan bs tab i n =
     (if i < n then
        if bs = 0 then Inl Undefined
        else bindE (aget tab i) (\<lambda>a. if a = FREE then Inr (Some i) else alloc_scan bs tab (Suc i) n)
      else Inr None)"
  by pat_completeness auto
termination
  by (relation "measure (\<lambda>(bs, tab, i, n). n - i)") auto

declare alloc_scan.simps [simp del]

definition data_block_alloc :: "fs \<Rightarrow> (int \<times> fs) res" where
  "data_block_alloc s =
     bindE (alloc_scan (block_size (fs_params s)) (free_blocks s) 0
              (unat (max_block_count (fs_params s)))) (\<lambda>r.
     case r of
       None \<Rightarrow> Inr (-1, s)
     | Some i \<Rightarrow> bindE (aset (free_blocks s) i TAKEN) (\<lambda>t.
         Inr (c_int (of_nat i), s\<lparr>free_blocks := t\<rparr>)))"

definition data_block_free :: "int \<Rightarrow> fs \<Rightarrow> fs res" where
  "data_block_free block_number s =
     always_assert (valid_block_number block_number s) ''data_block_free: invalid block number''
       (bindE (aset (free_blocks s) (nat block_number) FREE) (\<lambda>t. Inr (s\<lparr>free_blocks := t\<rparr>)))"

text \<open>\<open>&fs_data[(size_t) block_number * BLOCK_SIZE]\<close>, the product taken in \<open>size_t\<close>.\<close>

definition data_block_get :: "int \<Rightarrow> fs \<Rightarrow> nat res" where
  "data_block_get block_number s =
     always_assert (valid_block_number block_number s) ''data_block_get: invalid block number''
       (case fs_data s of
          None \<Rightarrow> Inl Undefined
        | Some _ \<Rightarrow> Inr (unat (of_int block_number * block_size (fs_params s))))"

section \<open>Inodes\<close>

definition inode_alloc :: "fs \<Rightarrow> (int \<times> fs) res" where
  "inode_alloc s =
     bindE (alloc_scan (block_size (fs_params s)) (freeinode_ts s) 0
              (unat (max_inode_count (fs_params s)))) (\<lambda>r.
     case r of
       None \<Rightarrow> Inr (-1, s)
     | Some i \<Rightarrow> bindE (aset (freeinode_ts s) i TAKEN) (\<lambda>t.
         Inr (c_int (of_nat i), s\<lparr>freeinode_ts := t\<rparr>)))"

text \<open>An assignment to fields of \<open>inode_table[p]\<close>.\<close>

definition upd_inode :: "nat \<Rightarrow> (inode_t \<Rightarrow> inode_t) \<Rightarrow> fs \<Rightarrow> fs res" where
  "upd_inode p f s =
     bindE (aget (inode_table s) p) (\<lambda>x.
     bindE (aset (inode_table s) p (f x)) (\<lambda>t. Inr (s\<lparr>inode_table := t\<rparr>)))"

definition inode_delete :: "int \<Rightarrow> fs \<Rightarrow> fs res" where
  "inode_delete inumber s =
     always_assert (valid_inumber inumber s) ''inode_delete: invalid inumber''
       (bindE (aget (freeinode_ts s) (nat inumber)) (\<lambda>a.
        always_assert (a = TAKEN) ''inode_delete: inode already freed''
          (bindE (aget (inode_table s) (nat inumber)) (\<lambda>x.
           bindE (if i_size x > 0 then data_block_free (i_data_block x) s else Inr s) (\<lambda>s.
           bindE (aset (freeinode_ts s) (nat inumber) FREE) (\<lambda>t.
           Inr (s\<lparr>freeinode_ts := t\<rparr>)))))))"

definition inode_get :: "int \<Rightarrow> fs \<Rightarrow> nat res" where
  "inode_get inumber s =
     always_assert (valid_inumber inumber s) ''inode_get: invalid inumber'' (Inr (nat inumber))"

text \<open>The loop of \<open>inode_create\<close> that labels every entry of a new directory as empty.\<close>

function init_entries :: "nat \<Rightarrow> nat \<Rightarrow> nat \<Rightarrow> u8 list option \<Rightarrow> u8 list option res" where
  "init_entries blk i n mem =
     (if i < n then
        bindE (mem_write mem (blk + dir_entry_size * i + MAX_FILE_NAME) (int32_bytes (-1)))
          (\<lambda>mem. init_entries blk (Suc i) n mem)
      else Inr mem)"
  by pat_completeness auto
termination
  by (relation "measure (\<lambda>(blk, i, n, mem). n - i)") auto

declare init_entries.simps [simp del]

definition inode_create :: "inode_type \<Rightarrow> fs \<Rightarrow> (int \<times> fs) res" where
  "inode_create i_type s =
     bindE (inode_alloc s) (\<lambda>(inumber, s).
     if inumber = -1 then Inr (-1, s)
     else
       bindE (upd_inode (nat inumber) (\<lambda>x. x\<lparr>i_node_type := i_type\<rparr>) s) (\<lambda>s.
       case i_type of
         T_DIRECTORY \<Rightarrow>
           bindE (data_block_alloc s) (\<lambda>(b, s).
           if b = -1 then
             bindE (upd_inode (nat inumber) (\<lambda>x. x\<lparr>i_size := 0, i_data_block := -1\<rparr>) s) (\<lambda>s.
             bindE (inode_delete inumber s) (\<lambda>s. Inr (-1, s)))
           else
             bindE (upd_inode (nat inumber)
                      (\<lambda>x. x\<lparr>i_size := block_size (fs_params s), i_data_block := b\<rparr>) s) (\<lambda>s.
             bindE (data_block_get b s) (\<lambda>blk.
             bindE (init_entries blk 0 (max_dir_entries s) (fs_data s)) (\<lambda>mem.
             Inr (inumber, s\<lparr>fs_data := mem\<rparr>)))))
       | T_FILE \<Rightarrow>
           bindE (upd_inode (nat inumber) (\<lambda>x. x\<lparr>i_size := 0, i_data_block := -1\<rparr>) s) (\<lambda>s.
           Inr (inumber, s))))"

section \<open>Directory entries\<close>

text \<open>
  The bytes of entry \<open>i\<close> of the directory block at \<open>blk\<close>: \<open>d_inumber\<close>, and \<open>d_name\<close>
  compared with a name by \<open>strcmp\<close> (to the end of the heap block at most) or by
  \<open>strncmp\<close> (40 bytes at most).
\<close>

definition read_d_inumber :: "u8 list option \<Rightarrow> nat \<Rightarrow> nat \<Rightarrow> int res" where
  "read_d_inumber mem blk i =
     bindE (mem_read mem (blk + dir_entry_size * i + MAX_FILE_NAME) 4) (\<lambda>bs. Inr (bytes_int32 bs))"

definition mem_strcmp :: "u8 list option \<Rightarrow> nat \<Rightarrow> cstring \<Rightarrow> bool res" where
  "mem_strcmp mem a name =
     (case mem of None \<Rightarrow> Inl Undefined | Some xs \<Rightarrow> strcmp_eq (drop a xs) name)"

definition mem_strncmp :: "nat \<Rightarrow> u8 list option \<Rightarrow> nat \<Rightarrow> cstring \<Rightarrow> bool res" where
  "mem_strncmp n mem a name =
     (case mem of None \<Rightarrow> Inl Undefined | Some xs \<Rightarrow> strncmp_eq n (drop a xs) name)"

function clear_loop :: "nat \<Rightarrow> nat \<Rightarrow> nat \<Rightarrow> cstring \<Rightarrow> u8 list option \<Rightarrow> (int \<times> u8 list option) res" where
  "clear_loop blk i n sub_name mem =
     (if i < n then
        bindE (mem_strcmp mem (blk + dir_entry_size * i) sub_name) (\<lambda>eq.
        if eq then
          bindE (mem_write mem (blk + dir_entry_size * i + MAX_FILE_NAME) (int32_bytes (-1))) (\<lambda>mem.
          bindE (mem_write mem (blk + dir_entry_size * i) (replicate MAX_FILE_NAME 0)) (\<lambda>mem.
          Inr (0, mem)))
        else clear_loop blk (Suc i) n sub_name mem)
      else Inr (-1, mem))"
  by pat_completeness auto
termination
  by (relation "measure (\<lambda>(blk, i, n, sub_name, mem). n - i)") auto

declare clear_loop.simps [simp del]

definition clear_dir_entry :: "nat \<Rightarrow> cstring \<Rightarrow> fs \<Rightarrow> (int \<times> fs) res" where
  "clear_dir_entry inode sub_name s =
     bindE (aget (inode_table s) inode) (\<lambda>x.
     if i_node_type x \<noteq> T_DIRECTORY then Inr (-1, s)
     else
       bindE (data_block_get (i_data_block x) s) (\<lambda>blk.
       bindE (clear_loop blk 0 (max_dir_entries s) sub_name (fs_data s)) (\<lambda>(r, mem).
       Inr (r, s\<lparr>fs_data := mem\<rparr>))))"

text \<open>\<open>strncpy\<close> of 39 bytes into \<open>d_name\<close> and the explicit NUL in its last byte.\<close>

function add_loop :: "nat \<Rightarrow> nat \<Rightarrow> nat \<Rightarrow> cstring \<Rightarrow> int \<Rightarrow> u8 list option \<Rightarrow> (int \<times> u8 list option) res" where
  "add_loop blk i n sub_name sub_inumber mem =
     (if i < n then
        bindE (read_d_inumber mem blk i) (\<lambda>d.
        if d = -1 then
          bindE (mem_write mem (blk + dir_entry_size * i + MAX_FILE_NAME) (int32_bytes sub_inumber)) (\<lambda>mem.
          bindE (mem_write mem (blk + dir_entry_size * i) (strncpy_bytes (MAX_FILE_NAME - 1) sub_name)) (\<lambda>mem.
          bindE (mem_write mem (blk + dir_entry_size * i + (MAX_FILE_NAME - 1)) [0]) (\<lambda>mem.
          Inr (0, mem))))
        else add_loop blk (Suc i) n sub_name sub_inumber mem)
      else Inr (-1, mem))"
  by pat_completeness auto
termination
  by (relation "measure (\<lambda>(blk, i, n, sub_name, sub_inumber, mem). n - i)") auto

declare add_loop.simps [simp del]

definition add_dir_entry :: "nat \<Rightarrow> cstring \<Rightarrow> int \<Rightarrow> fs \<Rightarrow> (int \<times> fs) res" where
  "add_dir_entry inode sub_name sub_inumber s =
     (if length sub_name = 0 \<or> length sub_name > MAX_FILE_NAME - 1 then Inr (-1, s)
      else
        bindE (aget (inode_table s) inode) (\<lambda>x.
        if i_node_type x \<noteq> T_DIRECTORY then Inr (-1, s)
        else
          bindE (data_block_get (i_data_block x) s) (\<lambda>blk.
          bindE (add_loop blk 0 (max_dir_entries s) sub_name sub_inumber (fs_data s)) (\<lambda>(r, mem).
          Inr (r, s\<lparr>fs_data := mem\<rparr>)))))"

function find_loop :: "nat \<Rightarrow> nat \<Rightarrow> nat \<Rightarrow> cstring \<Rightarrow> u8 list option \<Rightarrow> int res" where
  "find_loop blk i n sub_name mem =
     (if i < n then
        bindE (read_d_inumber mem blk i) (\<lambda>d.
        if d \<noteq> -1 then
          bindE (mem_strncmp MAX_FILE_NAME mem (blk + dir_entry_size * i) sub_name) (\<lambda>eq.
          if eq then Inr d else find_loop blk (Suc i) n sub_name mem)
        else find_loop blk (Suc i) n sub_name mem)
      else Inr (-1))"
  by pat_completeness auto
termination
  by (relation "measure (\<lambda>(blk, i, n, sub_name, mem). n - i)") auto

declare find_loop.simps [simp del]

definition find_in_dir :: "nat \<Rightarrow> cstring \<Rightarrow> fs \<Rightarrow> int res" where
  "find_in_dir inode sub_name s =
     bindE (aget (inode_table s) inode) (\<lambda>x.
     if i_node_type x \<noteq> T_DIRECTORY then Inr (-1)
     else
       bindE (data_block_get (i_data_block x) s) (\<lambda>blk.
       find_loop blk 0 (max_dir_entries s) sub_name (fs_data s)))"

section \<open>Open file table\<close>

function open_scan :: "allocation_state_t list option \<Rightarrow> nat \<Rightarrow> nat \<Rightarrow> nat option res" where
  "open_scan tab i n =
     (if i < n then
        bindE (aget tab i) (\<lambda>a. if a = FREE then Inr (Some i) else open_scan tab (Suc i) n)
      else Inr None)"
  by pat_completeness auto
termination
  by (relation "measure (\<lambda>(tab, i, n). n - i)") auto

declare open_scan.simps [simp del]

definition add_to_open_file_table :: "int \<Rightarrow> size_t \<Rightarrow> fs \<Rightarrow> (int \<times> fs) res" where
  "add_to_open_file_table inumber offset s =
     bindE (open_scan (free_open_file_entries s) 0 (unat (max_open_files_count (fs_params s)))) (\<lambda>r.
     case r of
       None \<Rightarrow> Inr (-1, s)
     | Some i \<Rightarrow>
         bindE (aset (free_open_file_entries s) i TAKEN) (\<lambda>t.
         bindE (aset (open_file_table s) i \<lparr>of_inumber = inumber, of_offset = offset\<rparr>) (\<lambda>ot.
         Inr (int i, s\<lparr>free_open_file_entries := t, open_file_table := ot\<rparr>))))"

definition remove_from_open_file_table :: "int \<Rightarrow> fs \<Rightarrow> fs res" where
  "remove_from_open_file_table fhandle s =
     always_assert (valid_file_handle fhandle s)
       ''remove_from_open_file_table: file handle must be valid''
       (bindE (aget (free_open_file_entries s) (nat fhandle)) (\<lambda>a.
        always_assert (a = TAKEN) ''remove_from_open_file_table: file handle must be taken''
          (bindE (aset (free_open_file_entries s) (nat fhandle) FREE) (\<lambda>t.
           Inr (s\<lparr>free_open_file_entries := t\<rparr>)))))"

text \<open>The returned pointer, \<open>None\<close> for NULL.\<close>

definition get_open_file_entry :: "int \<Rightarrow> fs \<Rightarrow> nat option res" where
  "get_open_file_entry fhandle s =
     (if \<not> valid_file_handle fhandle s then Inr None
      else bindE (aget (free_open_file_entries s) (nat fhandle)) (\<lambda>a.
        if a \<noteq> TAKEN then Inr None else Inr (Some (nat fhandle))))"

end
