(* ===== verification/Tfs_Ops.thy ===== *)
theory Tfs_Ops
  imports Tfs_State
begin

unbundle bit_operations_syntax

text \<open>
  The operations of the file system (\<open>fs/operations.c\<close>). Every operation but \<open>tfs_init\<close>
  and \<open>tfs_destroy\<close> runs with \<open>g_library_mutex\<close> held, so it is one atomic step of the
  state; the return codes of the two calls on the mutex are an argument of the model.
\<close>

section \<open>The library mutex\<close>

record mutex_rc =
  lock_rc :: int
  unlock_rc :: int

text \<open>
  Every path of an operation runs its body between one \<open>pthread_mutex_lock\<close> and one
  \<open>pthread_mutex_unlock\<close>, compares both results with \<open>-1\<close>, and returns \<open>-1\<close> when
  either is.
\<close>

definition with_library_mutex ::
    "mutex_rc \<Rightarrow> ('s \<Rightarrow> (int \<times> 's) res) \<Rightarrow> 's \<Rightarrow> (int \<times> 's) res" where
  "with_library_mutex m body s =
     (if lock_rc m = -1 then Inr (-1, s)
      else bindE (body s) (\<lambda>(r, s). if unlock_rc m = -1 then Inr (-1, s) else Inr (r, s)))"

text \<open>Both calls succeed: POSIX gives 0, and a positive error number otherwise.\<close>

definition mutex_ok :: mutex_rc where
  "mutex_ok = \<lparr>lock_rc = 0, unlock_rc = 0\<rparr>"

section \<open>Start and end\<close>

definition tfs_default_params :: tfs_params where
  "tfs_default_params =
     \<lparr>max_inode_count = 64, max_block_count = 1024, max_open_files_count = 16, block_size = 1024\<rparr>"

definition tfs_init :: "tfs_params option \<Rightarrow> mallocs \<Rightarrow> fs \<Rightarrow> (int \<times> fs) res" where
  "tfs_init params_ptr m s =
     (let params = (case params_ptr of Some p \<Rightarrow> p | None \<Rightarrow> tfs_default_params) in
      bindE (state_init params m s) (\<lambda>(r, s).
      if r \<noteq> 0 then Inr (-1, s)
      else bindE (inode_create T_DIRECTORY s) (\<lambda>(root, s).
        if root \<noteq> ROOT_DIR_INUM then Inr (-1, s) else Inr (0, s))))"

definition tfs_destroy :: "fs \<Rightarrow> (int \<times> fs) res" where
  "tfs_destroy s = bindE (state_destroy s) (\<lambda>(r, s). if r \<noteq> 0 then Inr (-1, s) else Inr (0, s))"

section \<open>Names\<close>

text \<open>A path is a C string, or NULL. The byte 47 is the slash.\<close>

definition valid_pathname :: "cstring option \<Rightarrow> bool" where
  "valid_pathname name = (case name of None \<Rightarrow> False | Some n \<Rightarrow> length n > 1 \<and> hd n = 47)"

definition tfs_lookup :: "cstring option \<Rightarrow> nat \<Rightarrow> fs \<Rightarrow> int res" where
  "tfs_lookup name root_inode s =
     (if \<not> valid_pathname name then Inr (-1) else find_in_dir root_inode (tl (the name)) s)"

section \<open>Open and close\<close>

definition TFS_O_CREAT :: u32 where "TFS_O_CREAT = 1"
definition TFS_O_TRUNC :: u32 where "TFS_O_TRUNC = 2"
definition TFS_O_APPEND :: u32 where "TFS_O_APPEND = 4"

lemmas mode_defs = TFS_O_CREAT_def TFS_O_TRUNC_def TFS_O_APPEND_def

text \<open>The branch for a file that exists: truncate if asked to, then the initial offset.\<close>

definition open_existing :: "int \<Rightarrow> u32 \<Rightarrow> fs \<Rightarrow> (size_t \<times> fs) res" where
  "open_existing inum mode s =
     bindE (inode_get inum s) (\<lambda>p.
     bindE (aget (inode_table s) p) (\<lambda>inode.
     bindE (if mode AND TFS_O_TRUNC \<noteq> 0 \<and> i_size inode > 0
            then bindE (data_block_free (i_data_block inode) s) (upd_inode p (\<lambda>x. x\<lparr>i_size := 0\<rparr>))
            else Inr s) (\<lambda>s.
     bindE (aget (inode_table s) p) (\<lambda>inode.
     Inr (if mode AND TFS_O_APPEND \<noteq> 0 then i_size inode else 0, s)))))"

definition tfs_open_body :: "cstring option \<Rightarrow> u32 \<Rightarrow> fs \<Rightarrow> (int \<times> fs) res" where
  "tfs_open_body name mode s =
     (if \<not> valid_pathname name then Inr (-1, s)
      else
        bindE (inode_get ROOT_DIR_INUM s) (\<lambda>root_dir_inode.
        bindE (tfs_lookup name root_dir_inode s) (\<lambda>inum.
        if inum \<ge> 0 then
          bindE (open_existing inum mode s) (\<lambda>(offset, s). add_to_open_file_table inum offset s)
        else if mode AND TFS_O_CREAT \<noteq> 0 then
          bindE (inode_create T_FILE s) (\<lambda>(inum, s).
          if inum = -1 then Inr (-1, s)
          else
            bindE (add_dir_entry root_dir_inode (tl (the name)) inum s) (\<lambda>(r, s).
            if r = -1 then bindE (inode_delete inum s) (\<lambda>s. Inr (-1, s))
            else add_to_open_file_table inum 0 s))
        else Inr (-1, s))))"

definition tfs_open :: "mutex_rc \<Rightarrow> cstring option \<Rightarrow> u32 \<Rightarrow> fs \<Rightarrow> (int \<times> fs) res" where
  "tfs_open m name mode = with_library_mutex m (tfs_open_body name mode)"

definition tfs_close_body :: "int \<Rightarrow> fs \<Rightarrow> (int \<times> fs) res" where
  "tfs_close_body fhandle s =
     bindE (get_open_file_entry fhandle s) (\<lambda>file.
     case file of
       None \<Rightarrow> Inr (-1, s)
     | Some _ \<Rightarrow> bindE (remove_from_open_file_table fhandle s) (\<lambda>s. Inr (0, s)))"

definition tfs_close :: "mutex_rc \<Rightarrow> int \<Rightarrow> fs \<Rightarrow> (int \<times> fs) res" where
  "tfs_close m fhandle = with_library_mutex m (tfs_close_body fhandle)"

section \<open>Write\<close>

text \<open>\<open>file->of_offset := off\<close>.\<close>

definition set_offset :: "nat \<Rightarrow> size_t \<Rightarrow> fs \<Rightarrow> fs res" where
  "set_offset f off s =
     bindE (aget (open_file_table s) f) (\<lambda>fe.
     bindE (aset (open_file_table s) f (fe\<lparr>of_offset := off\<rparr>)) (\<lambda>t. Inr (s\<lparr>open_file_table := t\<rparr>)))"

text \<open>The copy of \<open>n\<close> bytes to inode \<open>p\<close> at the offset of entry \<open>f\<close>, and both updates after it.\<close>

definition write_block :: "nat \<Rightarrow> nat \<Rightarrow> u8 list \<Rightarrow> size_t \<Rightarrow> fs \<Rightarrow> (int \<times> fs) res" where
  "write_block f p buffer n s =
     bindE (aget (open_file_table s) f) (\<lambda>fe.
     bindE (aget (inode_table s) p) (\<lambda>inode.
     bindE (data_block_get (i_data_block inode) s) (\<lambda>block.
     bindE (mem_read (Some buffer) 0 (unat n)) (\<lambda>bs.
     bindE (mem_write (fs_data s) (block + unat (of_offset fe)) bs) (\<lambda>mem.
     let s = s\<lparr>fs_data := mem\<rparr>; off = of_offset fe + n in
     bindE (set_offset f off s) (\<lambda>s.
     bindE (if off > i_size inode then upd_inode p (\<lambda>x. x\<lparr>i_size := off\<rparr>) s else Inr s) (\<lambda>s.
     Inr (c_ssize n, s))))))))"

definition tfs_write_body :: "int \<Rightarrow> u8 list \<Rightarrow> size_t \<Rightarrow> fs \<Rightarrow> (int \<times> fs) res" where
  "tfs_write_body fhandle buffer to_write s =
     bindE (get_open_file_entry fhandle s) (\<lambda>file.
     case file of
       None \<Rightarrow> Inr (-1, s)
     | Some f \<Rightarrow>
         bindE (aget (open_file_table s) f) (\<lambda>fe.
         bindE (inode_get (of_inumber fe) s) (\<lambda>p.
         let bsize = state_block_size s;
             to_write = (if to_write + of_offset fe > bsize then bsize - of_offset fe else to_write)
         in
         if to_write > 0 then
           bindE (aget (inode_table s) p) (\<lambda>inode.
           if i_size inode = 0 then
             bindE (data_block_alloc s) (\<lambda>(bnum, s).
             if bnum = -1 then Inr (-1, s)
             else bindE (upd_inode p (\<lambda>x. x\<lparr>i_data_block := bnum\<rparr>) s) (write_block f p buffer to_write))
           else write_block f p buffer to_write s)
         else Inr (c_ssize to_write, s))))"

definition tfs_write :: "mutex_rc \<Rightarrow> int \<Rightarrow> u8 list \<Rightarrow> size_t \<Rightarrow> fs \<Rightarrow> (int \<times> fs) res" where
  "tfs_write m fhandle buffer to_write = with_library_mutex m (tfs_write_body fhandle buffer to_write)"

section \<open>Read\<close>

text \<open>The caller's buffer is part of the state: its first bytes are overwritten.\<close>

definition tfs_read_body :: "int \<Rightarrow> size_t \<Rightarrow> u8 list \<times> fs \<Rightarrow> (int \<times> u8 list \<times> fs) res" where
  "tfs_read_body fhandle len bs =
     (let (buffer, s) = bs in
      bindE (get_open_file_entry fhandle s) (\<lambda>file.
      case file of
        None \<Rightarrow> Inr (-1, buffer, s)
      | Some f \<Rightarrow>
          bindE (aget (open_file_table s) f) (\<lambda>fe.
          bindE (inode_get (of_inumber fe) s) (\<lambda>p.
          bindE (aget (inode_table s) p) (\<lambda>inode.
          let to_read = i_size inode - of_offset fe;
              to_read = (if to_read > len then len else to_read)
          in
          if to_read > 0 then
            bindE (data_block_get (i_data_block inode) s) (\<lambda>block.
            bindE (mem_read (fs_data s) (block + unat (of_offset fe)) (unat to_read)) (\<lambda>data.
            bindE (mem_write (Some buffer) 0 data) (\<lambda>buffer'.
            bindE (set_offset f (of_offset fe + to_read) s) (\<lambda>s.
            Inr (c_ssize to_read, the buffer', s)))))
          else Inr (c_ssize to_read, buffer, s))))))"

definition tfs_read ::
    "mutex_rc \<Rightarrow> int \<Rightarrow> size_t \<Rightarrow> u8 list \<times> fs \<Rightarrow> (int \<times> u8 list \<times> fs) res" where
  "tfs_read m fhandle len = with_library_mutex m (tfs_read_body fhandle len)"

section \<open>Unlink\<close>

definition tfs_unlink_body :: "cstring option \<Rightarrow> fs \<Rightarrow> (int \<times> fs) res" where
  "tfs_unlink_body target s =
     (if \<not> valid_pathname target then Inr (-1, s)
      else
        bindE (inode_get ROOT_DIR_INUM s) (\<lambda>root_dir_inode.
        bindE (tfs_lookup target root_dir_inode s) (\<lambda>inum.
        if inum = -1 then Inr (-1, s)
        else
          bindE (inode_delete inum s) (\<lambda>s.
          bindE (clear_dir_entry root_dir_inode (tl (the target)) s) (\<lambda>(r, s).
          if r = -1 then Inr (-1, s) else Inr (0, s))))))"

definition tfs_unlink :: "mutex_rc \<Rightarrow> cstring option \<Rightarrow> fs \<Rightarrow> (int \<times> fs) res" where
  "tfs_unlink m target = with_library_mutex m (tfs_unlink_body target)"

end
