(* ===== verification/Tfs_Dir.thy ===== *)
theory Tfs_Dir
  imports Tfs_Ops
begin

text \<open>
  What the loops of \<open>state.c\<close> compute: the first-fit searches of the allocation maps, and
  the searches and updates of the directory entries, read as a list of pairs of a name and
  an inumber. The lemmas here turn byte-level loops into list operations; nothing above
  this theory looks at the bytes of a directory again.
\<close>

section \<open>First-fit search\<close>

fun first_free :: "allocation_state_t list \<Rightarrow> nat option" where
  "first_free [] = None"
| "first_free (a # as) = (if a = FREE then Some 0 else map_option Suc (first_free as))"

lemma open_scan_drop:
  "n = length xs \<Longrightarrow> i \<le> n \<Longrightarrow>
     open_scan (Some xs) i n = Inr (map_option (\<lambda>k. i + k) (first_free (drop i xs)))"
proof (induction "Some xs" i n rule: open_scan.induct)
  case (1 i n)
  show ?case
  proof (cases "i < n")
    case True
    then have d: "drop i xs = xs ! i # drop (Suc i) xs"
      using "1.prems" by (simp add: Cons_nth_drop_Suc)
    show ?thesis
    proof (cases "xs ! i = FREE")
      case True
      with \<open>i < n\<close> "1.prems" d show ?thesis by (simp add: open_scan.simps [of _ i])
    next
      case False
      with \<open>i < n\<close> "1.prems" have
        "open_scan (Some xs) (Suc i) n = Inr (map_option (\<lambda>k. Suc i + k) (first_free (drop (Suc i) xs)))"
        by (intro "1.hyps") auto
      with False \<open>i < n\<close> "1.prems" d show ?thesis
        by (simp add: open_scan.simps [of _ i] option.map_comp comp_def)
    qed
  next
    case False
    with "1.prems" show ?thesis by (subst open_scan.simps) simp
  qed
qed

lemma open_scan_eq [c_simps]: "n = length xs \<Longrightarrow> open_scan (Some xs) 0 n = Inr (first_free xs)"
  by (simp add: open_scan_drop option.map_ident)

lemma alloc_scan_open: "bs \<noteq> 0 \<Longrightarrow> alloc_scan bs tab i n = open_scan tab i n"
proof (induction bs tab i n rule: alloc_scan.induct)
  case (1 bs tab i n)
  then show ?case
    by (subst alloc_scan.simps, subst open_scan.simps) (auto intro!: bindE_cong)
qed

lemma first_free_None: "first_free xs = None \<longleftrightarrow> FREE \<notin> set xs"
  by (induction xs) auto

lemma first_free_SomeD:
  "first_free xs = Some k \<Longrightarrow> k < length xs \<and> xs ! k = FREE \<and> (\<forall>j<k. xs ! j = TAKEN)"
proof (induction xs arbitrary: k)
  case Nil
  then show ?case by simp
next
  case (Cons a as)
  show ?case
  proof (cases a)
    case FREE
    with Cons.prems show ?thesis by simp
  next
    case TAKEN
    with Cons.prems obtain m where m: "first_free as = Some m" "k = Suc m" by auto
    from Cons.IH [OF m(1)] m(2) TAKEN show ?thesis by (auto simp: less_Suc_eq_0_disj)
  qed
qed

lemma first_free_least:
  "k < length xs \<Longrightarrow> xs ! k = FREE \<Longrightarrow> (\<And>j. j < k \<Longrightarrow> xs ! j = TAKEN) \<Longrightarrow> first_free xs = Some k"
proof (cases "first_free xs")
  case None
  assume "k < length xs" "xs ! k = FREE"
  with None show ?thesis by (metis first_free_None nth_mem)
next
  case (Some m)
  assume k: "k < length xs" "xs ! k = FREE" "\<And>j. j < k \<Longrightarrow> xs ! j = TAKEN"
  from first_free_SomeD [OF Some] have "\<not> m < k" "\<not> k < m"
    using k(2) k(3) by auto
  with Some show ?thesis by simp
qed

lemma not_free_taken [simp]: "a \<noteq> FREE \<longleftrightarrow> a = TAKEN" "a \<noteq> TAKEN \<longleftrightarrow> a = FREE"
  by (cases a; simp)+

lemma fill_free_drop:
  "n = length xs \<Longrightarrow> i \<le> n \<Longrightarrow>
     fill_free i n (Some xs) = Inr (Some (take i xs @ replicate (n - i) FREE))"
proof (induction i n "Some xs" arbitrary: xs rule: fill_free.induct)
  case (1 i n xs)
  show ?case
  proof (cases "i < n")
    case True
    have "fill_free (Suc i) n (Some (xs[i := FREE])) =
        Inr (Some (take (Suc i) (xs[i := FREE]) @ replicate (n - Suc i) FREE))"
      using True "1.prems" by (intro "1.hyps") auto
    moreover have "take (Suc i) (xs[i := FREE]) @ replicate (n - Suc i) FREE =
        take i xs @ replicate (n - i) FREE"
      using True "1.prems"
      by (simp add: take_Suc_conv_app_nth Suc_diff_Suc flip: replicate_Suc)
    ultimately show ?thesis using True "1.prems" by (simp add: fill_free.simps [of i])
  next
    case False
    with "1.prems" show ?thesis by (subst fill_free.simps) simp
  qed
qed

lemma fill_free_eq [c_simps]:
  "n = length xs \<Longrightarrow> fill_free 0 n (Some xs) = Inr (Some (replicate n FREE))"
  by (simp add: fill_free_drop)

section \<open>A directory block as a list of entries\<close>

definition d_name :: "u8 list \<Rightarrow> nat \<Rightarrow> nat \<Rightarrow> u8 list" where
  "d_name mem blk i = region (blk + dir_entry_size * i) MAX_FILE_NAME mem"

definition d_inumber :: "u8 list \<Rightarrow> nat \<Rightarrow> nat \<Rightarrow> int" where
  "d_inumber mem blk i =
     bytes_int32 (region (blk + dir_entry_size * i + MAX_FILE_NAME) 4 mem)"

type_synonym dir_entry = "cstring \<times> int"

definition dir_view :: "u8 list \<Rightarrow> nat \<Rightarrow> nat \<Rightarrow> dir_entry list" where
  "dir_view mem blk n = map (\<lambda>i. (cstr (d_name mem blk i), d_inumber mem blk i)) [0..<n]"

text \<open>Every name is terminated inside its 40 bytes.\<close>

definition names_terminated :: "u8 list \<Rightarrow> nat \<Rightarrow> nat \<Rightarrow> bool" where
  "names_terminated mem blk n \<longleftrightarrow> (\<forall>i<n. 0 \<in> set (d_name mem blk i))"

lemma length_dir_view [simp]: "length (dir_view mem blk n) = n"
  by (simp add: dir_view_def)

lemma nth_dir_view [simp]:
  "i < n \<Longrightarrow> dir_view mem blk n ! i = (cstr (d_name mem blk i), d_inumber mem blk i)"
  by (simp add: dir_view_def)

text \<open>The searches on the list: for a name in use, for an entry not in use, for a name.\<close>

fun dir_find :: "dir_entry list \<Rightarrow> cstring \<Rightarrow> int" where
  "dir_find [] name = -1"
| "dir_find (e # es) name = (if snd e \<noteq> -1 \<and> fst e = name then snd e else dir_find es name)"

fun dir_index :: "(dir_entry \<Rightarrow> bool) \<Rightarrow> dir_entry list \<Rightarrow> nat option" where
  "dir_index p [] = None"
| "dir_index p (e # es) = (if p e then Some 0 else map_option Suc (dir_index p es))"

lemma dir_index_None: "dir_index p es = None \<longleftrightarrow> (\<forall>i<length es. \<not> p (es ! i))"
  by (induction es) (auto simp: nth_Cons split: nat.splits)

lemma dir_index_SomeD:
  "dir_index p es = Some k \<Longrightarrow> k < length es \<and> p (es ! k) \<and> (\<forall>j<k. \<not> p (es ! j))"
proof (induction es arbitrary: k)
  case Nil
  then show ?case by simp
next
  case (Cons e es)
  then show ?case by (auto simp: less_Suc_eq_0_disj split: if_splits)
qed

lemma dir_find_unused: "(\<forall>i<length es. snd (es ! i) \<noteq> -1 \<longrightarrow> fst (es ! i) \<noteq> name) \<Longrightarrow> dir_find es name = -1"
proof (induction es)
  case Nil
  then show ?case by simp
next
  case (Cons e es)
  have "\<forall>i<length es. snd (es ! i) \<noteq> -1 \<longrightarrow> fst (es ! i) \<noteq> name"
    using Cons.prems by (metis Suc_less_eq length_Cons nth_Cons_Suc)
  then have "dir_find es name = -1" by (rule Cons.IH)
  moreover have "snd e \<noteq> -1 \<longrightarrow> fst e \<noteq> name"
    using Cons.prems by (metis length_greater_0_conv list.distinct(1) nth_Cons_0)
  ultimately show ?case by auto
qed

lemma dir_find_used:
  assumes "i < length es" and "snd (es ! i) \<noteq> -1" and "fst (es ! i) = name"
    and "\<And>j. j < length es \<Longrightarrow> j \<noteq> i \<Longrightarrow> snd (es ! j) \<noteq> -1 \<Longrightarrow> fst (es ! j) \<noteq> name"
  shows "dir_find es name = snd (es ! i)"
  using assms
proof (induction es arbitrary: i)
  case Nil
  then show ?case by simp
next
  case (Cons e es)
  show ?case
  proof (cases i)
    case 0
    with Cons.prems show ?thesis by simp
  next
    case (Suc k)
    have "dir_find es name = snd (es ! k)"
    proof (rule Cons.IH)
      fix j assume "j < length es" "j \<noteq> k" "snd (es ! j) \<noteq> -1"
      then show "fst (es ! j) \<noteq> name"
        using Cons.prems(4) [of "Suc j"] Suc by simp
    qed (use Cons.prems Suc in simp_all)
    moreover have "snd e \<noteq> -1 \<longrightarrow> fst e \<noteq> name"
      using Cons.prems(4) [of 0] Suc by simp
    ultimately show ?thesis using Suc by auto
  qed
qed

lemma dir_find_found:
  "dir_find es name = v \<Longrightarrow> v \<noteq> -1 \<Longrightarrow>
     \<exists>i<length es. snd (es ! i) = v \<and> fst (es ! i) = name"
proof (induction es)
  case Nil
  then show ?case by simp
next
  case (Cons e es)
  show ?case
  proof (cases "snd e \<noteq> -1 \<and> fst e = name")
    case True
    with Cons.prems show ?thesis by (intro exI [of _ 0]) simp
  next
    case False
    with Cons.prems have "dir_find es name = v" by auto
    then obtain i where "i < length es" "snd (es ! i) = v" "fst (es ! i) = name"
      using Cons.IH Cons.prems(2) by blast
    then show ?thesis by (intro exI [of _ "Suc i"]) simp
  qed
qed

text \<open>
  The number of entries up to the last one in use. An entry at or above it has never been
  in use, so that its name is still what \<open>malloc\<close> left there.
\<close>

fun used_span :: "dir_entry list \<Rightarrow> nat" where
  "used_span [] = 0"
| "used_span (e # es) = (if used_span es \<noteq> 0 then Suc (used_span es) else if snd e \<noteq> -1 then 1 else 0)"

lemma used_span_iff: "k < used_span es \<longleftrightarrow> (\<exists>l<length es. k \<le> l \<and> snd (es ! l) \<noteq> -1)"
proof (induction es arbitrary: k)
  case Nil
  then show ?case by simp
next
  case (Cons e es)
  have split: "(\<exists>l<length (e # es). k \<le> l \<and> snd ((e # es) ! l) \<noteq> -1) \<longleftrightarrow>
      (k = 0 \<and> snd e \<noteq> -1) \<or> (\<exists>l<length es. k \<le> Suc l \<and> snd (es ! l) \<noteq> -1)"
    by (auto simp: less_Suc_eq_0_disj)
  have later: "(\<exists>l<length es. k \<le> Suc l \<and> snd (es ! l) \<noteq> -1) \<longleftrightarrow> k - 1 < used_span es"
    unfolding Cons.IH by (auto simp: le_diff_conv)
  show ?case unfolding split later by auto
qed

lemma used_span_le: "used_span es \<le> length es"
  by (rule ccontr) (auto simp: not_le used_span_iff)

lemma used_span_used: "i < length es \<Longrightarrow> snd (es ! i) \<noteq> -1 \<Longrightarrow> i < used_span es"
  by (auto simp: used_span_iff)

lemma used_span_put:
  assumes "j < used_span (es[k := e])" and "j \<noteq> k" and "k < length es" and "\<forall>i<k. snd (es ! i) \<noteq> -1"
  shows "j < used_span es"
proof -
  obtain l where l: "l < length es" "j \<le> l" "snd (es[k := e] ! l) \<noteq> -1"
    using assms(1) by (auto simp: used_span_iff)
  show ?thesis
  proof (cases "l = k")
    case True
    then have "j < k" using l(2) assms(2) by simp
    then show ?thesis using assms(3,4) by (intro used_span_used) simp_all
  next
    case False
    then show ?thesis using l by (auto simp: used_span_iff)
  qed
qed

lemma used_span_clear: "j < used_span (es[k := (name, -1)]) \<Longrightarrow> j < used_span es"
proof -
  assume "j < used_span (es[k := (name, -1)])"
  then obtain l where l: "l < length es" "j \<le> l" "snd (es[k := (name, -1)] ! l) \<noteq> -1"
    by (auto simp: used_span_iff)
  moreover from this have "l \<noteq> k" by auto
  ultimately show ?thesis by (auto simp: used_span_iff)
qed

section \<open>The loops over the entries\<close>

text \<open>The memory after \<open>d_name\<close> and \<open>d_inumber\<close> of entry \<open>i\<close> have been assigned.\<close>

definition put_entry :: "u8 list \<Rightarrow> nat \<Rightarrow> nat \<Rightarrow> u8 list \<Rightarrow> int \<Rightarrow> u8 list" where
  "put_entry mem blk i raw v =
     patch (blk + dir_entry_size * i) raw
       (patch (blk + dir_entry_size * i + MAX_FILE_NAME) (int32_bytes v) mem)"

definition same_outside :: "nat \<Rightarrow> nat \<Rightarrow> 'a list \<Rightarrow> 'a list \<Rightarrow> bool" where
  "same_outside a b xs ys \<longleftrightarrow>
     length ys = length xs \<and> (\<forall>k<length xs. k < a \<or> b \<le> k \<longrightarrow> ys ! k = xs ! k)"

lemma same_outside_refl [simp]: "same_outside a b xs xs"
  by (simp add: same_outside_def)

lemma same_outside_trans:
  "same_outside a b xs ys \<Longrightarrow> same_outside c d ys zs \<Longrightarrow> l \<le> a \<Longrightarrow> l \<le> c \<Longrightarrow> b \<le> u \<Longrightarrow> d \<le> u \<Longrightarrow>
     same_outside l u xs zs"
  by (auto simp: same_outside_def)

lemma same_outside_patch:
  "off + length bs \<le> length xs \<Longrightarrow> a \<le> off \<Longrightarrow> off + length bs \<le> b \<Longrightarrow> same_outside a b xs (patch off bs xs)"
  by (auto simp: same_outside_def nth_patch)

lemma same_outside_region:
  assumes "same_outside a b xs ys" and "p + n \<le> a \<or> b \<le> p"
  shows "region p n ys = region p n xs"
proof (rule nth_equalityI)
  show "length (region p n ys) = length (region p n xs)"
    using assms(1) by (simp add: same_outside_def)
next
  fix i assume "i < length (region p n ys)"
  then show "region p n ys ! i = region p n xs ! i"
    using assms by (auto simp: same_outside_def nth_region)
qed

lemma patch_append:
  assumes "a + length xs + length ys \<le> length mem"
  shows "patch (a + length xs) ys (patch a xs mem) = patch a (xs @ ys) mem"
proof (rule nth_equalityI)
  show "length (patch (a + length xs) ys (patch a xs mem)) = length (patch a (xs @ ys) mem)"
    using assms by simp
next
  fix i assume "i < length (patch (a + length xs) ys (patch a xs mem))"
  then have "i < length mem" using assms by simp
  then show "patch (a + length xs) ys (patch a xs mem) ! i = patch a (xs @ ys) mem ! i"
    using assms by (auto simp: nth_patch nth_append)
qed

lemma int32_minus_one: "bytes_int32 (int32_bytes (- 1)) = - 1"
  by (simp add: bytes_int32_bytes)

lemma entry_bound: "blk + 44 * n \<le> L \<Longrightarrow> i < n \<Longrightarrow> blk + 44 * i + 44 \<le> (L::nat)"
  by linarith

lemma entries_apart: "(i::nat) \<noteq> j \<Longrightarrow> 44 * i + 44 \<le> 44 * j \<or> 44 * j + 44 \<le> 44 * i"
  by linarith

lemma put_entry_same_outside:
  assumes "blk + 44 * n \<le> length mem" and "i < n" and "length raw = 40"
  shows "same_outside (blk + 44 * i) (blk + 44 * i + 44) mem (put_entry mem blk i raw v)"
proof -
  note b = entry_bound [OF assms(1,2)]
  have "same_outside (blk + 44 * i) (blk + 44 * i + 44) mem
      (patch (blk + 44 * i + 40) (int32_bytes v) mem)"
    using b by (intro same_outside_patch) simp_all
  moreover have "same_outside (blk + 44 * i) (blk + 44 * i + 44)
      (patch (blk + 44 * i + 40) (int32_bytes v) mem) (put_entry mem blk i raw v)"
    using b assms(3) unfolding put_entry_def by (auto intro!: same_outside_patch)
  ultimately show ?thesis by (rule same_outside_trans) simp_all
qed

lemma length_put_entry [simp]:
  "blk + 44 * n \<le> length mem \<Longrightarrow> i < n \<Longrightarrow> length raw = 40 \<Longrightarrow> length (put_entry mem blk i raw v) = length mem"
  using put_entry_same_outside by (auto simp: same_outside_def)

lemma put_entry_same:
  assumes "blk + 44 * n \<le> length mem" and "i < n" and "length raw = 40"
    and "- (2 ^ 31) \<le> v" and "v < 2 ^ 31"
  shows "d_name (put_entry mem blk i raw v) blk i = raw"
    and "d_inumber (put_entry mem blk i raw v) blk i = v"
proof -
  note b = entry_bound [OF assms(1,2)]
  show "d_name (put_entry mem blk i raw v) blk i = raw"
    using b assms(3) region_patch_same [of "blk + 44 * i" raw
        "patch (blk + 44 * i + 40) (int32_bytes v) mem"]
    by (simp add: d_name_def put_entry_def)
  have "region (blk + 44 * i + 40) 4 (put_entry mem blk i raw v) = int32_bytes v"
    using b assms(3) region_patch_same [of "blk + 44 * i + 40" "int32_bytes v" mem]
    by (simp add: put_entry_def region_patch_other)
  then show "d_inumber (put_entry mem blk i raw v) blk i = v"
    using assms(4,5) by (simp add: d_inumber_def bytes_int32_bytes)
qed

lemma put_entry_other:
  assumes "blk + 44 * n \<le> length mem" and "i < n" and "length raw = 40" and "j \<noteq> i"
  shows "d_name (put_entry mem blk i raw v) blk j = d_name mem blk j"
    and "d_inumber (put_entry mem blk i raw v) blk j = d_inumber mem blk j"
proof -
  note o = put_entry_same_outside [OF assms(1-3), of v]
  note a = entries_apart [OF assms(4)]
  show "d_name (put_entry mem blk i raw v) blk j = d_name mem blk j"
    using same_outside_region [OF o, of "blk + 44 * j" 40] a by (auto simp: d_name_def)
  show "d_inumber (put_entry mem blk i raw v) blk j = d_inumber mem blk j"
    using same_outside_region [OF o, of "blk + 44 * j + 40" 4] a by (auto simp: d_inumber_def)
qed

lemma dir_view_put_entry:
  assumes "blk + 44 * n \<le> length mem" and "i < n" and "length raw = 40"
    and "- (2 ^ 31) \<le> v" and "v < 2 ^ 31"
  shows "dir_view (put_entry mem blk i raw v) blk n = (dir_view mem blk n)[i := (cstr raw, v)]"
  by (rule nth_equalityI)
    (auto simp: nth_list_update assms(2) put_entry_same [OF assms] put_entry_other [OF assms(1-3)])

lemma names_terminated_put_entry:
  assumes "blk + 44 * n \<le> length mem" and "i < n" and "length raw = 40" and "0 \<in> set raw"
    and "- (2 ^ 31) \<le> v" and "v < 2 ^ 31" and "names_terminated mem blk m"
    and "\<And>j. j < m' \<Longrightarrow> j \<noteq> i \<Longrightarrow> j < m"
  shows "names_terminated (put_entry mem blk i raw v) blk m'"
  unfolding names_terminated_def
proof (intro allI impI)
  fix j assume "j < m'"
  then show "0 \<in> set (d_name (put_entry mem blk i raw v) blk j)"
    using assms put_entry_same(1) [OF assms(1-3,5,6)] put_entry_other(1) [OF assms(1-3), of j v]
    by (cases "j = i") (auto simp: names_terminated_def)
qed

text \<open>One round of each loop, on an entry inside the block.\<close>

lemma read_d_inumber_eq [c_simps]:
  "blk + 44 * n \<le> length mem \<Longrightarrow> i < n \<Longrightarrow> read_d_inumber (Some mem) blk i = Inr (d_inumber mem blk i)"
  using entry_bound [of blk n "length mem" i]
  by (simp add: read_d_inumber_def d_inumber_def)

lemma d_name_take: "take 40 (drop (blk + 44 * i) mem) = d_name mem blk i"
  by (simp add: d_name_def region_def)

lemma mem_strncmp_eq [c_simps]:
  assumes "names_terminated mem blk n" and "i < n" and "is_cstring name"
  shows "mem_strncmp 40 (Some mem) (blk + 44 * i) name = Inr (cstr (d_name mem blk i) = name)"
proof -
  have z: "0 \<in> set (take 40 (drop (blk + 44 * i) mem))"
    using assms(1,2) by (simp add: names_terminated_def d_name_take)
  show ?thesis
    using strncmp_eq_terminated [OF z assms(3)] cstr_take [OF z]
    by (simp add: mem_strncmp_def d_name_take)
qed

lemma mem_strcmp_eq [c_simps]:
  assumes "names_terminated mem blk n" and "i < n" and "is_cstring name"
  shows "mem_strcmp (Some mem) (blk + 44 * i) name = Inr (cstr (d_name mem blk i) = name)"
proof -
  have z: "0 \<in> set (take 40 (drop (blk + 44 * i) mem))"
    using assms(1,2) by (simp add: names_terminated_def d_name_take)
  then have "0 \<in> set (drop (blk + 44 * i) mem)" by (rule in_set_takeD)
  from strcmp_eq_terminated [OF this assms(3)] cstr_take [OF z] show ?thesis
    by (simp add: mem_strcmp_def d_name_take)
qed

lemma drop_dir_view:
  "i < n \<Longrightarrow> drop i (dir_view mem blk n) =
     (cstr (d_name mem blk i), d_inumber mem blk i) # drop (Suc i) (dir_view mem blk n)"
  by (metis Cons_nth_drop_Suc length_dir_view nth_dir_view)

lemma find_loop_eq:
  assumes "blk + 44 * n \<le> length mem" and "names_terminated mem blk m" and "is_cstring name"
    and used: "\<And>i. i < n \<Longrightarrow> d_inumber mem blk i \<noteq> -1 \<Longrightarrow> i < m"
  shows "i \<le> n \<Longrightarrow> find_loop blk i n name (Some mem) = Inr (dir_find (drop i (dir_view mem blk n)) name)"
proof (induction "n - i" arbitrary: i)
  case 0
  then show ?case by (subst find_loop.simps) simp
next
  case (Suc k)
  then have i: "i < n" by simp
  have IH: "find_loop blk (Suc i) n name (Some mem) = Inr (dir_find (drop (Suc i) (dir_view mem blk n)) name)"
    using Suc by (intro Suc.hyps(1)) auto
  show ?case
    using mem_strncmp_eq [OF assms(2) used [OF i] assms(3)]
    by (subst find_loop.simps) (simp add: i IH read_d_inumber_eq [OF assms(1) i] drop_dir_view)
qed

lemma write_entry_eq:
  assumes "blk + 44 * n \<le> length mem" and "i < n" and "length xs + length ys = 40"
  shows "bindE (mem_write (Some mem) (blk + 44 * i + 40) (int32_bytes v)) (\<lambda>mem.
         bindE (mem_write mem (blk + 44 * i) xs) (\<lambda>mem.
         bindE (mem_write mem (blk + 44 * i + length xs) ys) (\<lambda>mem. Inr (r, mem)))) =
       Inr (r, Some (put_entry mem blk i (xs @ ys) v))"
proof -
  note b = entry_bound [OF assms(1,2)]
  have "patch (blk + 44 * i + length xs) ys (patch (blk + 44 * i) xs
      (patch (blk + 44 * i + 40) (int32_bytes v) mem)) = put_entry mem blk i (xs @ ys) v"
    using b assms(3) unfolding put_entry_def config_defs by (intro patch_append) simp
  then show ?thesis using b assms(3) by simp
qed

lemma add_loop_eq:
  assumes "blk + 44 * n \<le> length mem"
  shows "i \<le> n \<Longrightarrow> add_loop blk i n name v (Some mem) =
    (case dir_index (\<lambda>e. snd e = -1) (drop i (dir_view mem blk n)) of
       None \<Rightarrow> Inr (-1, Some mem)
     | Some k \<Rightarrow> Inr (0, Some (put_entry mem blk (i + k) (strncpy_bytes 39 name @ [0]) v)))"
proof (induction "n - i" arbitrary: i)
  case 0
  then show ?case by (subst add_loop.simps) simp
next
  case (Suc k)
  then have i: "i < n" by simp
  have IH: "add_loop blk (Suc i) n name v (Some mem) =
    (case dir_index (\<lambda>e. snd e = -1) (drop (Suc i) (dir_view mem blk n)) of
       None \<Rightarrow> Inr (-1, Some mem)
     | Some k \<Rightarrow> Inr (0, Some (put_entry mem blk (Suc i + k) (strncpy_bytes 39 name @ [0]) v)))"
    using Suc by (intro Suc.hyps(1)) auto
  show ?case
    using write_entry_eq [OF assms i, of "strncpy_bytes 39 name" "[0]" v 0] entry_bound [OF assms i]
    by (subst add_loop.simps)
      (simp add: i IH read_d_inumber_eq [OF assms i] drop_dir_view split: option.splits)
qed

text \<open>The entries before the match, and no other, have to be terminated strings.\<close>

lemma clear_loop_eq:
  assumes "blk + 44 * n \<le> length mem" and "names_terminated mem blk m" and "is_cstring name"
  shows "i \<le> n \<Longrightarrow> dir_index (\<lambda>e. fst e = name) (drop i (dir_view mem blk n)) = Some k \<Longrightarrow> i + k < m \<Longrightarrow>
    clear_loop blk i n name (Some mem) = Inr (0, Some (put_entry mem blk (i + k) (replicate 40 0) (-1)))"
proof (induction "n - i" arbitrary: i k)
  case 0
  then show ?case by simp
next
  case (Suc d)
  then have i: "i < n" by simp
  have im: "i < m" using Suc.prems(3) by simp
  have W: "bindE (mem_write (Some mem) (blk + 44 * i + 40) (int32_bytes (-1))) (\<lambda>mem.
      bindE (mem_write mem (blk + 44 * i) (replicate 40 0)) (\<lambda>mem. Inr (0, mem))) =
      Inr (0 :: int, Some (put_entry mem blk i (replicate 40 0) (-1)))"
    using entry_bound [OF assms(1) i] by (simp add: put_entry_def)
  show ?case
  proof (cases "cstr (d_name mem blk i) = name")
    case True
    then have "k = 0" using Suc.prems(2) by (simp add: drop_dir_view [OF i])
    then show ?thesis
      using W True by (subst clear_loop.simps) (simp add: i mem_strcmp_eq [OF assms(2) im assms(3)])
  next
    case False
    then obtain k' where k': "dir_index (\<lambda>e. fst e = name) (drop (Suc i) (dir_view mem blk n)) = Some k'" "k = Suc k'"
      using Suc.prems(2) by (auto simp: drop_dir_view [OF i])
    have "clear_loop blk (Suc i) n name (Some mem) =
        Inr (0, Some (put_entry mem blk (Suc i + k') (replicate 40 0) (-1)))"
      using Suc.hyps(2) Suc.prems i k' by (intro Suc.hyps(1)) simp_all
    then show ?thesis
      using False k'(2) by (subst clear_loop.simps) (simp add: i mem_strcmp_eq [OF assms(2) im assms(3)])
  qed
qed

text \<open>The initialisation loop makes every entry unused and leaves the names as they were.\<close>

lemma init_entries_eq:
  "blk + 44 * n \<le> length mem \<Longrightarrow> i \<le> n \<Longrightarrow>
     \<exists>mem'. init_entries blk i n (Some mem) = Inr (Some mem')
       \<and> same_outside blk (blk + 44 * n) mem mem'
       \<and> (\<forall>j<n. d_name mem' blk j = d_name mem blk j)
       \<and> (\<forall>j<n. d_inumber mem' blk j = (if i \<le> j then -1 else d_inumber mem blk j))"
proof (induction "n - i" arbitrary: i mem)
  case 0
  then show ?case by (subst init_entries.simps) auto
next
  case (Suc k)
  then have i: "i < n" by simp
  note b = entry_bound [OF Suc.prems(1) i]
  let ?m = "patch (blk + 44 * i + 40) (int32_bytes (-1)) mem"
  have o: "same_outside (blk + 44 * i + 40) (blk + 44 * i + 44) mem ?m"
    using b by (intro same_outside_patch) simp_all
  have names: "d_name ?m blk j = d_name mem blk j" for j
    using same_outside_region [OF o, of "blk + 44 * j" 40] by (cases "j \<le> i") (auto simp: d_name_def)
  have inum: "d_inumber ?m blk j = (if j = i then -1 else d_inumber mem blk j)" for j
  proof (cases "j = i")
    case True
    then show ?thesis
      using b region_patch_same [of "blk + 44 * i + 40" "int32_bytes (-1)" mem]
      by (simp add: d_inumber_def int32_minus_one)
  next
    case False
    then show ?thesis
      using same_outside_region [OF o, of "blk + 44 * j + 40" 4] entries_apart [OF False]
      by (auto simp: d_inumber_def)
  qed
  have l: "blk + 44 * n \<le> length ?m" using o Suc.prems(1) by (simp add: same_outside_def)
  have k: "k = n - Suc i" and "Suc i \<le> n" using Suc.hyps(2) by simp_all
  from Suc.hyps(1) [OF k l this(2)] obtain mem' where m':
    "init_entries blk (Suc i) n (Some ?m) = Inr (Some mem')"
    "same_outside blk (blk + 44 * n) ?m mem'"
    "\<forall>j<n. d_name mem' blk j = d_name ?m blk j"
    "\<forall>j<n. d_inumber mem' blk j = (if Suc i \<le> j then -1 else d_inumber ?m blk j)"
    by blast
  have "init_entries blk i n (Some mem) = Inr (Some mem')"
    using b i m'(1) by (subst init_entries.simps) simp
  moreover have "same_outside blk (blk + 44 * n) mem mem'"
    using o m'(2) b i by (rule_tac same_outside_trans) auto
  ultimately show ?case
    using m'(3,4) names inum by (intro exI [of _ mem']) auto
qed

end
