(* ===== verification/Tfs_Prims.thy ===== *)
theory Tfs_Prims
  imports Tfs_Dir
begin

text \<open>
  The primitives of \<open>state.c\<close> on a state whose tables are allocated with the sizes of its
  parameters (\<open>tables_ok\<close>): each one is rewritten to the value it returns and the fields
  it changes, with no case of \<open>Undefined\<close> left. These equations carry every later proof.
\<close>

section \<open>Reading the state\<close>

abbreviation itab :: "fs \<Rightarrow> inode_t list" where "itab s \<equiv> the (inode_table s)"
abbreviation ifree :: "fs \<Rightarrow> allocation_state_t list" where "ifree s \<equiv> the (freeinode_ts s)"
abbreviation fmem :: "fs \<Rightarrow> u8 list" where "fmem s \<equiv> the (fs_data s)"
abbreviation bfree :: "fs \<Rightarrow> allocation_state_t list" where "bfree s \<equiv> the (free_blocks s)"
abbreviation otab :: "fs \<Rightarrow> open_file_entry_t list" where "otab s \<equiv> the (open_file_table s)"
abbreviation ofree :: "fs \<Rightarrow> allocation_state_t list" where "ofree s \<equiv> the (free_open_file_entries s)"

abbreviation n_inodes :: "fs \<Rightarrow> nat" where "n_inodes s \<equiv> unat (max_inode_count (fs_params s))"
abbreviation n_blocks :: "fs \<Rightarrow> nat" where "n_blocks s \<equiv> unat (max_block_count (fs_params s))"
abbreviation n_files :: "fs \<Rightarrow> nat" where "n_files s \<equiv> unat (max_open_files_count (fs_params s))"
abbreviation bsz :: "fs \<Rightarrow> nat" where "bsz s \<equiv> unat (block_size (fs_params s))"

text \<open>
  Sane parameters: the counts fit an \<open>int\<close>, a block is not empty, and the size of the data
  area does not wrap (so that \<open>malloc(DATA_BLOCKS * BLOCK_SIZE)\<close> asks for all of it).
\<close>

definition params_ok :: "tfs_params \<Rightarrow> bool" where
  "params_ok p \<longleftrightarrow>
     unat (max_inode_count p) < 2 ^ 31 \<and> unat (max_block_count p) < 2 ^ 31 \<and>
     unat (max_open_files_count p) < 2 ^ 31 \<and> 0 < unat (block_size p) \<and>
     unat (max_block_count p) * unat (block_size p) < 2 ^ 63"

definition tables_ok :: "fs \<Rightarrow> bool" where
  "tables_ok s \<longleftrightarrow> params_ok (fs_params s) \<and>
     inode_table s \<noteq> None \<and> length (itab s) = n_inodes s \<and>
     freeinode_ts s \<noteq> None \<and> length (ifree s) = n_inodes s \<and>
     fs_data s \<noteq> None \<and> length (fmem s) = n_blocks s * bsz s \<and>
     free_blocks s \<noteq> None \<and> length (bfree s) = n_blocks s \<and>
     open_file_table s \<noteq> None \<and> length (otab s) = n_files s \<and>
     free_open_file_entries s \<noteq> None \<and> length (ofree s) = n_files s"

lemma tables_okD:
  assumes "tables_ok s"
  shows "inode_table s = Some (itab s)" "freeinode_ts s = Some (ifree s)"
    "fs_data s = Some (fmem s)" "free_blocks s = Some (bfree s)"
    "open_file_table s = Some (otab s)" "free_open_file_entries s = Some (ofree s)"
  using assms by (auto simp: tables_ok_def)

lemma tables_ok_lengths:
  assumes "tables_ok s"
  shows "length (itab s) = n_inodes s" "length (ifree s) = n_inodes s"
    "length (fmem s) = n_blocks s * bsz s" "length (bfree s) = n_blocks s"
    "length (otab s) = n_files s" "length (ofree s) = n_files s"
  using assms by (simp_all add: tables_ok_def)

lemma tables_ok_bounds:
  assumes "tables_ok s"
  shows "n_inodes s < 2 ^ 31" "n_blocks s < 2 ^ 31" "n_files s < 2 ^ 31" "0 < bsz s"
    "block_size (fs_params s) \<noteq> 0" "n_blocks s * bsz s < 2 ^ 63"
  using assms by (auto simp: tables_ok_def params_ok_def unat_eq_0)

lemma aget_tables:
  assumes "tables_ok s"
  shows "i < n_inodes s \<Longrightarrow> aget (inode_table s) i = Inr (itab s ! i)"
    and "i < n_inodes s \<Longrightarrow> aget (freeinode_ts s) i = Inr (ifree s ! i)"
    and "i < n_blocks s \<Longrightarrow> aget (free_blocks s) i = Inr (bfree s ! i)"
    and "i < n_files s \<Longrightarrow> aget (open_file_table s) i = Inr (otab s ! i)"
    and "i < n_files s \<Longrightarrow> aget (free_open_file_entries s) i = Inr (ofree s ! i)"
  using tables_okD [OF assms] tables_ok_lengths [OF assms]
  by (metis aget.simps(2))+

lemma aset_tables:
  assumes "tables_ok s"
  shows "i < n_inodes s \<Longrightarrow> aset (inode_table s) i x = Inr (Some ((itab s)[i := x]))"
    and "i < n_inodes s \<Longrightarrow> aset (freeinode_ts s) i a = Inr (Some ((ifree s)[i := a]))"
    and "i < n_blocks s \<Longrightarrow> aset (free_blocks s) i a = Inr (Some ((bfree s)[i := a]))"
    and "i < n_files s \<Longrightarrow> aset (open_file_table s) i e = Inr (Some ((otab s)[i := e]))"
    and "i < n_files s \<Longrightarrow> aset (free_open_file_entries s) i a = Inr (Some ((ofree s)[i := a]))"
  using tables_okD [OF assms] tables_ok_lengths [OF assms]
  by (metis aset.simps(2))+

text \<open>Every update of a table by one of the same length keeps \<open>tables_ok\<close>.\<close>

lemma tables_ok_updates [simp]:
  "tables_ok s \<Longrightarrow> length t = n_inodes s \<Longrightarrow> tables_ok (s\<lparr>inode_table := Some t\<rparr>)"
  "tables_ok s \<Longrightarrow> length f = n_inodes s \<Longrightarrow> tables_ok (s\<lparr>freeinode_ts := Some f\<rparr>)"
  "tables_ok s \<Longrightarrow> length d = n_blocks s * bsz s \<Longrightarrow> tables_ok (s\<lparr>fs_data := Some d\<rparr>)"
  "tables_ok s \<Longrightarrow> length b = n_blocks s \<Longrightarrow> tables_ok (s\<lparr>free_blocks := Some b\<rparr>)"
  "tables_ok s \<Longrightarrow> length ot = n_files s \<Longrightarrow> tables_ok (s\<lparr>open_file_table := Some ot\<rparr>)"
  "tables_ok s \<Longrightarrow> length fo = n_files s \<Longrightarrow> tables_ok (s\<lparr>free_open_file_entries := Some fo\<rparr>)"
  by (simp_all add: tables_ok_def)

section \<open>Blocks\<close>

lemma block_in_data:
  assumes "b < n" and "p + k \<le> (z::nat)"
  shows "b * z + p + k \<le> n * z"
proof -
  have "Suc b * z \<le> n * z" using assms(1) by (intro mult_le_mono1) simp
  then show ?thesis using assms(2) by simp
qed

lemma blocks_apart: "b \<noteq> c \<Longrightarrow> b * z + z \<le> c * z \<or> c * z + z \<le> b * (z::nat)"
proof -
  assume "b \<noteq> c"
  then consider "Suc b \<le> c" | "Suc c \<le> b" by linarith
  then show ?thesis
  proof cases
    case 1
    then have "Suc b * z \<le> c * z" by (rule mult_le_mono1)
    then show ?thesis by simp
  next
    case 2
    then have "Suc c * z \<le> b * z" by (rule mult_le_mono1)
    then show ?thesis by simp
  qed
qed

lemma valid_block_number_int: "valid_block_number (int b) s \<longleftrightarrow> b < n_blocks s"
  by (simp add: valid_block_number_def)

lemma data_block_get_eq:
  assumes "tables_ok s" and "b < n_blocks s"
  shows "data_block_get (int b) s = Inr (b * bsz s)"
proof -
  have "b * bsz s \<le> n_blocks s * bsz s" using assms(2) by simp
  also have "\<dots> < 2 ^ 63" by (rule tables_ok_bounds [OF assms(1)])
  finally have small: "b * bsz s < 2 ^ 64" by simp
  have "b < 2 ^ 64" using assms(2) tables_ok_bounds(2) [OF assms(1)] by simp
  then have "unat (of_nat b * block_size (fs_params s)) = b * bsz s"
    using small by (simp add: unat_word_ariths unat_of_nat)
  then show ?thesis
    using assms(2) tables_okD(3) [OF assms(1)]
    by (auto simp: data_block_get_def valid_block_number_int split: option.splits)
qed

lemma data_block_alloc_eq:
  assumes "tables_ok s"
  shows "data_block_alloc s =
    (case first_free (bfree s) of
       None \<Rightarrow> Inr (-1, s)
     | Some b \<Rightarrow> Inr (int b, s\<lparr>free_blocks := Some ((bfree s)[b := TAKEN])\<rparr>))"
proof -
  note t = tables_ok_bounds [OF assms] tables_ok_lengths [OF assms]
  have scan: "alloc_scan (block_size (fs_params s)) (free_blocks s) 0 (n_blocks s) = Inr (first_free (bfree s))"
    using t tables_okD(4) [OF assms] by (metis alloc_scan_open open_scan_eq)
  show ?thesis
  proof (cases "first_free (bfree s)")
    case None
    then show ?thesis by (simp add: data_block_alloc_def scan)
  next
    case (Some b)
    then have "b < n_blocks s" using first_free_SomeD t(10) by fastforce
    moreover from this have "c_int (of_nat b) = int b" using t(2) by (intro c_int_of_nat) simp
    ultimately show ?thesis
      by (simp add: data_block_alloc_def scan Some aset_tables [OF assms])
  qed
qed

lemma data_block_free_eq:
  "tables_ok s \<Longrightarrow> b < n_blocks s \<Longrightarrow>
     data_block_free (int b) s = Inr (s\<lparr>free_blocks := Some ((bfree s)[b := FREE])\<rparr>)"
  by (simp add: data_block_free_def valid_block_number_int aset_tables)

section \<open>Inodes\<close>

lemma valid_inumber_int: "valid_inumber (int i) s \<longleftrightarrow> i < n_inodes s"
  by (simp add: valid_inumber_def)

lemma inode_get_eq: "i < n_inodes s \<Longrightarrow> inode_get (int i) s = Inr i"
  by (simp add: inode_get_def valid_inumber_int)

lemma upd_inode_eq:
  "tables_ok s \<Longrightarrow> i < n_inodes s \<Longrightarrow>
     upd_inode i f s = Inr (s\<lparr>inode_table := Some ((itab s)[i := f (itab s ! i)])\<rparr>)"
  by (simp add: upd_inode_def aget_tables aset_tables)

lemma inode_alloc_eq:
  assumes "tables_ok s"
  shows "inode_alloc s =
    (case first_free (ifree s) of
       None \<Rightarrow> Inr (-1, s)
     | Some i \<Rightarrow> Inr (int i, s\<lparr>freeinode_ts := Some ((ifree s)[i := TAKEN])\<rparr>))"
proof -
  note t = tables_ok_bounds [OF assms] tables_ok_lengths [OF assms]
  have scan: "alloc_scan (block_size (fs_params s)) (freeinode_ts s) 0 (n_inodes s) = Inr (first_free (ifree s))"
    using t tables_okD(2) [OF assms] by (metis alloc_scan_open open_scan_eq)
  show ?thesis
  proof (cases "first_free (ifree s)")
    case None
    then show ?thesis by (simp add: inode_alloc_def scan)
  next
    case (Some i)
    then have "i < n_inodes s" using first_free_SomeD t(8) by fastforce
    moreover from this have "c_int (of_nat i) = int i" using t(1) by (intro c_int_of_nat) simp
    ultimately show ?thesis
      by (simp add: inode_alloc_def scan Some aset_tables [OF assms])
  qed
qed

text \<open>A new file: the first free inode, of size 0 and without a block.\<close>

definition new_file :: inode_t where
  "new_file = \<lparr>i_node_type = T_FILE, i_size = 0, i_data_block = -1\<rparr>"

lemma inode_create_file_eq:
  assumes "tables_ok s"
  shows "inode_create T_FILE s =
    (case first_free (ifree s) of
       None \<Rightarrow> Inr (-1, s)
     | Some i \<Rightarrow> Inr (int i, s\<lparr>freeinode_ts := Some ((ifree s)[i := TAKEN]),
                              inode_table := Some ((itab s)[i := new_file])\<rparr>))"
proof (cases "first_free (ifree s)")
  case None
  then show ?thesis by (simp add: inode_create_def inode_alloc_eq [OF assms])
next
  case (Some i)
  then have i: "i < n_inodes s"
    using first_free_SomeD tables_ok_lengths(2) [OF assms] by fastforce
  have "(itab s ! i)\<lparr>i_node_type := T_FILE, i_size := 0, i_data_block := -1\<rparr> = new_file"
    by (cases "itab s ! i") (simp add: new_file_def)
  with i show ?thesis
    using assms tables_ok_lengths [OF assms]
    by (simp add: inode_create_def inode_alloc_eq Some upd_inode_eq)
qed

lemma inode_delete_eq:
  assumes "tables_ok s" and "i < n_inodes s" and "ifree s ! i = TAKEN"
    and "i_size (itab s ! i) \<noteq> 0 \<Longrightarrow> i_data_block (itab s ! i) = int b \<and> b < n_blocks s"
  shows "inode_delete (int i) s =
    Inr (s\<lparr>free_blocks := Some (if i_size (itab s ! i) = 0 then bfree s else (bfree s)[b := FREE]),
           freeinode_ts := Some ((ifree s)[i := FREE])\<rparr>)"
proof (cases "i_size (itab s ! i) = 0")
  case True
  then show ?thesis
    using assms(1-3) tables_okD(4) [OF assms(1)]
    by (simp add: inode_delete_def valid_inumber_int aget_tables aset_tables)
next
  case False
  then show ?thesis
    using assms tables_ok_lengths [OF assms(1)]
    by (simp add: inode_delete_def valid_inumber_int aget_tables aset_tables data_block_free_eq word_neq_0_conv)
qed

section \<open>Open files\<close>

definition handle_open :: "fs \<Rightarrow> int \<Rightarrow> bool" where
  "handle_open s fh \<longleftrightarrow> 0 \<le> fh \<and> nat fh < n_files s \<and> ofree s ! nat fh = TAKEN"

lemma get_open_file_entry_eq:
  "tables_ok s \<Longrightarrow> get_open_file_entry fh s = Inr (if handle_open s fh then Some (nat fh) else None)"
  by (auto simp: get_open_file_entry_def valid_file_handle_def handle_open_def aget_tables)

lemma add_to_open_file_table_eq:
  assumes "tables_ok s"
  shows "add_to_open_file_table inum off s =
    (case first_free (ofree s) of
       None \<Rightarrow> Inr (-1, s)
     | Some h \<Rightarrow> Inr (int h, s\<lparr>free_open_file_entries := Some ((ofree s)[h := TAKEN]),
         open_file_table := Some ((otab s)[h := \<lparr>of_inumber = inum, of_offset = off\<rparr>])\<rparr>))"
proof -
  have scan: "open_scan (free_open_file_entries s) 0 (n_files s) = Inr (first_free (ofree s))"
    using tables_ok_lengths(6) [OF assms] tables_okD(6) [OF assms] by (metis open_scan_eq)
  show ?thesis
  proof (cases "first_free (ofree s)")
    case None
    then show ?thesis by (simp add: add_to_open_file_table_def scan)
  next
    case (Some h)
    then have "h < n_files s" using first_free_SomeD tables_ok_lengths(6) [OF assms] by fastforce
    then show ?thesis
      by (simp add: add_to_open_file_table_def scan Some aset_tables [OF assms])
  qed
qed

lemma remove_from_open_file_table_eq:
  "tables_ok s \<Longrightarrow> handle_open s fh \<Longrightarrow>
     remove_from_open_file_table fh s =
       Inr (s\<lparr>free_open_file_entries := Some ((ofree s)[nat fh := FREE])\<rparr>)"
  by (auto simp: remove_from_open_file_table_def valid_file_handle_def handle_open_def aget_tables
      aset_tables)

lemma set_offset_eq:
  "tables_ok s \<Longrightarrow> f < n_files s \<Longrightarrow>
     set_offset f off s = Inr (s\<lparr>open_file_table := Some ((otab s)[f := (otab s ! f)\<lparr>of_offset := off\<rparr>])\<rparr>)"
  by (simp add: set_offset_def aget_tables aset_tables)

end
