(* ===== verification/Tfs_Inv.thy ===== *)
theory Tfs_Inv
  imports Tfs_Prims
begin

text \<open>
  The invariant of the file system, and the views of the state the later theories speak
  about: the entries of the root directory (\<open>root_dir\<close>), the contents of a file
  (\<open>file_data\<close>), the inodes in use (\<open>live\<close>). The operations on the root directory are
  rewritten to list operations on \<open>root_dir\<close>.
\<close>

section \<open>Views\<close>

definition root_blk :: "fs \<Rightarrow> nat" where
  "root_blk s = nat (i_data_block (itab s ! 0)) * bsz s"

definition root_dir :: "fs \<Rightarrow> dir_entry list" where
  "root_dir s = dir_view (fmem s) (root_blk s) (max_dir_entries s)"

definition live :: "fs \<Rightarrow> nat \<Rightarrow> bool" where
  "live s i \<longleftrightarrow> i < n_inodes s \<and> ifree s ! i = TAKEN"

definition file_data :: "fs \<Rightarrow> nat \<Rightarrow> u8 list" where
  "file_data s i =
     region (nat (i_data_block (itab s ! i)) * bsz s) (unat (i_size (itab s ! i))) (fmem s)"

lemma length_root_dir [simp]: "length (root_dir s) = max_dir_entries s"
  by (simp add: root_dir_def)

section \<open>The invariant\<close>

text \<open>The root directory is inode 0, a directory that fills one block.\<close>

definition root_ok :: "fs \<Rightarrow> bool" where
  "root_ok s \<longleftrightarrow> live s 0 \<and> i_node_type (itab s ! 0) = T_DIRECTORY
     \<and> i_size (itab s ! 0) = block_size (fs_params s)"

text \<open>
  Every other inode in use is a file; a file that is not empty has a block of its own,
  marked as taken, and every taken block belongs to an inode.
\<close>

definition inodes_ok :: "fs \<Rightarrow> bool" where
  "inodes_ok s \<longleftrightarrow> (\<forall>i<n_inodes s. ifree s ! i = TAKEN \<longrightarrow>
     (i \<noteq> 0 \<longrightarrow> i_node_type (itab s ! i) = T_FILE)
     \<and> unat (i_size (itab s ! i)) \<le> bsz s
     \<and> (i_size (itab s ! i) \<noteq> 0 \<longrightarrow>
          0 \<le> i_data_block (itab s ! i) \<and> nat (i_data_block (itab s ! i)) < n_blocks s
          \<and> bfree s ! nat (i_data_block (itab s ! i)) = TAKEN))"

definition blocks_ok :: "fs \<Rightarrow> bool" where
  "blocks_ok s \<longleftrightarrow>
     (\<forall>i<n_inodes s. \<forall>j<n_inodes s. i \<noteq> j \<longrightarrow> ifree s ! i = TAKEN \<longrightarrow> ifree s ! j = TAKEN \<longrightarrow>
        i_size (itab s ! i) \<noteq> 0 \<longrightarrow> i_size (itab s ! j) \<noteq> 0 \<longrightarrow>
        i_data_block (itab s ! i) \<noteq> i_data_block (itab s ! j))
     \<and> (\<forall>b<n_blocks s. bfree s ! b = TAKEN \<longrightarrow>
          (\<exists>i<n_inodes s. ifree s ! i = TAKEN \<and> i_size (itab s ! i) \<noteq> 0
             \<and> i_data_block (itab s ! i) = int b))"

text \<open>
  The entries in use name distinct files by distinct names, and every file has an entry.
  An unused entry below one in use has been cleared, so its name is empty. Nothing is
  known of the names above the last entry in use, which \<open>inode_create\<close> does not
  initialise; \<open>clear_dir_entry\<close> compares names without looking at \<open>d_inumber\<close>, and the
  order in which entries are used is what keeps it below that point.
\<close>

definition dir_ok :: "fs \<Rightarrow> bool" where
  "dir_ok s \<longleftrightarrow>
     (\<forall>k<max_dir_entries s. snd (root_dir s ! k) \<noteq> -1 \<longrightarrow>
        fst (root_dir s ! k) \<noteq> [] \<and> 0 < snd (root_dir s ! k)
        \<and> nat (snd (root_dir s ! k)) < n_inodes s \<and> ifree s ! nat (snd (root_dir s ! k)) = TAKEN)
     \<and> (\<forall>k<used_span (root_dir s). snd (root_dir s ! k) = -1 \<longrightarrow> fst (root_dir s ! k) = [])
     \<and> (\<forall>k<max_dir_entries s. \<forall>l<max_dir_entries s. k \<noteq> l \<longrightarrow>
          snd (root_dir s ! k) \<noteq> -1 \<longrightarrow> snd (root_dir s ! l) \<noteq> -1 \<longrightarrow>
          fst (root_dir s ! k) \<noteq> fst (root_dir s ! l) \<and> snd (root_dir s ! k) \<noteq> snd (root_dir s ! l))
     \<and> (\<forall>i<n_inodes s. i \<noteq> 0 \<longrightarrow> ifree s ! i = TAKEN \<longrightarrow>
          (\<exists>k<max_dir_entries s. snd (root_dir s ! k) = int i))"

definition names_ok :: "fs \<Rightarrow> bool" where
  "names_ok s \<longleftrightarrow> names_terminated (fmem s) (root_blk s) (used_span (root_dir s))"

text \<open>An open handle refers to a file in use, with its offset inside the file or at its end.\<close>

definition handles_ok :: "fs \<Rightarrow> bool" where
  "handles_ok s \<longleftrightarrow> (\<forall>h<n_files s. ofree s ! h = TAKEN \<longrightarrow>
     0 < of_inumber (otab s ! h) \<and> nat (of_inumber (otab s ! h)) < n_inodes s
     \<and> ifree s ! nat (of_inumber (otab s ! h)) = TAKEN
     \<and> unat (of_offset (otab s ! h)) \<le> unat (i_size (itab s ! nat (of_inumber (otab s ! h)))))"

definition fs_inv :: "fs \<Rightarrow> bool" where
  "fs_inv s \<longleftrightarrow> tables_ok s \<and> root_ok s \<and> inodes_ok s \<and> blocks_ok s \<and> dir_ok s \<and> names_ok s \<and> handles_ok s"

lemmas fs_inv_defs = fs_inv_def root_ok_def inodes_ok_def blocks_ok_def dir_ok_def names_ok_def handles_ok_def

lemma fs_invD:
  assumes "fs_inv s"
  shows "tables_ok s" "root_ok s" "inodes_ok s" "blocks_ok s" "dir_ok s" "names_ok s" "handles_ok s"
  using assms by (simp_all add: fs_inv_def)

lemma inodes_okD:
  assumes "inodes_ok s" and "live s i"
  shows "i \<noteq> 0 \<Longrightarrow> i_node_type (itab s ! i) = T_FILE"
    and "unat (i_size (itab s ! i)) \<le> bsz s"
    and "i_size (itab s ! i) \<noteq> 0 \<Longrightarrow> \<exists>b. i_data_block (itab s ! i) = int b \<and> b < n_blocks s \<and> bfree s ! b = TAKEN"
proof -
  have a: "(i \<noteq> 0 \<longrightarrow> i_node_type (itab s ! i) = T_FILE) \<and> unat (i_size (itab s ! i)) \<le> bsz s
     \<and> (i_size (itab s ! i) \<noteq> 0 \<longrightarrow>
          0 \<le> i_data_block (itab s ! i) \<and> nat (i_data_block (itab s ! i)) < n_blocks s
          \<and> bfree s ! nat (i_data_block (itab s ! i)) = TAKEN)"
    using assms unfolding inodes_ok_def live_def by blast
  then show "i \<noteq> 0 \<Longrightarrow> i_node_type (itab s ! i) = T_FILE" "unat (i_size (itab s ! i)) \<le> bsz s"
    by blast+
  assume "i_size (itab s ! i) \<noteq> 0"
  with a show "\<exists>b. i_data_block (itab s ! i) = int b \<and> b < n_blocks s \<and> bfree s ! b = TAKEN"
    by (intro exI [of _ "nat (i_data_block (itab s ! i))"]) simp
qed

lemma blocks_okD:
  assumes "blocks_ok s" and "live s i" and "live s j" and "i \<noteq> j"
    and "i_size (itab s ! i) \<noteq> 0" and "i_size (itab s ! j) \<noteq> 0"
  shows "i_data_block (itab s ! i) \<noteq> i_data_block (itab s ! j)"
  using assms by (auto simp: blocks_ok_def live_def)

lemma handles_okD:
  assumes "handles_ok s" and "h < n_files s" and "ofree s ! h = TAKEN"
  obtains i where "of_inumber (otab s ! h) = int i" and "i \<noteq> 0" and "live s i"
    and "unat (of_offset (otab s ! h)) \<le> unat (i_size (itab s ! i))"
  using assms that [of "nat (of_inumber (otab s ! h))"] by (auto simp: handles_ok_def live_def)

lemma blocks_ok_owner:
  assumes "blocks_ok s" and "b < n_blocks s" and "bfree s ! b = TAKEN"
  obtains i where "live s i" and "i_size (itab s ! i) \<noteq> 0" and "i_data_block (itab s ! i) = int b"
  using assms unfolding blocks_ok_def live_def by blast

lemma blocks_okI:
  assumes "\<And>i j. live s i \<Longrightarrow> live s j \<Longrightarrow> i \<noteq> j \<Longrightarrow> i_size (itab s ! i) \<noteq> 0 \<Longrightarrow> i_size (itab s ! j) \<noteq> 0 \<Longrightarrow>
      i_data_block (itab s ! i) \<noteq> i_data_block (itab s ! j)"
    and "\<And>b. b < n_blocks s \<Longrightarrow> bfree s ! b = TAKEN \<Longrightarrow>
      \<exists>i. live s i \<and> i_size (itab s ! i) \<noteq> 0 \<and> i_data_block (itab s ! i) = int b"
  shows "blocks_ok s"
  using assms unfolding blocks_ok_def live_def by blast

lemma inodes_okI:
  assumes "\<And>i. live s i \<Longrightarrow> i \<noteq> 0 \<Longrightarrow> i_node_type (itab s ! i) = T_FILE"
    and "\<And>i. live s i \<Longrightarrow> unat (i_size (itab s ! i)) \<le> bsz s"
    and "\<And>i. live s i \<Longrightarrow> i_size (itab s ! i) \<noteq> 0 \<Longrightarrow>
      \<exists>b. i_data_block (itab s ! i) = int b \<and> b < n_blocks s \<and> bfree s ! b = TAKEN"
  shows "inodes_ok s"
  using assms unfolding inodes_ok_def live_def
  by (metis nat_int of_nat_0_le_iff)

lemma dir_ok_distinct:
  assumes "dir_ok s" and "k < max_dir_entries s" and "l < max_dir_entries s" and "k \<noteq> l"
    and "snd (root_dir s ! k) \<noteq> -1" and "snd (root_dir s ! l) \<noteq> -1"
  shows "fst (root_dir s ! k) \<noteq> fst (root_dir s ! l) \<and> snd (root_dir s ! k) \<noteq> snd (root_dir s ! l)"
  using assms unfolding dir_ok_def by blast

lemma dir_ok_entry:
  assumes "dir_ok s" and "k < max_dir_entries s" and "snd (root_dir s ! k) \<noteq> -1"
  obtains i where "snd (root_dir s ! k) = int i" and "i \<noteq> 0" and "live s i" and "fst (root_dir s ! k) \<noteq> []"
proof -
  have u: "0 < snd (root_dir s ! k)" "nat (snd (root_dir s ! k)) < n_inodes s"
    "ifree s ! nat (snd (root_dir s ! k)) = TAKEN" "fst (root_dir s ! k) \<noteq> []"
    using assms unfolding dir_ok_def by blast+
  define i where "i = nat (snd (root_dir s ! k))"
  show thesis
    by (rule that [of i]) (use u in \<open>simp_all add: live_def i_def\<close>)
qed

lemma handles_okI:
  assumes "\<And>h. h < n_files s \<Longrightarrow> ofree s ! h = TAKEN \<Longrightarrow>
     \<exists>i. of_inumber (otab s ! h) = int i \<and> i \<noteq> 0 \<and> live s i
       \<and> unat (of_offset (otab s ! h)) \<le> unat (i_size (itab s ! i))"
  shows "handles_ok s"
  unfolding handles_ok_def
proof (intro allI impI)
  fix h assume "h < n_files s" "ofree s ! h = TAKEN"
  from assms [OF this] obtain i where "of_inumber (otab s ! h) = int i" "i \<noteq> 0" "live s i"
    "unat (of_offset (otab s ! h)) \<le> unat (i_size (itab s ! i))" by blast
  then show "0 < of_inumber (otab s ! h) \<and> nat (of_inumber (otab s ! h)) < n_inodes s
     \<and> ifree s ! nat (of_inumber (otab s ! h)) = TAKEN
     \<and> unat (of_offset (otab s ! h)) \<le> unat (i_size (itab s ! nat (of_inumber (otab s ! h))))"
    by (simp add: live_def)
qed

lemma max_dir_entries_bytes: "44 * max_dir_entries s \<le> bsz s"
  by (simp add: max_dir_entries_def)

lemma root_block:
  assumes "tables_ok s" and "root_ok s" and "inodes_ok s"
  obtains b where "i_data_block (itab s ! 0) = int b" and "b < n_blocks s" and "bfree s ! b = TAKEN"
    and "root_blk s = b * bsz s"
proof -
  have "i_size (itab s ! 0) \<noteq> 0" "live s 0"
    using assms tables_ok_bounds(5) by (auto simp: root_ok_def)
  from inodes_okD(3) [OF assms(3) this(2,1)] that show thesis by (auto simp: root_blk_def)
qed

lemma root_blk_bound:
  assumes "tables_ok s" and "root_ok s" and "inodes_ok s"
  shows "root_blk s + 44 * max_dir_entries s \<le> length (fmem s)"
proof -
  obtain b where "b < n_blocks s" "root_blk s = b * bsz s"
    using root_block [OF assms] by blast
  then show ?thesis
    using block_in_data [of b "n_blocks s" 0 "44 * max_dir_entries s" "bsz s"]
      max_dir_entries_bytes tables_ok_lengths(3) [OF assms(1)] by simp
qed

section \<open>The operations on the root directory\<close>

lemma data_block_get_root:
  assumes "tables_ok s" and "root_ok s" and "inodes_ok s"
  shows "data_block_get (i_data_block (itab s ! 0)) s = Inr (root_blk s)"
proof -
  obtain b where "i_data_block (itab s ! 0) = int b" "b < n_blocks s" "root_blk s = b * bsz s"
    using root_block [OF assms] by blast
  then show ?thesis using data_block_get_eq [OF assms(1)] by simp
qed

lemma find_in_root:
  assumes "fs_inv s" and "is_cstring name"
  shows "find_in_dir 0 name s = Inr (dir_find (root_dir s) name)"
proof -
  note i = fs_invD [OF assms(1)]
  have "find_loop (root_blk s) 0 (max_dir_entries s) name (Some (fmem s)) = Inr (dir_find (root_dir s) name)"
    using find_loop_eq [OF root_blk_bound [OF i(1-3)] i(6) [unfolded names_ok_def] assms(2), of 0]
      used_span_used [of _ "root_dir s"]
    by (simp add: root_dir_def)
  then show ?thesis
    using i(2) tables_okD(3) [OF i(1)]
    by (simp add: find_in_dir_def aget_tables [OF i(1)] root_ok_def live_def data_block_get_root [OF i(1-3)])
qed

lemma add_dir_entry_root:
  assumes "tables_ok s" and "root_ok s" and "inodes_ok s" and "name \<noteq> []"
  shows "add_dir_entry 0 name v s =
    (if length name > 39 then Inr (-1, s)
     else case dir_index (\<lambda>e. snd e = -1) (root_dir s) of
       None \<Rightarrow> Inr (-1, s)
     | Some k \<Rightarrow> Inr (0, s\<lparr>fs_data :=
         Some (put_entry (fmem s) (root_blk s) k (strncpy_bytes 39 name @ [0]) v)\<rparr>))"
proof -
  have "add_loop (root_blk s) 0 (max_dir_entries s) name v (Some (fmem s)) =
    (case dir_index (\<lambda>e. snd e = -1) (root_dir s) of
       None \<Rightarrow> Inr (-1, Some (fmem s))
     | Some k \<Rightarrow> Inr (0, Some (put_entry (fmem s) (root_blk s) k (strncpy_bytes 39 name @ [0]) v)))"
    using add_loop_eq [OF root_blk_bound [OF assms(1-3)], of 0]
    by (simp add: root_dir_def split: option.splits)
  then show ?thesis
    using assms(2,4) tables_okD(3) [OF assms(1)]
    by (auto simp: add_dir_entry_def aget_tables [OF assms(1)] root_ok_def live_def
        data_block_get_root [OF assms(1-3)] split: option.splits)
qed

lemma clear_dir_entry_root:
  assumes "tables_ok s" and "root_ok s" and "inodes_ok s" and "names_ok s" and "is_cstring name"
    and "dir_index (\<lambda>e. fst e = name) (root_dir s) = Some k" and "k < used_span (root_dir s)"
  shows "clear_dir_entry 0 name s =
    Inr (0, s\<lparr>fs_data := Some (put_entry (fmem s) (root_blk s) k (replicate 40 0) (-1))\<rparr>)"
proof -
  have "clear_loop (root_blk s) 0 (max_dir_entries s) name (Some (fmem s)) =
      Inr (0, Some (put_entry (fmem s) (root_blk s) k (replicate 40 0) (-1)))"
    using clear_loop_eq [OF root_blk_bound [OF assms(1-3)] assms(4) [unfolded names_ok_def] assms(5), of 0 k]
      assms(6,7) by (simp add: root_dir_def)
  then show ?thesis
    using assms(2) tables_okD(3) [OF assms(1)]
    by (simp add: clear_dir_entry_def aget_tables [OF assms(1)] root_ok_def live_def
        data_block_get_root [OF assms(1-3)])
qed

text \<open>Looking a name up under the invariant.\<close>

lemma dir_find_root:
  assumes "dir_ok s" and "dir_find (root_dir s) name \<noteq> -1"
  obtains k i where "k < max_dir_entries s" and "root_dir s ! k = (name, int i)"
    and "i \<noteq> 0" and "live s i" and "dir_find (root_dir s) name = int i"
proof -
  obtain k where k: "k < max_dir_entries s" "snd (root_dir s ! k) = dir_find (root_dir s) name"
    "fst (root_dir s ! k) = name"
    using dir_find_found [of "root_dir s" name] assms(2) by auto
  then obtain i where i: "snd (root_dir s ! k) = int i" "i \<noteq> 0" "live s i"
    using dir_ok_entry [OF assms(1) k(1)] assms(2) by metis
  show thesis
  proof (rule that [OF k(1) _ i(2,3)])
    show "root_dir s ! k = (name, int i)" using i(1) k(3) by (metis prod.collapse)
    show "dir_find (root_dir s) name = int i" using k(2) i(1) by metis
  qed
qed

lemma dir_find_nonneg:
  assumes "dir_ok s"
  shows "0 \<le> dir_find (root_dir s) name \<longleftrightarrow> dir_find (root_dir s) name \<noteq> -1"
proof
  assume "dir_find (root_dir s) name \<noteq> -1"
  then obtain i where "dir_find (root_dir s) name = int i"
    using dir_find_root [OF assms] by metis
  then show "0 \<le> dir_find (root_dir s) name" by (metis of_nat_0_le_iff)
qed auto

lemma dir_find_entry:
  assumes "dir_ok s" and "k < max_dir_entries s" and "snd (root_dir s ! k) \<noteq> -1"
  shows "dir_find (root_dir s) (fst (root_dir s ! k)) = snd (root_dir s ! k)"
  using assms by (intro dir_find_used) (auto simp: dir_ok_def)

end
