(* ===== verification/Tfs_Keep.thy ===== *)
theory Tfs_Keep
  imports Tfs_Inv
begin

text \<open>
  The updates of the state the operations perform, and the proof that each one keeps the
  invariant: a handle opened, moved or closed, a file created, written, truncated or
  deleted. Each lemma also says what the update does to the views (\<open>root_dir\<close>,
  \<open>file_data\<close>).
\<close>

section \<open>Frames\<close>

lemma views_handles [simp]:
  "root_blk (s\<lparr>open_file_table := x\<rparr>) = root_blk s"
  "root_dir (s\<lparr>open_file_table := x\<rparr>) = root_dir s"
  "live (s\<lparr>open_file_table := x\<rparr>) i = live s i"
  "file_data (s\<lparr>open_file_table := x\<rparr>) i = file_data s i"
  "root_blk (s\<lparr>free_open_file_entries := y\<rparr>) = root_blk s"
  "root_dir (s\<lparr>free_open_file_entries := y\<rparr>) = root_dir s"
  "live (s\<lparr>free_open_file_entries := y\<rparr>) i = live s i"
  "file_data (s\<lparr>free_open_file_entries := y\<rparr>) i = file_data s i"
  by (simp_all add: root_blk_def root_dir_def live_def file_data_def max_dir_entries_def)

lemma parts_handles [simp]:
  "root_ok (s\<lparr>open_file_table := x\<rparr>) = root_ok s"
  "inodes_ok (s\<lparr>open_file_table := x\<rparr>) = inodes_ok s"
  "blocks_ok (s\<lparr>open_file_table := x\<rparr>) = blocks_ok s"
  "dir_ok (s\<lparr>open_file_table := x\<rparr>) = dir_ok s"
  "names_ok (s\<lparr>open_file_table := x\<rparr>) = names_ok s"
  "root_ok (s\<lparr>free_open_file_entries := y\<rparr>) = root_ok s"
  "inodes_ok (s\<lparr>free_open_file_entries := y\<rparr>) = inodes_ok s"
  "blocks_ok (s\<lparr>free_open_file_entries := y\<rparr>) = blocks_ok s"
  "dir_ok (s\<lparr>free_open_file_entries := y\<rparr>) = dir_ok s"
  "names_ok (s\<lparr>free_open_file_entries := y\<rparr>) = names_ok s"
  by (simp_all add: root_ok_def inodes_ok_def blocks_ok_def dir_ok_def names_ok_def max_dir_entries_def)

section \<open>Handles\<close>

definition add_handle :: "nat \<Rightarrow> nat \<Rightarrow> size_t \<Rightarrow> fs \<Rightarrow> fs" where
  "add_handle h i off s = s\<lparr>free_open_file_entries := Some ((ofree s)[h := TAKEN]),
     open_file_table := Some ((otab s)[h := \<lparr>of_inumber = int i, of_offset = off\<rparr>])\<rparr>"

definition del_handle :: "nat \<Rightarrow> fs \<Rightarrow> fs" where
  "del_handle h s = s\<lparr>free_open_file_entries := Some ((ofree s)[h := FREE])\<rparr>"

definition move_handle :: "nat \<Rightarrow> size_t \<Rightarrow> fs \<Rightarrow> fs" where
  "move_handle h off s = s\<lparr>open_file_table := Some ((otab s)[h := (otab s ! h)\<lparr>of_offset := off\<rparr>])\<rparr>"

lemma fs_inv_add_handle:
  assumes "fs_inv s" and "live s i" and "i \<noteq> 0" and "unat off \<le> unat (i_size (itab s ! i))"
  shows "fs_inv (add_handle h i off s)"
proof -
  note i = fs_invD [OF assms(1)]
  have "handles_ok (add_handle h i off s)"
    unfolding handles_ok_def
  proof (intro allI impI)
    fix k assume k: "k < n_files (add_handle h i off s)" "ofree (add_handle h i off s) ! k = TAKEN"
    then show "0 < of_inumber (otab (add_handle h i off s) ! k)
      \<and> nat (of_inumber (otab (add_handle h i off s) ! k)) < n_inodes (add_handle h i off s)
      \<and> ifree (add_handle h i off s) ! nat (of_inumber (otab (add_handle h i off s) ! k)) = TAKEN
      \<and> unat (of_offset (otab (add_handle h i off s) ! k))
          \<le> unat (i_size (itab (add_handle h i off s) ! nat (of_inumber (otab (add_handle h i off s) ! k))))"
      using assms(2-4) i(7) tables_ok_lengths [OF i(1)]
      by (cases "k = h") (auto simp: add_handle_def handles_ok_def live_def)
  qed
  then show ?thesis
    using i tables_ok_lengths [OF i(1)] by (simp add: fs_inv_def add_handle_def)
qed

lemma fs_inv_del_handle:
  assumes "fs_inv s"
  shows "fs_inv (del_handle h s)"
proof -
  note i = fs_invD [OF assms(1)]
  have "ofree s ! k = TAKEN" if "k < n_files s" "(ofree s)[h := FREE] ! k = TAKEN" for k
    using that tables_ok_lengths [OF i(1)] by (cases "k = h") auto
  then have "handles_ok (del_handle h s)"
    using i(7) by (simp add: del_handle_def handles_ok_def)
  then show ?thesis
    using i tables_ok_lengths [OF i(1)] by (simp add: fs_inv_def del_handle_def)
qed

lemma fs_inv_move_handle:
  assumes "fs_inv s" and "of_inumber (otab s ! h) = int i" and "unat off \<le> unat (i_size (itab s ! i))"
  shows "fs_inv (move_handle h off s)"
proof -
  note i = fs_invD [OF assms(1)]
  have "handles_ok (move_handle h off s)"
    unfolding handles_ok_def
  proof (intro allI impI)
    fix k assume k: "k < n_files (move_handle h off s)" "ofree (move_handle h off s) ! k = TAKEN"
    then show "0 < of_inumber (otab (move_handle h off s) ! k)
      \<and> nat (of_inumber (otab (move_handle h off s) ! k)) < n_inodes (move_handle h off s)
      \<and> ifree (move_handle h off s) ! nat (of_inumber (otab (move_handle h off s) ! k)) = TAKEN
      \<and> unat (of_offset (otab (move_handle h off s) ! k))
          \<le> unat (i_size (itab (move_handle h off s) ! nat (of_inumber (otab (move_handle h off s) ! k))))"
      using assms(2,3) i(7) tables_ok_lengths [OF i(1)]
      by (cases "k = h") (auto simp: move_handle_def handles_ok_def)
  qed
  then show ?thesis
    using i tables_ok_lengths [OF i(1)] by (simp add: fs_inv_def move_handle_def)
qed

section \<open>Data of other files\<close>

lemma file_region:
  assumes "inodes_ok s" and "tables_ok s" and "live s i"
  obtains "i_size (itab s ! i) = 0" "file_data s i = []"
  | b where "i_size (itab s ! i) \<noteq> 0" "i_data_block (itab s ! i) = int b" "b < n_blocks s"
      "bfree s ! b = TAKEN" "file_data s i = region (b * bsz s) (unat (i_size (itab s ! i))) (fmem s)"
      "unat (i_size (itab s ! i)) \<le> bsz s"
  using inodes_okD [OF assms(1,3)] by (cases "i_size (itab s ! i) = 0") (auto simp: file_data_def)

lemma length_file_data:
  assumes "fs_inv s" and "live s i"
  shows "length (file_data s i) = unat (i_size (itab s ! i))"
proof -
  note i = fs_invD [OF assms(1)]
  show ?thesis
  proof (rule file_region [OF i(3,1) assms(2)])
    fix b assume b: "b < n_blocks s" "unat (i_size (itab s ! i)) \<le> bsz s"
      "file_data s i = region (b * bsz s) (unat (i_size (itab s ! i))) (fmem s)"
    then have "b * bsz s + 0 + unat (i_size (itab s ! i)) \<le> n_blocks s * bsz s"
      by (intro block_in_data) simp_all
    then show ?thesis using b(3) tables_ok_lengths(3) [OF i(1)] by simp
  qed simp
qed

text \<open>A write inside block \<open>b\<close> leaves alone what lies in any other block.\<close>

lemma same_outside_other_block:
  assumes "same_outside (b * z) (b * z + z) xs ys" and "b \<noteq> c" and "n \<le> z"
  shows "region (c * z) n ys = region (c * z) n xs"
  using same_outside_region [OF assms(1), of "c * z" n] blocks_apart [OF assms(2), of z] assms(3)
  by auto

lemma file_data_other_block:
  assumes "same_outside (b * bsz s) (b * bsz s + bsz s) (fmem s) mem"
    and "inodes_ok s" and "tables_ok s" and "live s j"
    and "i_size (itab s ! j) \<noteq> 0 \<Longrightarrow> i_data_block (itab s ! j) \<noteq> int b"
  shows "region (nat (i_data_block (itab s ! j)) * bsz s) (unat (i_size (itab s ! j))) mem = file_data s j"
proof (rule file_region [OF assms(2,3,4)])
  fix c assume c: "i_size (itab s ! j) \<noteq> 0" "i_data_block (itab s ! j) = int c"
    "file_data s j = region (c * bsz s) (unat (i_size (itab s ! j))) (fmem s)"
    "unat (i_size (itab s ! j)) \<le> bsz s"
  then have "b \<noteq> c" using assms(5) by auto
  from same_outside_other_block [OF assms(1) this c(4)] c show ?thesis by simp
qed (simp add: file_data_def)

lemma root_dir_other_block:
  assumes "same_outside (b * bsz s) (b * bsz s + bsz s) (fmem s) mem" and "root_blk s = c * bsz s" and "b \<noteq> c"
  shows "dir_view mem (root_blk s) (max_dir_entries s) = root_dir s"
    and "names_terminated mem (root_blk s) (used_span (root_dir s)) = names_ok s"
proof -
  have r: "region (root_blk s + p) n mem = region (root_blk s + p) n (fmem s)" if "p + n \<le> bsz s" for p n
    using same_outside_region [OF assms(1), of "root_blk s + p" n] blocks_apart [OF assms(3), of "bsz s"]
      that assms(2) by auto
  have e: "44 * k + 44 \<le> bsz s" if "k < max_dir_entries s" for k
    using entry_bound [of 0 "max_dir_entries s" "bsz s" k] max_dir_entries_bytes [of s] that by simp
  have n: "d_name mem (root_blk s) k = d_name (fmem s) (root_blk s) k"
    and u: "d_inumber mem (root_blk s) k = d_inumber (fmem s) (root_blk s) k"
    if "k < max_dir_entries s" for k
    using r [of "44 * k" 40] r [of "44 * k + 40" 4] e [OF that]
    by (simp_all add: d_name_def d_inumber_def add.assoc)
  show "dir_view mem (root_blk s) (max_dir_entries s) = root_dir s"
    unfolding root_dir_def by (rule nth_equalityI) (simp_all add: n u)
  show "names_terminated mem (root_blk s) (used_span (root_dir s)) = names_ok s"
    using n used_span_le [of "root_dir s"] by (simp add: names_ok_def names_terminated_def)
qed

text \<open>The root directory's entries lie inside its block.\<close>

lemma put_entry_root:
  assumes "fs_inv s" and "k < max_dir_entries s" and "length raw = 40"
  shows "same_outside (root_blk s) (root_blk s + bsz s) (fmem s) (put_entry (fmem s) (root_blk s) k raw v)"
proof -
  note i = fs_invD [OF assms(1)]
  have "44 * k + 44 \<le> bsz s"
    using entry_bound [of 0 "max_dir_entries s" "bsz s" k] max_dir_entries_bytes [of s] assms(2) by simp
  then show ?thesis
    using put_entry_same_outside [OF root_blk_bound [OF i(1-3)] assms(2,3), of v]
    by (auto simp: same_outside_def)
qed

section \<open>Creating a file\<close>

definition create_file :: "nat \<Rightarrow> nat \<Rightarrow> cstring \<Rightarrow> fs \<Rightarrow> fs" where
  "create_file i k name s = s\<lparr>freeinode_ts := Some ((ifree s)[i := TAKEN]),
     inode_table := Some ((itab s)[i := new_file]),
     fs_data := Some (put_entry (fmem s) (root_blk s) k (strncpy_bytes 39 name @ [0]) (int i))\<rparr>"

lemma cstr_entry:
  assumes "is_cstring name" and "length name \<le> 39"
  shows "cstr (strncpy_bytes 39 name @ [0]) = name"
proof -
  have "40 - length name = Suc (39 - length name)" using assms(2) by linarith
  then have "strncpy_bytes 39 name @ [0] = strncpy_bytes 40 name"
    using assms(2) by (simp add: strncpy_bytes_def replicate_append_same)
  then show ?thesis using cstr_strncpy(1) [OF assms(1), of 40] assms(2) by simp
qed

lemma free_not_root: "root_ok s \<Longrightarrow> ifree s ! i = FREE \<Longrightarrow> i \<noteq> 0"
  by (metis allocation_state_t.distinct(1) live_def root_ok_def)

lemma create_file_views:
  assumes inv: "fs_inv s" and i: "i < n_inodes s" "ifree s ! i = FREE"
    and k: "k < max_dir_entries s" and first: "\<forall>j<k. snd (root_dir s ! j) \<noteq> -1"
    and name: "is_cstring name" "length name \<le> 39"
  shows "root_dir (create_file i k name s) = (root_dir s)[k := (name, int i)]"
    and "names_ok (create_file i k name s)"
    and "root_blk (create_file i k name s) = root_blk s"
    and "live (create_file i k name s) j \<longleftrightarrow> j = i \<or> live s j"
    and "j \<noteq> 0 \<Longrightarrow> live s j \<Longrightarrow> file_data (create_file i k name s) j = file_data s j"
    and "file_data (create_file i k name s) i = []"
proof -
  note v = fs_invD [OF inv]
  note l = tables_ok_lengths [OF v(1)]
  have i0: "i \<noteq> 0" by (rule free_not_root [OF v(2) i(2)])
  have iv: "- (2 ^ 31) \<le> int i" "int i < 2 ^ 31" using i(1) tables_ok_bounds(1) [OF v(1)] by auto
  note b = root_blk_bound [OF v(1-3)]
  have raw: "length (strncpy_bytes 39 name @ [0]) = 40" by simp
  show blk: "root_blk (create_file i k name s) = root_blk s"
    using i0 by (simp add: create_file_def root_blk_def)
  show rd: "root_dir (create_file i k name s) = (root_dir s)[k := (name, int i)]"
    using dir_view_put_entry [OF b k raw iv] cstr_entry [OF name] blk
    by (simp add: create_file_def root_dir_def max_dir_entries_def)
  have span: "j < used_span (root_dir s)"
    if "j < used_span ((root_dir s)[k := (name, int i)])" "j \<noteq> k" for j
    using used_span_put [OF that] k first by simp
  show "names_ok (create_file i k name s)"
    using names_terminated_put_entry [OF b k raw _ iv v(6) [unfolded names_ok_def] span]
    unfolding names_ok_def rd blk by (simp add: create_file_def)
  show "live (create_file i k name s) j \<longleftrightarrow> j = i \<or> live s j"
    using i(1) l(2) by (auto simp: create_file_def live_def nth_list_update)
  show "file_data (create_file i k name s) i = []"
    using i(1) l(1) by (simp add: create_file_def file_data_def new_file_def)
  assume j: "j \<noteq> 0" "live s j"
  then have ji: "j \<noteq> i" using i(2) by (auto simp: live_def)
  obtain c where c: "i_data_block (itab s ! 0) = int c" "root_blk s = c * bsz s"
    using root_block [OF v(1-3)] by blast
  have z: "live s 0" "i_size (itab s ! 0) \<noteq> 0"
    using v(2) tables_ok_bounds(5) [OF v(1)] by (auto simp: root_ok_def)
  have "i_size (itab s ! j) \<noteq> 0 \<Longrightarrow> i_data_block (itab s ! j) \<noteq> int c"
    using blocks_okD [OF v(4) j(2) z(1) j(1) _ z(2)] c(1) by simp
  from file_data_other_block [OF put_entry_root [OF inv k raw, unfolded c(2)] v(3,1) j(2) this]
  show "file_data (create_file i k name s) j = file_data s j"
    using ji c(2) by (simp add: create_file_def file_data_def)
qed

lemma fs_inv_create_file:
  assumes inv: "fs_inv s" and i: "i < n_inodes s" "ifree s ! i = FREE"
    and k: "k < max_dir_entries s" "snd (root_dir s ! k) = -1" and first: "\<forall>j<k. snd (root_dir s ! j) \<noteq> -1"
    and name: "is_cstring name" "length name \<le> 39" "name \<noteq> []"
    and new: "dir_find (root_dir s) name = -1"
  shows "fs_inv (create_file i k name s)"
proof -
  note v = fs_invD [OF inv]
  note l = tables_ok_lengths [OF v(1)]
  note w = create_file_views [OF inv i k(1) first name(1,2)]
  let ?s = "create_file i k name s"
  have i0: "i \<noteq> 0" by (rule free_not_root [OF v(2) i(2)])
  have it: "itab ?s ! j = (if j = i then new_file else itab s ! j)" for j
    using i l(1) by (simp add: create_file_def nth_list_update)
  have fr: "ifree ?s ! j = (if j = i then TAKEN else ifree s ! j)" for j
    using i l(2) by (simp add: create_file_def nth_list_update)
  have same: "bfree ?s = bfree s" "otab ?s = otab s" "ofree ?s = ofree s" "fs_params ?s = fs_params s"
    "max_dir_entries ?s = max_dir_entries s"
    by (simp_all add: create_file_def max_dir_entries_def)
  have tables: "tables_ok ?s"
    using v(1) l root_blk_bound [OF v(1-3)] k(1) by (simp add: create_file_def)
  have nf: "i_node_type new_file = T_FILE" "i_size new_file = 0" by (simp_all add: new_file_def)
  have root: "root_ok ?s" using v(2) i0 w(4) by (simp add: root_ok_def it same)
  have inodes: "inodes_ok ?s" using v(3) by (simp add: inodes_ok_def it fr same nf)
  have blocks: "blocks_ok ?s"
  proof (rule blocks_okI)
    fix a b assume "live ?s a" "live ?s b" "a \<noteq> b" "i_size (itab ?s ! a) \<noteq> 0" "i_size (itab ?s ! b) \<noteq> 0"
    then show "i_data_block (itab ?s ! a) \<noteq> i_data_block (itab ?s ! b)"
      using blocks_okD [OF v(4), of a b] by (cases "a = i"; cases "b = i"; simp add: it nf w(4))
  next
    fix b assume "b < n_blocks ?s" "bfree ?s ! b = TAKEN"
    then obtain m where m: "live s m" "i_size (itab s ! m) \<noteq> 0" "i_data_block (itab s ! m) = int b"
      using blocks_ok_owner [OF v(4)] same by metis
    moreover have "m \<noteq> i" using m(1) i(2) by (auto simp: live_def)
    ultimately show "\<exists>m. live ?s m \<and> i_size (itab ?s ! m) \<noteq> 0 \<and> i_data_block (itab ?s ! m) = int b"
      by (intro exI [of _ m]) (simp add: it w(4))
  qed
  have handles: "handles_ok ?s"
  proof (rule handles_okI)
    fix h assume h: "h < n_files ?s" "ofree ?s ! h = TAKEN"
    then obtain m where m: "of_inumber (otab s ! h) = int m" "m \<noteq> 0" "live s m"
      "unat (of_offset (otab s ! h)) \<le> unat (i_size (itab s ! m))"
      using handles_okD [OF v(7)] same by metis
    moreover have "m \<noteq> i" using m(3) i(2) by (auto simp: live_def)
    ultimately show "\<exists>m. of_inumber (otab ?s ! h) = int m \<and> m \<noteq> 0 \<and> live ?s m
        \<and> unat (of_offset (otab ?s ! h)) \<le> unat (i_size (itab ?s ! m))"
      by (intro exI [of _ m]) (simp add: same it w(4))
  qed
  have rd: "root_dir ?s ! m = (if m = k then (name, int i) else root_dir s ! m)" for m
    using k(1) by (simp add: w(1) nth_list_update)
  have fresh: "snd (root_dir s ! m) \<noteq> int i \<and> fst (root_dir s ! m) \<noteq> name"
    if "m < max_dir_entries s" "snd (root_dir s ! m) \<noteq> -1" for m
  proof
    show "snd (root_dir s ! m) \<noteq> int i" by (rule dir_ok_entry [OF v(5) that]) (use i(2) in \<open>auto simp: live_def\<close>)
    show "fst (root_dir s ! m) \<noteq> name" using dir_find_entry [OF v(5) that] new that(2) by metis
  qed
  have dir: "dir_ok ?s"
    unfolding dir_ok_def same
  proof (intro conjI allI impI)
    fix m assume m: "m < max_dir_entries s" "snd (root_dir ?s ! m) \<noteq> -1"
    show "fst (root_dir ?s ! m) \<noteq> []" "0 < snd (root_dir ?s ! m)"
      "nat (snd (root_dir ?s ! m)) < n_inodes s" "ifree ?s ! nat (snd (root_dir ?s ! m)) = TAKEN"
      using m v(5) i name(3) i0 by (cases "m = k"; simp add: rd fr dir_ok_def)+
  next
    fix m assume m: "m < used_span (root_dir ?s)" "snd (root_dir ?s ! m) = -1"
    then have mk: "m \<noteq> k" by (auto simp: rd)
    then have "m < used_span (root_dir s)"
      using used_span_put [of m "root_dir s" k] m(1) k(1) first by (simp add: w(1))
    then show "fst (root_dir ?s ! m) = []" using v(5) m(2) mk by (simp add: rd dir_ok_def)
  next
    fix m q assume m: "m < max_dir_entries s" "q < max_dir_entries s" "m \<noteq> q"
      "snd (root_dir ?s ! m) \<noteq> -1" "snd (root_dir ?s ! q) \<noteq> -1"
    have "fst (root_dir ?s ! m) \<noteq> fst (root_dir ?s ! q) \<and> snd (root_dir ?s ! m) \<noteq> snd (root_dir ?s ! q)"
    proof (cases "m = k \<or> q = k")
      case True
      then show ?thesis using fresh [OF m(1)] fresh [OF m(2)] m(3-5) unfolding rd by (auto split: if_splits)
    next
      case False
      then show ?thesis using dir_ok_distinct [OF v(5) m(1-3)] m(4,5) unfolding rd by simp
    qed
    then show "fst (root_dir ?s ! m) \<noteq> fst (root_dir ?s ! q)" "snd (root_dir ?s ! m) \<noteq> snd (root_dir ?s ! q)"
      by blast+
  next
    fix j assume j: "j < n_inodes s" "j \<noteq> 0" "ifree ?s ! j = TAKEN"
    show "\<exists>m<max_dir_entries s. snd (root_dir ?s ! m) = int j"
    proof (cases "j = i")
      case True
      then show ?thesis using k(1) by (intro exI [of _ k]) (simp add: rd)
    next
      case False
      then obtain m where "m < max_dir_entries s" "snd (root_dir s ! m) = int j"
        using v(5) j by (auto simp: dir_ok_def fr)
      moreover from this have "m \<noteq> k" using k(2) by auto
      ultimately show ?thesis by (intro exI [of _ m]) (simp add: rd)
    qed
  qed
  show ?thesis
    unfolding fs_inv_def using tables root inodes blocks dir w(2) handles by blast
qed

section \<open>Writing a file\<close>

text \<open>
  Inode \<open>i\<close> owns block \<open>b\<close> after the write (its old one, or a fresh one when it was
  empty), the bytes go to offset \<open>off\<close> of that block, and the size becomes \<open>sz\<close>.
\<close>

definition write_file :: "nat \<Rightarrow> nat \<Rightarrow> nat \<Rightarrow> u8 list \<Rightarrow> size_t \<Rightarrow> fs \<Rightarrow> fs" where
  "write_file i b off bytes sz s = s\<lparr>free_blocks := Some ((bfree s)[b := TAKEN]),
     inode_table := Some ((itab s)[i := (itab s ! i)\<lparr>i_size := sz, i_data_block := int b\<rparr>]),
     fs_data := Some (patch (b * bsz s + off) bytes (fmem s))\<rparr>"

text \<open>Where the block comes from.\<close>

definition write_target :: "fs \<Rightarrow> nat \<Rightarrow> nat \<Rightarrow> bool" where
  "write_target s i b \<longleftrightarrow> b < n_blocks s \<and>
     (if i_size (itab s ! i) = 0 then bfree s ! b = FREE else i_data_block (itab s ! i) = int b)"

lemma write_target_other:
  assumes "fs_inv s" and "live s i" and "write_target s i b" and "live s j" and "j \<noteq> i"
    and "i_size (itab s ! j) \<noteq> 0"
  shows "i_data_block (itab s ! j) \<noteq> int b"
proof (cases "i_size (itab s ! i) = 0")
  case True
  obtain c where "i_data_block (itab s ! j) = int c" "bfree s ! c = TAKEN"
    using inodes_okD(3) [OF fs_invD(3) [OF assms(1)] assms(4,6)] by blast
  moreover have "bfree s ! b = FREE" using assms(3) True by (simp add: write_target_def)
  ultimately show ?thesis by auto
next
  case False
  then show ?thesis
    using blocks_okD [OF fs_invD(4) [OF assms(1)] assms(4,2,5,6)] assms(3) by (simp add: write_target_def)
qed

lemma write_same_outside:
  assumes "tables_ok s" and "b < n_blocks s" and "off + length bytes \<le> bsz s"
  shows "b * bsz s + off + length bytes \<le> length (fmem s)"
    and "same_outside (b * bsz s) (b * bsz s + bsz s) (fmem s) (patch (b * bsz s + off) bytes (fmem s))"
proof -
  show l: "b * bsz s + off + length bytes \<le> length (fmem s)"
    using block_in_data [OF assms(2,3)] tables_ok_lengths(3) [OF assms(1)] by simp
  show "same_outside (b * bsz s) (b * bsz s + bsz s) (fmem s) (patch (b * bsz s + off) bytes (fmem s))"
    using l assms(3) by (intro same_outside_patch) simp_all
qed

lemma region_patch_extend:
  assumes "off \<le> sz" and "p + off + length bs \<le> length xs" and "p + sz \<le> length xs"
  shows "region p (max sz (off + length bs)) (patch (p + off) bs xs) = patch off bs (region p sz xs)"
proof (rule nth_equalityI)
  show "length (region p (max sz (off + length bs)) (patch (p + off) bs xs))
      = length (patch off bs (region p sz xs))"
    using assms by (auto simp: patch_def)
next
  fix k assume "k < length (region p (max sz (off + length bs)) (patch (p + off) bs xs))"
  then have k: "k < max sz (off + length bs)" "p + k < length xs" using assms by auto
  have "patch off bs (region p sz xs) ! k = (if off \<le> k \<and> k < off + length bs then bs ! (k - off) else xs ! (p + k))"
    using k assms by (auto simp: patch_def nth_append region_def)
  then show "region p (max sz (off + length bs)) (patch (p + off) bs xs) ! k = patch off bs (region p sz xs) ! k"
    using k assms by (auto simp: nth_region nth_patch)
qed

lemma write_file_views:
  assumes inv: "fs_inv s" and i: "live s i" "i \<noteq> 0" and b: "write_target s i b"
    and off: "off \<le> unat (i_size (itab s ! i))" "off + length bytes \<le> bsz s"
    and sz: "unat sz = max (unat (i_size (itab s ! i))) (off + length bytes)"
  shows "root_dir (write_file i b off bytes sz s) = root_dir s"
    and "names_ok (write_file i b off bytes sz s)"
    and "live (write_file i b off bytes sz s) j = live s j"
    and "live s j \<Longrightarrow> j \<noteq> i \<Longrightarrow> file_data (write_file i b off bytes sz s) j = file_data s j"
    and "file_data (write_file i b off bytes sz s) i = patch off bytes (file_data s i)"
proof -
  note v = fs_invD [OF inv]
  note l = tables_ok_lengths [OF v(1)]
  have bn: "b < n_blocks s" using b by (simp add: write_target_def)
  note o = write_same_outside [OF v(1) bn off(2)]
  have z: "live s 0" "i_size (itab s ! 0) \<noteq> 0"
    using v(2) tables_ok_bounds(5) [OF v(1)] by (auto simp: root_ok_def)
  obtain c where c: "i_data_block (itab s ! 0) = int c" "root_blk s = c * bsz s"
    using root_block [OF v(1-3)] by blast
  have "b \<noteq> c" using write_target_other [OF inv i(1) b z(1) _ z(2)] c(1) i(2) by auto
  note rd = root_dir_other_block [OF o(2) c(2) this]
  have rb: "root_blk (write_file i b off bytes sz s) = root_blk s"
    using i(2) by (simp add: write_file_def root_blk_def)
  show rdw: "root_dir (write_file i b off bytes sz s) = root_dir s"
    using rd(1) rb by (simp add: write_file_def root_dir_def max_dir_entries_def)
  show "names_ok (write_file i b off bytes sz s)"
    using rd(2) v(6) unfolding names_ok_def [of "write_file i b off bytes sz s"] rdw rb
    by (simp add: write_file_def)
  show "live (write_file i b off bytes sz s) j = live s j"
    by (simp add: write_file_def live_def)
  show "file_data (write_file i b off bytes sz s) j = file_data s j" if j: "live s j" "j \<noteq> i"
    using file_data_other_block [OF o(2) v(3,1) j(1)] write_target_other [OF inv i(1) b j] j(2)
    by (simp add: write_file_def file_data_def)
  have ii: "i < length (itab s)" using i(1) l(1) by (simp add: live_def)
  have old: "file_data s i = region (b * bsz s) (unat (i_size (itab s ! i))) (fmem s)"
    using b by (cases "i_size (itab s ! i) = 0") (simp_all add: file_data_def write_target_def)
  have "b * bsz s + 0 + unat (i_size (itab s ! i)) \<le> length (fmem s)"
    using block_in_data [OF bn, of 0 "unat (i_size (itab s ! i))" "bsz s"] inodes_okD(2) [OF v(3) i(1)] l(3)
    by simp
  then show "file_data (write_file i b off bytes sz s) i = patch off bytes (file_data s i)"
    using region_patch_extend [OF off(1), of "b * bsz s" bytes "fmem s"] o(1) ii sz old
    by (simp add: write_file_def file_data_def)
qed

lemma fs_inv_write_file:
  assumes inv: "fs_inv s" and i: "live s i" "i \<noteq> 0" and b: "write_target s i b"
    and off: "off \<le> unat (i_size (itab s ! i))" "off + length bytes \<le> bsz s"
    and sz: "unat sz = max (unat (i_size (itab s ! i))) (off + length bytes)" "bytes \<noteq> []"
  shows "fs_inv (write_file i b off bytes sz s)"
proof -
  note v = fs_invD [OF inv]
  note l = tables_ok_lengths [OF v(1)]
  note w = write_file_views [OF inv i b off sz(1)]
  let ?s = "write_file i b off bytes sz s"
  let ?x = "(itab s ! i)\<lparr>i_size := sz, i_data_block := int b\<rparr>"
  have bn: "b < n_blocks s" using b by (simp add: write_target_def)
  have it: "itab ?s ! j = (if j = i then ?x else itab s ! j)" for j
    using i(1) l(1) by (simp add: write_file_def nth_list_update live_def)
  have bf: "bfree ?s ! c = (if c = b then TAKEN else bfree s ! c)" for c
    using bn l(4) by (simp add: write_file_def nth_list_update)
  have same: "ifree ?s = ifree s" "otab ?s = otab s" "ofree ?s = ofree s" "fs_params ?s = fs_params s"
    "max_dir_entries ?s = max_dir_entries s"
    by (simp_all add: write_file_def max_dir_entries_def)
  have sz0: "sz \<noteq> 0" using sz by (auto simp flip: unat_eq_0)
  have szle: "unat sz \<le> bsz s" using sz(1) off(2) inodes_okD(2) [OF v(3) i(1)] by simp
  note other = write_target_other [OF inv i(1) b]
  have tables: "tables_ok ?s"
    using v(1) l write_same_outside(1) [OF v(1) bn off(2)] by (simp add: write_file_def)
  have root: "root_ok ?s" using v(2) i(2) w(3) by (simp add: root_ok_def it same)
  have inodes: "inodes_ok ?s"
  proof (rule inodes_okI)
    fix j assume "live ?s j"
    then have j: "live s j" using w(3) by simp
    show "j \<noteq> 0 \<Longrightarrow> i_node_type (itab ?s ! j) = T_FILE" using inodes_okD(1) [OF v(3) j] by (auto simp: it)
    show "unat (i_size (itab ?s ! j)) \<le> bsz ?s" using inodes_okD(2) [OF v(3) j] szle by (auto simp: it same)
    show "\<exists>c. i_data_block (itab ?s ! j) = int c \<and> c < n_blocks ?s \<and> bfree ?s ! c = TAKEN"
      if "i_size (itab ?s ! j) \<noteq> 0"
    proof (cases "j = i")
      case True
      then show ?thesis using bn by (intro exI [of _ b]) (simp add: it bf same)
    next
      case False
      then show ?thesis using inodes_okD(3) [OF v(3) j] that by (auto simp: it bf same)
    qed
  qed
  have blocks: "blocks_ok ?s"
  proof (rule blocks_okI)
    fix p q assume pq: "live ?s p" "live ?s q" "p \<noteq> q" "i_size (itab ?s ! p) \<noteq> 0" "i_size (itab ?s ! q) \<noteq> 0"
    then have "live s p" "live s q" using w(3) by simp_all
    then show "i_data_block (itab ?s ! p) \<noteq> i_data_block (itab ?s ! q)"
      using pq(3-5) blocks_okD [OF v(4), of p q] other [of p] other [of q]
      by (cases "p = i"; cases "q = i") (auto simp: it)
  next
    fix c assume c: "c < n_blocks ?s" "bfree ?s ! c = TAKEN"
    show "\<exists>m. live ?s m \<and> i_size (itab ?s ! m) \<noteq> 0 \<and> i_data_block (itab ?s ! m) = int c"
    proof (cases "c = b")
      case True
      then show ?thesis using i(1) w(3) sz0 by (intro exI [of _ i]) (simp add: it)
    next
      case False
      then obtain m where m: "live s m" "i_size (itab s ! m) \<noteq> 0" "i_data_block (itab s ! m) = int c"
        using blocks_ok_owner [OF v(4)] c same bf by metis
      moreover have "m \<noteq> i" using m False b by (auto simp: write_target_def)
      ultimately show ?thesis using w(3) by (intro exI [of _ m]) (simp add: it)
    qed
  qed
  have dir: "dir_ok ?s" using v(5) w(1) by (simp add: dir_ok_def same)
  have handles: "handles_ok ?s"
  proof (rule handles_okI)
    fix h assume h: "h < n_files ?s" "ofree ?s ! h = TAKEN"
    then obtain m where "of_inumber (otab s ! h) = int m" "m \<noteq> 0" "live s m"
      "unat (of_offset (otab s ! h)) \<le> unat (i_size (itab s ! m))"
      using handles_okD [OF v(7)] same by metis
    then show "\<exists>m. of_inumber (otab ?s ! h) = int m \<and> m \<noteq> 0 \<and> live ?s m
        \<and> unat (of_offset (otab ?s ! h)) \<le> unat (i_size (itab ?s ! m))"
      using w(3) sz(1) by (intro exI [of _ m]) (auto simp: same it)
  qed
  show ?thesis
    unfolding fs_inv_def using tables root inodes blocks dir w(2) handles by blast
qed

section \<open>Truncating and deleting a file\<close>

text \<open>The block of inode \<open>i\<close>, if it has one, is marked free.\<close>

definition drop_block :: "nat \<Rightarrow> fs \<Rightarrow> allocation_state_t list" where
  "drop_block i s = (if i_size (itab s ! i) = 0 then bfree s
     else (bfree s)[nat (i_data_block (itab s ! i)) := FREE])"

definition truncate_file :: "nat \<Rightarrow> fs \<Rightarrow> fs" where
  "truncate_file i s = s\<lparr>free_blocks := Some (drop_block i s),
     inode_table := Some ((itab s)[i := (itab s ! i)\<lparr>i_size := 0\<rparr>])\<rparr>"

definition delete_file :: "nat \<Rightarrow> nat \<Rightarrow> fs \<Rightarrow> fs" where
  "delete_file i k s = s\<lparr>free_blocks := Some (drop_block i s),
     freeinode_ts := Some ((ifree s)[i := FREE]),
     fs_data := Some (put_entry (fmem s) (root_blk s) k (replicate 40 0) (-1))\<rparr>"

lemma length_drop_block [simp]: "length (drop_block i s) = length (bfree s)"
  by (simp add: drop_block_def)

lemma drop_block_taken:
  "drop_block i s ! c = TAKEN \<Longrightarrow> bfree s ! c = TAKEN"
  by (auto simp: drop_block_def nth_list_update split: if_splits)
    (metis allocation_state_t.distinct(1) list_update_beyond not_le_imp_less nth_list_update)

text \<open>What the other files own stays taken, and only that and the root's block.\<close>

lemma drop_block_other:
  assumes "fs_inv s" and "live s i" and "live s j" and "j \<noteq> i" and "i_size (itab s ! j) \<noteq> 0"
  shows "\<exists>c. i_data_block (itab s ! j) = int c \<and> c < n_blocks s \<and> drop_block i s ! c = TAKEN"
proof -
  note v = fs_invD [OF assms(1)]
  obtain c where c: "i_data_block (itab s ! j) = int c" "c < n_blocks s" "bfree s ! c = TAKEN"
    using inodes_okD(3) [OF v(3) assms(3,5)] by blast
  have "drop_block i s ! c = TAKEN"
  proof (cases "i_size (itab s ! i) = 0")
    case True
    then show ?thesis using c(3) by (simp add: drop_block_def)
  next
    case False
    from blocks_okD [OF v(4) assms(2,3) assms(4) [symmetric] False assms(5)] c(1)
    have "nat (i_data_block (itab s ! i)) \<noteq> c"
      using inodes_okD(3) [OF v(3) assms(2) False] by auto
    then show ?thesis using c(3) False by (simp add: drop_block_def)
  qed
  with c show ?thesis by blast
qed

lemma drop_block_owner:
  assumes "fs_inv s" and "live s i" and "c < n_blocks s" and "drop_block i s ! c = TAKEN"
  obtains m where "live s m" and "m \<noteq> i" and "i_size (itab s ! m) \<noteq> 0" and "i_data_block (itab s ! m) = int c"
proof -
  note v = fs_invD [OF assms(1)]
  obtain m where m: "live s m" "i_size (itab s ! m) \<noteq> 0" "i_data_block (itab s ! m) = int c"
    using blocks_ok_owner [OF v(4) assms(3) drop_block_taken [OF assms(4)]] by blast
  moreover have "m \<noteq> i"
  proof
    assume "m = i"
    with m assms(3,4) tables_ok_lengths(4) [OF v(1)] show False by (simp add: drop_block_def)
  qed
  ultimately show thesis by (intro that)
qed

text \<open>No handle is open on inode \<open>i\<close>.\<close>

definition not_open :: "fs \<Rightarrow> nat \<Rightarrow> bool" where
  "not_open s i \<longleftrightarrow> (\<forall>h<n_files s. ofree s ! h = TAKEN \<longrightarrow> of_inumber (otab s ! h) \<noteq> int i)"

text \<open>Every handle open on inode \<open>i\<close> is at the start of the file.\<close>

definition rewound :: "fs \<Rightarrow> nat \<Rightarrow> bool" where
  "rewound s i \<longleftrightarrow> (\<forall>h<n_files s. ofree s ! h = TAKEN \<longrightarrow> of_inumber (otab s ! h) = int i \<longrightarrow>
     of_offset (otab s ! h) = 0)"

lemma not_open_rewound: "not_open s i \<Longrightarrow> rewound s i"
  by (simp add: not_open_def rewound_def)

lemma truncate_file_views:
  assumes "fs_inv s" and "live s i" and "i \<noteq> 0"
  shows "root_dir (truncate_file i s) = root_dir s"
    and "live (truncate_file i s) j = live s j"
    and "j \<noteq> i \<Longrightarrow> file_data (truncate_file i s) j = file_data s j"
    and "file_data (truncate_file i s) i = []"
  using assms(2,3) tables_ok_lengths [OF fs_invD(1) [OF assms(1)]]
  by (simp_all add: truncate_file_def root_dir_def root_blk_def live_def file_data_def max_dir_entries_def)

lemma fs_inv_truncate_file:
  assumes inv: "fs_inv s" and i: "live s i" "i \<noteq> 0" and closed: "rewound s i"
  shows "fs_inv (truncate_file i s)"
proof -
  note v = fs_invD [OF inv]
  note l = tables_ok_lengths [OF v(1)]
  note w = truncate_file_views [OF inv i]
  let ?s = "truncate_file i s"
  have it: "itab ?s ! j = (if j = i then (itab s ! i)\<lparr>i_size := 0\<rparr> else itab s ! j)" for j
    using i(1) l(1) by (simp add: truncate_file_def nth_list_update live_def)
  have same: "ifree ?s = ifree s" "otab ?s = otab s" "ofree ?s = ofree s" "fs_params ?s = fs_params s"
    "max_dir_entries ?s = max_dir_entries s" "bfree ?s = drop_block i s"
    by (simp_all add: truncate_file_def max_dir_entries_def)
  have tables: "tables_ok ?s" using v(1) l by (simp add: truncate_file_def)
  have root: "root_ok ?s" using v(2) i(2) w(2) by (simp add: root_ok_def it same)
  have inodes: "inodes_ok ?s"
  proof (rule inodes_okI)
    fix j assume "live ?s j"
    then have j: "live s j" using w(2) by simp
    show "j \<noteq> 0 \<Longrightarrow> i_node_type (itab ?s ! j) = T_FILE" using inodes_okD(1) [OF v(3) j] by (auto simp: it)
    show "unat (i_size (itab ?s ! j)) \<le> bsz ?s" using inodes_okD(2) [OF v(3) j] by (auto simp: it same)
    show "\<exists>c. i_data_block (itab ?s ! j) = int c \<and> c < n_blocks ?s \<and> bfree ?s ! c = TAKEN"
      if "i_size (itab ?s ! j) \<noteq> 0"
      using that drop_block_other [OF inv i(1) j] by (cases "j = i") (auto simp: it same)
  qed
  have blocks: "blocks_ok ?s"
  proof (rule blocks_okI)
    fix p q assume pq: "live ?s p" "live ?s q" "p \<noteq> q" "i_size (itab ?s ! p) \<noteq> 0" "i_size (itab ?s ! q) \<noteq> 0"
    then show "i_data_block (itab ?s ! p) \<noteq> i_data_block (itab ?s ! q)"
      using blocks_okD [OF v(4), of p q] w(2) by (cases "p = i"; cases "q = i") (auto simp: it)
  next
    fix c assume "c < n_blocks ?s" "bfree ?s ! c = TAKEN"
    then obtain m where "live s m" "m \<noteq> i" "i_size (itab s ! m) \<noteq> 0" "i_data_block (itab s ! m) = int c"
      using drop_block_owner [OF inv i(1)] same by metis
    then show "\<exists>m. live ?s m \<and> i_size (itab ?s ! m) \<noteq> 0 \<and> i_data_block (itab ?s ! m) = int c"
      using w(2) by (intro exI [of _ m]) (simp add: it)
  qed
  have dir: "dir_ok ?s" using v(5) w(1) by (simp add: dir_ok_def same)
  have names: "names_ok ?s"
    using v(6) i(2) unfolding names_ok_def w(1) by (simp add: truncate_file_def root_blk_def)
  have handles: "handles_ok ?s"
  proof (rule handles_okI)
    fix h assume h: "h < n_files ?s" "ofree ?s ! h = TAKEN"
    then obtain m where "of_inumber (otab s ! h) = int m" "m \<noteq> 0" "live s m"
      "unat (of_offset (otab s ! h)) \<le> unat (i_size (itab s ! m))"
      using handles_okD [OF v(7)] same by metis
    moreover from this have "m = i \<Longrightarrow> of_offset (otab s ! h) = 0"
      using closed h same by (auto simp: rewound_def)
    ultimately show "\<exists>m. of_inumber (otab ?s ! h) = int m \<and> m \<noteq> 0 \<and> live ?s m
        \<and> unat (of_offset (otab ?s ! h)) \<le> unat (i_size (itab ?s ! m))"
      using w(2) by (intro exI [of _ m]) (auto simp: same it)
  qed
  show ?thesis
    unfolding fs_inv_def using tables root inodes blocks dir names handles by blast
qed

lemma delete_file_views:
  assumes inv: "fs_inv s" and i: "live s i" "i \<noteq> 0" and k: "k < max_dir_entries s"
  shows "root_dir (delete_file i k s) = (root_dir s)[k := ([], -1)]"
    and "names_ok (delete_file i k s)"
    and "live (delete_file i k s) j \<longleftrightarrow> live s j \<and> j \<noteq> i"
    and "j \<noteq> 0 \<Longrightarrow> live s j \<Longrightarrow> file_data (delete_file i k s) j = file_data s j"
proof -
  note v = fs_invD [OF inv]
  note l = tables_ok_lengths [OF v(1)]
  note b = root_blk_bound [OF v(1-3)]
  have raw: "length (replicate 40 (0::u8)) = 40" by simp
  have zero: "(0::u8) \<in> set (replicate 40 0)" by (simp add: in_set_replicate)
  have c0: "cstr (replicate 40 0) = []" by (simp add: cstr_def)
  have rb: "root_blk (delete_file i k s) = root_blk s"
    by (simp add: delete_file_def root_blk_def)
  show rd: "root_dir (delete_file i k s) = (root_dir s)[k := ([], -1)]"
    using dir_view_put_entry [OF b k raw, of "-1"] rb c0
    by (simp add: delete_file_def root_dir_def max_dir_entries_def)
  show "names_ok (delete_file i k s)"
    using names_terminated_put_entry [OF b k raw zero _ _ v(6) [unfolded names_ok_def] used_span_clear, of "-1"]
    unfolding names_ok_def rd rb by (simp add: delete_file_def)
  show "live (delete_file i k s) j \<longleftrightarrow> live s j \<and> j \<noteq> i"
    using i(1) l(2) by (auto simp: delete_file_def live_def nth_list_update)
  assume j: "j \<noteq> 0" "live s j"
  obtain c where c: "i_data_block (itab s ! 0) = int c" "root_blk s = c * bsz s"
    using root_block [OF v(1-3)] by blast
  have z: "live s 0" "i_size (itab s ! 0) \<noteq> 0"
    using v(2) tables_ok_bounds(5) [OF v(1)] by (auto simp: root_ok_def)
  have "i_size (itab s ! j) \<noteq> 0 \<Longrightarrow> i_data_block (itab s ! j) \<noteq> int c"
    using blocks_okD [OF v(4) j(2) z(1) j(1) _ z(2)] c(1) by simp
  from file_data_other_block [OF put_entry_root [OF inv k raw, unfolded c(2)] v(3,1) j(2) this]
  show "file_data (delete_file i k s) j = file_data s j"
    using c(2) by (simp add: delete_file_def file_data_def)
qed

lemma fs_inv_delete_file:
  assumes inv: "fs_inv s" and i: "live s i" "i \<noteq> 0" and k: "k < max_dir_entries s"
    and entry: "snd (root_dir s ! k) = int i" and closed: "not_open s i"
  shows "fs_inv (delete_file i k s)"
proof -
  note v = fs_invD [OF inv]
  note l = tables_ok_lengths [OF v(1)]
  note w = delete_file_views [OF inv i k]
  let ?s = "delete_file i k s"
  have same: "itab ?s = itab s" "otab ?s = otab s" "ofree ?s = ofree s" "fs_params ?s = fs_params s"
    "max_dir_entries ?s = max_dir_entries s" "bfree ?s = drop_block i s"
    by (simp_all add: delete_file_def max_dir_entries_def)
  have fr: "ifree ?s ! j = (if j = i then FREE else ifree s ! j)" for j
    using i(1) l(2) by (simp add: delete_file_def nth_list_update live_def)
  have tables: "tables_ok ?s" using v(1) l root_blk_bound [OF v(1-3)] k by (simp add: delete_file_def)
  have root: "root_ok ?s" using v(2) i(2) w(3) by (simp add: root_ok_def same)
  have inodes: "inodes_ok ?s"
  proof (rule inodes_okI)
    fix j assume "live ?s j"
    then have j: "live s j" "j \<noteq> i" using w(3) by simp_all
    show "j \<noteq> 0 \<Longrightarrow> i_node_type (itab ?s ! j) = T_FILE" using inodes_okD(1) [OF v(3) j(1)] by (simp add: same)
    show "unat (i_size (itab ?s ! j)) \<le> bsz ?s" using inodes_okD(2) [OF v(3) j(1)] by (simp add: same)
    show "\<exists>c. i_data_block (itab ?s ! j) = int c \<and> c < n_blocks ?s \<and> bfree ?s ! c = TAKEN"
      if "i_size (itab ?s ! j) \<noteq> 0"
      using that drop_block_other [OF inv i(1) j] by (simp add: same)
  qed
  have blocks: "blocks_ok ?s"
  proof (rule blocks_okI)
    fix p q assume "live ?s p" "live ?s q" "p \<noteq> q" "i_size (itab ?s ! p) \<noteq> 0" "i_size (itab ?s ! q) \<noteq> 0"
    then show "i_data_block (itab ?s ! p) \<noteq> i_data_block (itab ?s ! q)"
      using blocks_okD [OF v(4), of p q] w(3) by (simp add: same)
  next
    fix c assume "c < n_blocks ?s" "bfree ?s ! c = TAKEN"
    then obtain m where "live s m" "m \<noteq> i" "i_size (itab s ! m) \<noteq> 0" "i_data_block (itab s ! m) = int c"
      using drop_block_owner [OF inv i(1)] same by metis
    then show "\<exists>m. live ?s m \<and> i_size (itab ?s ! m) \<noteq> 0 \<and> i_data_block (itab ?s ! m) = int c"
      using w(3) by (intro exI [of _ m]) (simp add: same)
  qed
  have rd: "root_dir ?s ! m = (if m = k then ([], -1) else root_dir s ! m)" for m
    using k by (simp add: w(1) nth_list_update)
  have kused: "snd (root_dir s ! k) \<noteq> -1" using entry by simp
  have dir: "dir_ok ?s"
    unfolding dir_ok_def same
  proof (intro conjI allI impI)
    fix m assume m: "m < max_dir_entries s" "snd (root_dir ?s ! m) \<noteq> -1"
    then have mk: "m \<noteq> k" "snd (root_dir s ! m) \<noteq> -1" by (auto simp: rd split: if_splits)
    obtain j where j: "snd (root_dir s ! m) = int j" "j \<noteq> 0" "live s j" "fst (root_dir s ! m) \<noteq> []"
      using dir_ok_entry [OF v(5) m(1) mk(2)] by blast
    have "j \<noteq> i" using dir_ok_distinct [OF v(5) m(1) k mk(1) mk(2) kused] entry j(1) by auto
    then show "fst (root_dir ?s ! m) \<noteq> []" "0 < snd (root_dir ?s ! m)"
      "nat (snd (root_dir ?s ! m)) < n_inodes s" "ifree ?s ! nat (snd (root_dir ?s ! m)) = TAKEN"
      using mk(1) j by (simp_all add: rd fr live_def)
  next
    fix m assume m: "m < used_span (root_dir ?s)" "snd (root_dir ?s ! m) = -1"
    then have "m < used_span (root_dir s)" using used_span_clear by (simp add: w(1))
    then show "fst (root_dir ?s ! m) = []" using v(5) m(2) by (cases "m = k"; simp add: rd dir_ok_def)
  next
    fix m q assume m: "m < max_dir_entries s" "q < max_dir_entries s" "m \<noteq> q"
      "snd (root_dir ?s ! m) \<noteq> -1" "snd (root_dir ?s ! q) \<noteq> -1"
    then have "m \<noteq> k" "q \<noteq> k" by (auto simp: rd)
    then show "fst (root_dir ?s ! m) \<noteq> fst (root_dir ?s ! q)" "snd (root_dir ?s ! m) \<noteq> snd (root_dir ?s ! q)"
      using dir_ok_distinct [OF v(5) m(1-3)] m(4,5) unfolding rd by simp_all
  next
    fix j assume j: "j < n_inodes s" "j \<noteq> 0" "ifree ?s ! j = TAKEN"
    then have ji: "j \<noteq> i" "ifree s ! j = TAKEN" by (auto simp: fr split: if_splits)
    obtain m where m: "m < max_dir_entries s" "snd (root_dir s ! m) = int j"
      using v(5) j(1,2) ji(2) unfolding dir_ok_def by blast
    moreover have "m \<noteq> k" using m(2) entry ji(1) by auto
    ultimately show "\<exists>m<max_dir_entries s. snd (root_dir ?s ! m) = int j"
      by (intro exI [of _ m]) (simp add: rd)
  qed
  have handles: "handles_ok ?s"
  proof (rule handles_okI)
    fix h assume h: "h < n_files ?s" "ofree ?s ! h = TAKEN"
    then obtain m where "of_inumber (otab s ! h) = int m" "m \<noteq> 0" "live s m"
      "unat (of_offset (otab s ! h)) \<le> unat (i_size (itab s ! m))"
      using handles_okD [OF v(7)] same by metis
    moreover from this have "m \<noteq> i" using closed h same by (auto simp: not_open_def)
    ultimately show "\<exists>m. of_inumber (otab ?s ! h) = int m \<and> m \<noteq> 0 \<and> live ?s m
        \<and> unat (of_offset (otab ?s ! h)) \<le> unat (i_size (itab ?s ! m))"
      using w(3) by (intro exI [of _ m]) (auto simp: same)
  qed
  show ?thesis
    unfolding fs_inv_def using tables root inodes blocks dir w(2) handles by blast
qed

end
