(* ===== verification/Tfs_Exec.thy ===== *)
theory Tfs_Exec
  imports Tfs_Keep
begin

text \<open>
  Each operation of \<open>operations.c\<close> run on a state that satisfies the invariant: the value
  it returns and the update it performs, with every branch written out. The equations
  show at the same time that no run aborts or is undefined.
\<close>

section \<open>Open\<close>

text \<open>The end of \<open>tfs_open\<close>: the first free handle, if there is one.\<close>

definition open_handle :: "nat \<Rightarrow> size_t \<Rightarrow> fs \<Rightarrow> int \<times> fs" where
  "open_handle i off s =
     (case first_free (ofree s) of None \<Rightarrow> (-1, s) | Some h \<Rightarrow> (int h, add_handle h i off s))"

lemma add_to_open_file_table_handle:
  "tables_ok s \<Longrightarrow> add_to_open_file_table (int i) off s = Inr (open_handle i off s)"
  by (simp add: add_to_open_file_table_eq open_handle_def add_handle_def split: option.splits)

definition truncated :: "u32 \<Rightarrow> nat \<Rightarrow> fs \<Rightarrow> fs" where
  "truncated mode i s =
     (if mode AND TFS_O_TRUNC \<noteq> 0 \<and> i_size (itab s ! i) \<noteq> 0 then truncate_file i s else s)"

lemma open_existing_eq:
  assumes "fs_inv s" and "live s i"
  shows "open_existing (int i) mode s =
    Inr (if mode AND TFS_O_APPEND \<noteq> 0 then i_size (itab (truncated mode i s) ! i) else 0, truncated mode i s)"
proof -
  note v = fs_invD [OF assms(1)]
  note l = tables_ok_lengths [OF v(1)]
  have i: "i < n_inodes s" using assms(2) by (simp add: live_def)
  have "(if mode AND TFS_O_TRUNC \<noteq> 0 \<and> i_size (itab s ! i) > 0
         then bindE (data_block_free (i_data_block (itab s ! i)) s) (upd_inode i (\<lambda>x. x\<lparr>i_size := 0\<rparr>))
         else Inr s) = Inr (truncated mode i s)"
  proof (cases "mode AND TFS_O_TRUNC \<noteq> 0 \<and> i_size (itab s ! i) \<noteq> 0")
    case True
    then obtain b where b: "i_data_block (itab s ! i) = int b" "b < n_blocks s"
      using inodes_okD(3) [OF v(3) assms(2)] by blast
    then show ?thesis
      using True v(1) i l
      by (auto simp: data_block_free_eq upd_inode_eq truncated_def truncate_file_def drop_block_def word_neq_0_conv)
  next
    case False
    then show ?thesis by (auto simp: truncated_def word_neq_0_conv)
  qed
  moreover have "aget (inode_table (truncated mode i s)) i = Inr (itab (truncated mode i s) ! i)"
    using v(1) i l by (auto simp: truncated_def truncate_file_def aget_tables)
  ultimately show ?thesis
    using v(1) i by (simp add: open_existing_def inode_get_eq aget_tables)
qed

lemma valid_path_iff: "valid_pathname (Some path) \<longleftrightarrow> (\<exists>name. path = 47 # name \<and> name \<noteq> [])"
  by (cases path) (auto simp: valid_pathname_def)

text \<open>
  A file that could not be entered in the directory: its inode is free again, only the
  fields of the free inode have changed.
\<close>

definition scratch_inode :: "nat \<Rightarrow> fs \<Rightarrow> fs" where
  "scratch_inode i s = s\<lparr>inode_table := Some ((itab s)[i := new_file])\<rparr>"

lemma fs_inv_cong:
  assumes "fs_inv s" and "fs_params t = fs_params s" and "length (itab t) = length (itab s)" and "inode_table t \<noteq> None"
    and "\<And>i. live s i \<Longrightarrow> itab t ! i = itab s ! i"
    and "freeinode_ts t = freeinode_ts s" and "fs_data t = fs_data s" and "free_blocks t = free_blocks s"
    and "open_file_table t = open_file_table s" and "free_open_file_entries t = free_open_file_entries s"
  shows "fs_inv t" and "root_dir t = root_dir s" and "live t i = live s i"
    and "live s i \<Longrightarrow> file_data t i = file_data s i"
proof -
  note v = fs_invD [OF assms(1)]
  have lv: "live t i = live s i" for i using assms by (simp add: live_def)
  have i0: "itab t ! 0 = itab s ! 0" using v(2) assms(5) by (simp add: root_ok_def)
  have m: "max_dir_entries t = max_dir_entries s" using assms by (simp add: max_dir_entries_def)
  have rb: "root_blk t = root_blk s" using assms i0 by (simp add: root_blk_def)
  show rd: "root_dir t = root_dir s" using assms rb m by (simp add: root_dir_def)
  show "live t i = live s i" by (rule lv)
  show "live s i \<Longrightarrow> file_data t i = file_data s i" using assms by (simp add: file_data_def)
  have "tables_ok t" using v(1) assms by (simp add: tables_ok_def)
  moreover have "root_ok t" using v(2) lv i0 assms by (simp add: root_ok_def)
  moreover have "inodes_ok t" using inodes_okD [OF v(3)] lv assms by (intro inodes_okI) simp_all
  moreover have "blocks_ok t"
  proof (rule blocks_okI)
    show "i_data_block (itab t ! i) \<noteq> i_data_block (itab t ! j)"
      if "live t i" "live t j" "i \<noteq> j" "i_size (itab t ! i) \<noteq> 0" "i_size (itab t ! j) \<noteq> 0" for i j
      using that blocks_okD [OF v(4), of i j] lv assms(5) by simp
    show "\<exists>i. live t i \<and> i_size (itab t ! i) \<noteq> 0 \<and> i_data_block (itab t ! i) = int b"
      if "b < n_blocks t" "bfree t ! b = TAKEN" for b
      using that blocks_ok_owner [OF v(4), of b] lv assms(2,5,8) by metis
  qed
  moreover have "dir_ok t" using v(5) rd m assms by (simp add: dir_ok_def)
  moreover have "names_ok t" using v(6) rd rb assms by (simp add: names_ok_def)
  moreover have "handles_ok t"
  proof (rule handles_okI)
    fix h assume "h < n_files t" "ofree t ! h = TAKEN"
    then obtain i where "of_inumber (otab s ! h) = int i" "i \<noteq> 0" "live s i"
      "unat (of_offset (otab s ! h)) \<le> unat (i_size (itab s ! i))"
      using handles_okD [OF v(7)] assms by metis
    then show "\<exists>i. of_inumber (otab t ! h) = int i \<and> i \<noteq> 0 \<and> live t i
        \<and> unat (of_offset (otab t ! h)) \<le> unat (i_size (itab t ! i))"
      using lv assms by (intro exI [of _ i]) simp
  qed
  ultimately show "fs_inv t" by (simp add: fs_inv_def)
qed

lemma scratch_inode_same:
  assumes "fs_inv s" and "ifree s ! j = FREE"
  shows "fs_inv (scratch_inode j s)" and "root_dir (scratch_inode j s) = root_dir s"
    and "live (scratch_inode j s) i = live s i"
    and "live s i \<Longrightarrow> file_data (scratch_inode j s) i = file_data s i"
proof -
  have "itab (scratch_inode j s) ! i = itab s ! i" if "live s i" for i
    using that assms(2) by (cases "i = j") (auto simp: scratch_inode_def live_def)
  then show "fs_inv (scratch_inode j s)" "root_dir (scratch_inode j s) = root_dir s"
    "live (scratch_inode j s) i = live s i"
    "live s i \<Longrightarrow> file_data (scratch_inode j s) i = file_data s i"
    using fs_inv_cong [OF assms(1), of "scratch_inode j s"] by (simp_all add: scratch_inode_def)
qed

text \<open>The branch of \<open>tfs_open\<close> that creates a file.\<close>

definition open_new :: "cstring \<Rightarrow> fs \<Rightarrow> int \<times> fs" where
  "open_new name s =
     (case first_free (ifree s) of
        None \<Rightarrow> (-1, s)
      | Some i \<Rightarrow>
          if length name > 39 then (-1, scratch_inode i s)
          else case dir_index (\<lambda>e. snd e = -1) (root_dir s) of
            None \<Rightarrow> (-1, scratch_inode i s)
          | Some k \<Rightarrow> open_handle i 0 (create_file i k name s))"

lemma open_new_eq:
  assumes inv: "fs_inv s" and name: "name \<noteq> []" "is_cstring name"
  shows "bindE (inode_create T_FILE s) (\<lambda>(inum, s).
      if inum = -1 then Inr (-1, s)
      else bindE (add_dir_entry 0 name inum s) (\<lambda>(r, s).
        if r = -1 then bindE (inode_delete inum s) (\<lambda>s. Inr (-1, s))
        else add_to_open_file_table inum 0 s)) = Inr (open_new name s)"
proof (cases "first_free (ifree s)")
  case None
  then show ?thesis using fs_invD(1) [OF inv] by (simp add: inode_create_file_eq open_new_def)
next
  case (Some i)
  note v = fs_invD [OF inv]
  note l = tables_ok_lengths [OF v(1)]
  have i: "i < n_inodes s" "ifree s ! i = FREE" using first_free_SomeD [OF Some] l(2) by auto
  have i0: "i \<noteq> 0" by (rule free_not_root [OF v(2) i(2)])
  let ?t = "s\<lparr>freeinode_ts := Some ((ifree s)[i := TAKEN]), inode_table := Some ((itab s)[i := new_file])\<rparr>"
  have tables: "tables_ok ?t" using v(1) l by simp
  have lv: "live ?t j \<longleftrightarrow> j = i \<or> live s j" for j using i l(2) by (auto simp: live_def nth_list_update)
  have root: "root_ok ?t" using v(2) i0 lv by (simp add: root_ok_def)
  have inodes: "inodes_ok ?t"
    using inodes_okD [OF v(3)] i(1) l(1) lv
    by (intro inodes_okI) (auto simp: nth_list_update new_file_def)
  have rb: "root_blk ?t = root_blk s" using i0 by (simp add: root_blk_def)
  have rd: "root_dir ?t = root_dir s" unfolding root_dir_def rb by (simp add: max_dir_entries_def)
  have del: "inode_delete (int i) ?t = Inr (scratch_inode i s)"
  proof -
    have "inode_delete (int i) ?t = Inr (?t\<lparr>free_blocks := Some (bfree s), freeinode_ts := Some ((ifree s)[i := FREE])\<rparr>)"
      using inode_delete_eq [OF tables, of i] i l by (simp add: new_file_def)
    moreover have "(ifree s)[i := FREE] = ifree s" using i(2) by (metis list_update_id)
    moreover have "Some (ifree s) = freeinode_ts s" "Some (bfree s) = free_blocks s"
      using tables_okD [OF v(1)] by metis+
    ultimately show ?thesis by (simp add: scratch_inode_def)
  qed
  have add: "add_dir_entry 0 name (int i) ?t =
    (if length name > 39 then Inr (-1, ?t)
     else case dir_index (\<lambda>e. snd e = -1) (root_dir s) of
       None \<Rightarrow> Inr (-1, ?t)
     | Some k \<Rightarrow> Inr (0, create_file i k name s))"
    using add_dir_entry_root [OF tables root inodes name(1), of "int i"] rb rd
    by (simp add: create_file_def split: option.splits)
  have open_it: "add_to_open_file_table (int i) 0 (create_file i k name s) = Inr (open_handle i 0 (create_file i k name s))"
    if "k < max_dir_entries s" for k
    using v(1) l root_blk_bound [OF v(1-3)] that
    by (intro add_to_open_file_table_handle) (simp add: create_file_def)
  show ?thesis
    using dir_index_SomeD [of _ "root_dir s"] open_it v(1)
    by (auto simp: inode_create_file_eq Some add del open_new_def split: option.splits)
qed

definition open_result :: "cstring \<Rightarrow> u32 \<Rightarrow> fs \<Rightarrow> int \<times> fs" where
  "open_result name mode s =
     (let v = dir_find (root_dir s) name; i = nat v; t = truncated mode i s in
      if v \<noteq> -1 then open_handle i (if mode AND TFS_O_APPEND \<noteq> 0 then i_size (itab t ! i) else 0) t
      else if mode AND TFS_O_CREAT \<noteq> 0 then open_new name s
      else (-1, s))"

lemma tables_ok_truncated: "tables_ok s \<Longrightarrow> tables_ok (truncated mode i s)"
  using tables_ok_lengths [of s] by (simp add: truncated_def truncate_file_def)

lemma tfs_open_body_eq:
  assumes inv: "fs_inv s" and name: "name \<noteq> []" "is_cstring name"
  shows "tfs_open_body (Some (47 # name)) mode s = Inr (open_result name mode s)"
proof -
  note v = fs_invD [OF inv]
  have valid: "valid_pathname (Some (47 # name))" using name(1) by (simp add: valid_path_iff)
  have root: "inode_get 0 s = Inr 0"
    using v(2) inode_get_eq [of 0 s] by (simp add: root_ok_def live_def)
  have look: "tfs_lookup (Some (47 # name)) 0 s = Inr (dir_find (root_dir s) name)"
    by (simp add: tfs_lookup_def valid find_in_root [OF inv name(2)])
  show ?thesis
  proof (cases "dir_find (root_dir s) name = -1")
    case True
    then show ?thesis
      using open_new_eq [OF assms]
      by (simp add: tfs_open_body_def valid root look open_result_def cong: if_cong)
  next
    case False
    then obtain i where i: "dir_find (root_dir s) name = int i" "live s i"
      using dir_find_root [OF v(5)] by metis
    then show ?thesis
      using tables_ok_truncated [OF v(1)]
      by (simp add: tfs_open_body_def valid root look open_result_def open_existing_eq [OF inv i(2)]
          add_to_open_file_table_handle Let_def)
  qed
qed

lemma tfs_open_body_invalid: "\<not> valid_pathname path \<Longrightarrow> tfs_open_body path mode s = Inr (-1, s)"
  by (simp add: tfs_open_body_def)

section \<open>Close\<close>

lemma tfs_close_body_eq:
  assumes "tables_ok s"
  shows "tfs_close_body fh s = Inr (if handle_open s fh then (0, del_handle (nat fh) s) else (-1, s))"
  using assms
  by (simp add: tfs_close_body_def get_open_file_entry_eq remove_from_open_file_table_eq del_handle_def)

section \<open>Write\<close>

lemma bsz_small:
  assumes "fs_inv s"
  shows "bsz s < 2 ^ 63"
proof -
  note v = fs_invD [OF assms]
  obtain b where "b < n_blocks s" using root_block [OF v(1-3)] by blast
  then have "bsz s \<le> n_blocks s * bsz s" by simp
  then show ?thesis using tables_ok_bounds(6) [OF v(1)] by (rule le_less_trans)
qed

text \<open>The file an open handle refers to.\<close>

lemma open_handle_file:
  assumes "fs_inv s" and "handle_open s fh"
  obtains i where "nat fh < n_files s" and "of_inumber (otab s ! nat fh) = int i" and "i \<noteq> 0" and "live s i"
    and "unat (of_offset (otab s ! nat fh)) \<le> unat (i_size (itab s ! i))"
    and "unat (i_size (itab s ! i)) \<le> bsz s"
proof -
  note v = fs_invD [OF assms(1)]
  have h: "nat fh < n_files s" "ofree s ! nat fh = TAKEN" using assms(2) by (simp_all add: handle_open_def)
  from handles_okD [OF v(7) this] obtain i where "of_inumber (otab s ! nat fh) = int i" "i \<noteq> 0" "live s i"
    "unat (of_offset (otab s ! nat fh)) \<le> unat (i_size (itab s ! i))" by metis
  then show thesis using that h(1) inodes_okD(2) [OF v(3)] by blast
qed

text \<open>The block a write goes to: the file's own, or the first free one for an empty file.\<close>

definition target_block :: "fs \<Rightarrow> nat \<Rightarrow> nat option" where
  "target_block s i = (if i_size (itab s ! i) = 0 then first_free (bfree s)
     else Some (nat (i_data_block (itab s ! i))))"

lemma target_block_write_target:
  assumes "fs_inv s" and "live s i" and "target_block s i = Some b"
  shows "write_target s i b"
proof -
  note v = fs_invD [OF assms(1)]
  show ?thesis
    using assms(3) first_free_SomeD [of "bfree s" b] tables_ok_lengths(4) [OF v(1)] inodes_okD(3) [OF v(3) assms(2)]
    by (auto simp: target_block_def write_target_def split: if_splits)
qed

definition write_result :: "nat \<Rightarrow> nat \<Rightarrow> u8 list \<Rightarrow> fs \<Rightarrow> int \<times> fs" where
  "write_result h i bytes s =
     (let off = of_offset (otab s ! h); n = of_nat (length bytes) :: size_t in
      case target_block s i of
        None \<Rightarrow> (-1, s)
      | Some b \<Rightarrow> (int (length bytes), move_handle h (off + n)
          (write_file i b (unat off) bytes (max (i_size (itab s ! i)) (off + n)) s)))"

lemma unat_max: "unat (max a b) = max (unat a) (unat (b :: size_t))"
  by (simp add: max_def word_le_nat_alt)

lemma inode_upd_commute: "x\<lparr>i_data_block := b, i_size := z\<rparr> = x\<lparr>i_size := z, i_data_block := b\<rparr>"
  by (cases x) simp

lemma inode_upd_size: "x\<lparr>i_size := i_size x\<rparr> = (x :: inode_t)"
  by (cases x) simp

lemma write_block_eq:
  assumes tb: "tables_ok s" "bsz s < 2 ^ 63" and h: "h < n_files s" and ii: "i < n_inodes s" and bn: "b < n_blocks s"
    and n: "length bytes \<le> length buffer" "bytes = take (length bytes) buffer" "bytes \<noteq> []"
    and off: "unat (of_offset (otab s ! h)) + length bytes \<le> bsz s"
    and t: "t = s\<lparr>free_blocks := Some ((bfree s)[b := TAKEN]),
              inode_table := Some ((itab s)[i := (itab s ! i)\<lparr>i_data_block := int b\<rparr>])\<rparr>"
  shows "write_block h i buffer (of_nat (length bytes)) t =
    Inr (int (length bytes), move_handle h (of_offset (otab s ! h) + of_nat (length bytes))
      (write_file i b (unat (of_offset (otab s ! h))) bytes
         (max (i_size (itab s ! i)) (of_offset (otab s ! h) + of_nat (length bytes))) s))"
proof -
  note v = tb(1)
  note l = tables_ok_lengths [OF v(1)]
  let ?off = "of_offset (otab s ! h)" and ?n = "of_nat (length bytes) :: size_t"
  have small: "length bytes < 2 ^ 63" using off tb(2) by simp
  then have un: "unat ?n = length bytes" by (simp add: unat_of_nat)
  have tables: "tables_ok t" using v(1) l by (simp add: t)
  have ti: "itab t ! i = (itab s ! i)\<lparr>i_data_block := int b\<rparr>" and tp: "fs_params t = fs_params s"
    and tm: "fs_data t = Some (fmem s)" and "fmem t = fmem s" and tt: "otab t = otab s"
    using ii l(1) tables_okD(3) [OF v(1)] by (simp_all add: t)
  have blk: "data_block_get (int b) t = Inr (b * bsz s)"
    using data_block_get_eq [OF tables, of b] bn tp by simp
  have rd: "mem_read (Some buffer) 0 (length bytes) = Inr bytes"
    using n(1,2) by (simp add: region_def)
  have wr: "mem_write (fs_data t) (b * bsz s + unat ?off) bytes
      = Inr (Some (patch (b * bsz s + unat ?off) bytes (fmem s)))"
    using write_same_outside(1) [OF v(1) bn off] tm by simp
  let ?t1 = "t\<lparr>fs_data := Some (patch (b * bsz s + unat ?off) bytes (fmem s))\<rparr>"
  have t1: "tables_ok ?t1" using tables write_same_outside(1) [OF v(1) bn off] l tp by (simp add: t)
  let ?t2 = "move_handle h (?off + ?n) ?t1"
  have so: "set_offset h (?off + ?n) ?t1 = Inr ?t2"
    using set_offset_eq [OF t1, of h] h tp by (simp add: move_handle_def)
  have t2: "tables_ok ?t2" using t1 l tp by (simp add: move_handle_def t)
  have fin: "(if ?off + ?n > i_size (itab s ! i) then upd_inode i (\<lambda>x. x\<lparr>i_size := ?off + ?n\<rparr>) ?t2 else Inr ?t2)
    = Inr (move_handle h (?off + ?n) (write_file i b (unat ?off) bytes (max (i_size (itab s ! i)) (?off + ?n)) s))"
  proof (cases "?off + ?n > i_size (itab s ! i)")
    case True
    then show ?thesis
      using upd_inode_eq [OF t2, of i] ii l(1) tp
      by (simp add: move_handle_def write_file_def t max_def inode_upd_commute)
  next
    case False
    then show ?thesis by (simp add: move_handle_def write_file_def t max_def inode_upd_commute inode_upd_size)
  qed
  have ret: "c_ssize ?n = int (length bytes)" using small c_ssize_small [of ?n] by (simp add: un)
  have ag: "aget (open_file_table t) h = Inr (otab s ! h)" "aget (inode_table t) i = Inr (itab t ! i)"
    using aget_tables [OF tables] h ii tp tt by simp_all
  have sel: "i_data_block ((itab s ! i)\<lparr>i_data_block := int b\<rparr>) = int b"
    "i_size ((itab s ! i)\<lparr>i_data_block := int b\<rparr>) = i_size (itab s ! i)"
    by simp_all
  show ?thesis
    unfolding write_block_def ag bindE_simps ti sel blk un rd wr Let_def so fin ret ..
qed

lemma tfs_write_body_closed:
  "tables_ok s \<Longrightarrow> \<not> handle_open s fh \<Longrightarrow> tfs_write_body fh buffer n s = Inr (-1, s)"
  by (simp add: tfs_write_body_def get_open_file_entry_eq)

text \<open>The number of bytes a write takes: what fits into the rest of the block.\<close>

definition write_len :: "nat \<Rightarrow> nat \<Rightarrow> fs \<Rightarrow> nat" where
  "write_len h n s = min n (bsz s - unat (of_offset (otab s ! h)))"

text \<open>What a write needs of the state, whether its inode is in use or not.\<close>

lemma tfs_write_body_raw:
  assumes tb: "tables_ok s" "bsz s < 2 ^ 63" and fh: "handle_open s fh" "of_inumber (otab s ! nat fh) = int i"
    and ii: "i < n_inodes s" and ol: "unat (of_offset (otab s ! nat fh)) \<le> bsz s"
    and own: "i_size (itab s ! i) \<noteq> 0 \<Longrightarrow> \<exists>b. i_data_block (itab s ! i) = int b \<and> b < n_blocks s \<and> bfree s ! b = TAKEN"
    and n: "unat n \<le> length buffer" "unat n < 2 ^ 63"
  shows "tfs_write_body fh buffer n s =
    Inr (if write_len (nat fh) (unat n) s = 0 then (0, s)
         else write_result (nat fh) i (take (write_len (nat fh) (unat n) s) buffer) s)"
proof -
  note v = tb(1)
  note l = tables_ok_lengths [OF v(1)]
  obtain h where h: "h = nat fh" "h < n_files s" using fh(1) by (simp add: handle_open_def)
  let ?off = "of_offset (otab s ! h)" and ?bs = "block_size (fs_params s)"
  let ?n = "if n + ?off > ?bs then ?bs - ?off else n"
  let ?m = "write_len h (unat n) s"
  have ol: "unat ?off \<le> bsz s" using ol h(1) by simp
  have nowrap: "unat (n + ?off) = unat n + unat ?off"
    using n(2) ol tb(2) by (intro unat_add_lem [THEN iffD1]) simp
  have sub: "unat (?bs - ?off) = bsz s - unat ?off" using ol by (simp add: unat_sub word_le_nat_alt)
  have m: "unat ?n = ?m"
    using nowrap sub by (auto simp: write_len_def word_less_nat_alt)
  have nm: "?n = of_nat ?m" unfolding m [symmetric] by (simp only: of_nat_unat ucast_id)
  have mb: "?m < 2 ^ 63" using n(2) by (simp add: write_len_def)
  have start: "tfs_write_body fh buffer n s =
    (if ?n > 0 then
       if i_size (itab s ! i) = 0 then
         bindE (data_block_alloc s) (\<lambda>(bnum, s). if bnum = -1 then Inr (-1, s)
           else bindE (upd_inode i (\<lambda>x. x\<lparr>i_data_block := bnum\<rparr>) s) (write_block h i buffer ?n))
       else write_block h i buffer ?n s
     else Inr (c_ssize ?n, s))"
    using v(1) fh h(2) ii unfolding h(1)
    by (simp add: tfs_write_body_def get_open_file_entry_eq aget_tables inode_get_eq
        state_block_size_def Let_def)
  show ?thesis
  proof (cases "?m = 0")
    case True
    then have "?n = 0" using m by (simp add: unat_eq_0)
    then have "tfs_write_body fh buffer n s = Inr (0, s)" unfolding start by (simp add: c_ssize_def)
    then show ?thesis using True h(1) by simp
  next
    case False
    then have pos: "?n > 0" using m by (metis unat_0 word_gt_0)
    let ?bytes = "take ?m buffer"
    have lb: "length ?bytes = ?m" using n(1) by (simp add: write_len_def)
    have bytes: "length ?bytes \<le> length buffer" "?bytes = take (length ?bytes) buffer" "?bytes \<noteq> []"
      using lb False by auto
    have fit: "unat ?off + length ?bytes \<le> bsz s" using lb ol by (simp add: write_len_def)
    have nb: "?n = of_nat (length ?bytes)" using nm lb by simp
    have "tfs_write_body fh buffer n s = Inr (write_result h i ?bytes s)"
    proof (cases "i_size (itab s ! i) = 0")
      case True
      show ?thesis
      proof (cases "first_free (bfree s)")
        case None
        then show ?thesis unfolding start using pos True v(1)
          by (simp add: data_block_alloc_eq write_result_def target_block_def)
      next
        case (Some b)
        then have tgt: "target_block s i = Some b" by (simp add: target_block_def True)
        have bn: "b < n_blocks s" using first_free_SomeD [OF Some] l(4) by simp
        let ?t = "s\<lparr>free_blocks := Some ((bfree s)[b := TAKEN])\<rparr>"
        have tables: "tables_ok ?t" using v(1) l by simp
        have up: "upd_inode i (\<lambda>x. x\<lparr>i_data_block := int b\<rparr>) ?t =
            Inr (?t\<lparr>inode_table := Some ((itab s)[i := (itab s ! i)\<lparr>i_data_block := int b\<rparr>])\<rparr>)"
          using upd_inode_eq [OF tables, of i] ii by simp
        show ?thesis
          unfolding start using pos True v(1) up
            write_block_eq [OF tb h(2) ii bn bytes fit refl]
          by (simp add: data_block_alloc_eq Some nb write_result_def tgt Let_def cong: if_cong)
      qed
    next
      case sz: False
      obtain b where b: "i_data_block (itab s ! i) = int b" "b < n_blocks s" "bfree s ! b = TAKEN"
        using own [OF sz] by blast
      then have tgt: "target_block s i = Some b" by (simp add: target_block_def sz)
      have "(itab s ! i)\<lparr>i_data_block := int b\<rparr> = itab s ! i" using b(1) by (cases "itab s ! i") simp
      then have "s = s\<lparr>free_blocks := Some ((bfree s)[b := TAKEN]),
          inode_table := Some ((itab s)[i := (itab s ! i)\<lparr>i_data_block := int b\<rparr>])\<rparr>"
        using b(3) tables_okD [OF v(1)] by (metis fs.surjective fs.update_convs(2,5) list_update_id)
      from write_block_eq [OF tb h(2) ii b(2) bytes fit this] show ?thesis
        unfolding start using pos sz by (simp add: nb write_result_def tgt Let_def)
    qed
    then show ?thesis using False h(1) by simp
  qed
qed

lemma tfs_write_body_eq:
  assumes inv: "fs_inv s" and fh: "handle_open s fh" "of_inumber (otab s ! nat fh) = int i"
    and n: "unat n \<le> length buffer" "unat n < 2 ^ 63"
  shows "tfs_write_body fh buffer n s =
    Inr (if write_len (nat fh) (unat n) s = 0 then (0, s)
         else write_result (nat fh) i (take (write_len (nat fh) (unat n) s) buffer) s)"
proof -
  note v = fs_invD [OF inv]
  have h: "live s i" "unat (of_offset (otab s ! nat fh)) \<le> bsz s"
    using open_handle_file [OF inv fh(1)] fh(2) by (metis of_nat_eq_iff, metis le_trans)
  show ?thesis
    by (rule tfs_write_body_raw [OF v(1) bsz_small [OF inv] fh _ h(2) inodes_okD(3) [OF v(3) h(1)] n])
      (use h(1) in \<open>simp_all add: live_def\<close>)
qed

section \<open>Read\<close>

lemma tfs_read_body_closed:
  "tables_ok s \<Longrightarrow> \<not> handle_open s fh \<Longrightarrow> tfs_read_body fh n (buffer, s) = Inr (-1, buffer, s)"
  by (simp add: tfs_read_body_def get_open_file_entry_eq)

text \<open>The bytes from the offset of handle \<open>h\<close> to the end of its file, at most \<open>n\<close>.\<close>

definition read_bytes :: "nat \<Rightarrow> nat \<Rightarrow> nat \<Rightarrow> fs \<Rightarrow> u8 list" where
  "read_bytes h i n s = take n (drop (unat (of_offset (otab s ! h))) (file_data s i))"

definition read_result :: "nat \<Rightarrow> nat \<Rightarrow> nat \<Rightarrow> u8 list \<Rightarrow> fs \<Rightarrow> int \<times> u8 list \<times> fs" where
  "read_result h i n buffer s =
     (let bs = read_bytes h i n s in
      (int (length bs), patch 0 bs buffer,
       move_handle h (of_offset (otab s ! h) + of_nat (length bs)) s))"

lemma move_handle_self:
  assumes "tables_ok s" and "h < n_files s"
  shows "move_handle h (of_offset (otab s ! h)) s = s"
proof -
  have "(otab s ! h)\<lparr>of_offset := of_offset (otab s ! h)\<rparr> = otab s ! h" by (cases "otab s ! h") simp
  then have "move_handle h (of_offset (otab s ! h)) s = s\<lparr>open_file_table := open_file_table s\<rparr>"
    using tables_okD(5) [OF assms(1)] by (metis list_update_id move_handle_def)
  then show ?thesis by simp
qed

lemma length_read_bytes:
  assumes "fs_inv s" and "live s i"
  shows "length (read_bytes h i n s) = min n (unat (i_size (itab s ! i)) - unat (of_offset (otab s ! h)))"
  using length_file_data [OF assms] by (simp add: read_bytes_def)

text \<open>What a read needs of the state, whether its inode is in use or not.\<close>

lemma tfs_read_body_raw:
  assumes tb: "tables_ok s" "bsz s < 2 ^ 63" and fh: "handle_open s fh" "of_inumber (otab s ! nat fh) = int i"
    and ii: "i < n_inodes s" and ol: "unat (of_offset (otab s ! nat fh)) \<le> unat (i_size (itab s ! i))"
    and os: "unat (i_size (itab s ! i)) \<le> bsz s"
    and own: "i_size (itab s ! i) \<noteq> 0 \<Longrightarrow> \<exists>b. i_data_block (itab s ! i) = int b \<and> b < n_blocks s"
    and n: "unat n \<le> length buffer"
  shows "tfs_read_body fh n (buffer, s) = Inr (read_result (nat fh) i (unat n) buffer s)"
proof -
  note v = tb(1)
  note l = tables_ok_lengths [OF v(1)]
  obtain h where h: "h = nat fh" "h < n_files s" using fh(1) by (simp add: handle_open_def)
  have off: "unat (of_offset (otab s ! h)) \<le> unat (i_size (itab s ! i))" using ol h(1) by simp
  have len: "length (read_bytes h i m s) = min m (unat (i_size (itab s ! i)) - unat (of_offset (otab s ! h)))" for m
  proof (cases "i_size (itab s ! i) = 0")
    case False
    from own [OF this] obtain b where b: "i_data_block (itab s ! i) = int b" "b < n_blocks s" by blast
    have "b * bsz s + 0 + unat (i_size (itab s ! i)) \<le> length (fmem s)"
      using block_in_data [OF b(2), of 0 "unat (i_size (itab s ! i))" "bsz s"] os l(3) by simp
    then show ?thesis using b(1) by (simp add: read_bytes_def file_data_def)
  qed (simp add: read_bytes_def file_data_def)
  let ?off = "of_offset (otab s ! h)" and ?sz = "i_size (itab s ! i)"
  let ?n = "if ?sz - ?off > n then n else ?sz - ?off"
  let ?bs = "read_bytes h i (unat n) s"
  have sub: "unat (?sz - ?off) = unat ?sz - unat ?off" using off by (simp add: unat_sub word_le_nat_alt)
  have un: "unat ?n = length ?bs"
    using sub by (auto simp: len word_less_nat_alt)
  have nn: "?n = of_nat (length ?bs)" unfolding un [symmetric] by (simp only: of_nat_unat ucast_id)
  have small: "unat ?n < 2 ^ 63"
    using os tb(2) by (simp add: un len)
  have start: "tfs_read_body fh n (buffer, s) =
    (if ?n > 0 then
       bindE (data_block_get (i_data_block (itab s ! i)) s) (\<lambda>block.
       bindE (mem_read (fs_data s) (block + unat ?off) (unat ?n)) (\<lambda>data.
       bindE (mem_write (Some buffer) 0 data) (\<lambda>buffer'.
       bindE (set_offset h (?off + ?n) s) (\<lambda>s. Inr (c_ssize ?n, the buffer', s)))))
     else Inr (c_ssize ?n, buffer, s))"
    using v(1) fh h(2) ii unfolding h(1)
    by (simp add: tfs_read_body_def get_open_file_entry_eq aget_tables inode_get_eq Let_def)
  show ?thesis
  proof (cases "?bs = []")
    case True
    then have "?n = 0" using un by (simp add: unat_eq_0)
    then have "tfs_read_body fh n (buffer, s) = Inr (0, buffer, s)" unfolding start by (simp add: c_ssize_def)
    then show ?thesis
      using True h(1,2) move_handle_self [OF v(1)] by (simp add: read_result_def patch_def)
  next
    case False
    then have pos: "?n > 0" using un by (metis length_0_conv unat_0 word_gt_0)
    have sz: "?sz \<noteq> 0"
    proof
      assume "?sz = 0"
      then have "length ?bs = 0" by (simp add: len)
      then show False using False by simp
    qed
    obtain b where b: "i_data_block (itab s ! i) = int b" "b < n_blocks s"
      using own [OF sz] by blast
    have fd: "file_data s i = region (b * bsz s) (unat ?sz) (fmem s)" using b(1) by (simp add: file_data_def)
    have lb: "unat ?off + length ?bs \<le> unat ?sz" using off by (simp add: len)
    have bytes: "region (b * bsz s + unat ?off) (length ?bs) (fmem s) = ?bs"
    proof -
      have "?bs = take (length ?bs) (drop (unat ?off) (file_data s i))"
        by (cases "unat n \<le> length (file_data s i) - unat ?off") (simp_all add: read_bytes_def)
      also have "\<dots> = region (b * bsz s + unat ?off) (length ?bs) (fmem s)"
        using region_region [OF lb, of "b * bsz s" "fmem s"] fd by (simp add: region_def)
      finally show ?thesis by simp
    qed
    have "b * bsz s + unat ?off + length ?bs \<le> length (fmem s)"
      using block_in_data [OF b(2), of "unat ?off" "length ?bs" "bsz s"] lb os l(3) by simp
    then have rd: "mem_read (fs_data s) (b * bsz s + unat ?off) (unat ?n) = Inr ?bs"
      using tables_okD(3) [OF v(1)] bytes un by (metis mem_read.simps(2))
    have wr: "mem_write (Some buffer) 0 ?bs = Inr (Some (patch 0 ?bs buffer))"
      using n by (simp add: len)
    have ret: "c_ssize ?n = int (length ?bs)" using c_ssize_small [OF small] un by simp
    show ?thesis
      unfolding start if_P [OF pos] b(1) data_block_get_eq [OF v(1) b(2)] bindE_simps rd wr
        set_offset_eq [OF v(1) h(2)] ret
      by (simp add: read_result_def Let_def move_handle_def nn flip: h(1))
  qed
qed

lemma tfs_read_body_eq:
  assumes inv: "fs_inv s" and fh: "handle_open s fh" "of_inumber (otab s ! nat fh) = int i"
    and n: "unat n \<le> length buffer"
  shows "tfs_read_body fh n (buffer, s) = Inr (read_result (nat fh) i (unat n) buffer s)"
proof -
  note v = fs_invD [OF inv]
  have h: "live s i" "unat (of_offset (otab s ! nat fh)) \<le> unat (i_size (itab s ! i))" "unat (i_size (itab s ! i)) \<le> bsz s"
    using open_handle_file [OF inv fh(1)] fh(2) by (metis of_nat_eq_iff)+
  show ?thesis
    by (rule tfs_read_body_raw [OF v(1) bsz_small [OF inv] fh _ h(2,3) _ n])
      (use h(1) inodes_okD(3) [OF v(3) h(1)] in \<open>auto simp: live_def\<close>)
qed

section \<open>Unlink\<close>

definition unlink_result :: "cstring \<Rightarrow> fs \<Rightarrow> int \<times> fs" where
  "unlink_result name s =
     (let v = dir_find (root_dir s) name in
      case dir_index (\<lambda>e. fst e = name) (root_dir s) of
        Some k \<Rightarrow> if v = -1 then (-1, s) else (0, delete_file (nat v) k s)
      | None \<Rightarrow> (-1, s))"

lemma unlink_entry:
  assumes "dir_ok s" and "name \<noteq> []" and "dir_find (root_dir s) name \<noteq> -1"
  obtains k where "dir_index (\<lambda>e. fst e = name) (root_dir s) = Some k" and "k < used_span (root_dir s)"
    and "k < max_dir_entries s" and "root_dir s ! k = (name, dir_find (root_dir s) name)"
proof -
  obtain l where l: "l < max_dir_entries s" "snd (root_dir s ! l) \<noteq> -1" "fst (root_dir s ! l) = name"
    using dir_find_found [of "root_dir s" name] assms(3) by auto
  then obtain k where k: "dir_index (\<lambda>e. fst e = name) (root_dir s) = Some k"
    using dir_index_None [of "\<lambda>e. fst e = name" "root_dir s"] by fastforce
  note ks = dir_index_SomeD [OF k]
  have "k \<le> l" by (rule ccontr) (use ks l(3) in auto)
  then have span: "k < used_span (root_dir s)" using l by (auto simp: used_span_iff)
  have km: "k < max_dir_entries s" "fst (root_dir s ! k) = name" using ks by simp_all
  have "snd (root_dir s ! k) \<noteq> -1"
    using assms(1,2) span km unfolding dir_ok_def by blast
  from dir_find_entry [OF assms(1) km(1) this] km(2)
  have "dir_find (root_dir s) name = snd (root_dir s ! k)" by simp
  then show thesis using that k span km by (simp add: prod_eq_iff)
qed

lemma tfs_unlink_body_eq:
  assumes inv: "fs_inv s" and name: "name \<noteq> []" "is_cstring name"
  shows "tfs_unlink_body (Some (47 # name)) s = Inr (unlink_result name s)"
proof -
  note v = fs_invD [OF inv]
  note l = tables_ok_lengths [OF v(1)]
  have valid: "valid_pathname (Some (47 # name))" using name(1) by (simp add: valid_path_iff)
  have root: "inode_get 0 s = Inr 0"
    using v(2) inode_get_eq [of 0 s] by (simp add: root_ok_def live_def)
  have look: "tfs_lookup (Some (47 # name)) 0 s = Inr (dir_find (root_dir s) name)"
    by (simp add: tfs_lookup_def valid find_in_root [OF inv name(2)])
  show ?thesis
  proof (cases "dir_find (root_dir s) name = -1")
    case True
    then show ?thesis
      by (simp add: tfs_unlink_body_def valid root look unlink_result_def Let_def split: option.splits)
  next
    case False
    then obtain k where k: "dir_index (\<lambda>e. fst e = name) (root_dir s) = Some k" "k < used_span (root_dir s)"
      using unlink_entry [OF v(5) name(1)] by metis
    obtain i where i: "dir_find (root_dir s) name = int i" "i \<noteq> 0" "live s i"
      using dir_find_root [OF v(5) False] by metis
    have il: "i < n_inodes s" "ifree s ! i = TAKEN" using i(3) by (simp_all add: live_def)
    let ?t = "s\<lparr>free_blocks := Some (drop_block i s), freeinode_ts := Some ((ifree s)[i := FREE])\<rparr>"
    have del: "inode_delete (int i) s = Inr ?t"
    proof -
      obtain b where "i_size (itab s ! i) \<noteq> 0 \<Longrightarrow> i_data_block (itab s ! i) = int b \<and> b < n_blocks s"
        using inodes_okD(3) [OF v(3) i(3)] by metis
      from inode_delete_eq [OF v(1) il this] this show ?thesis by (auto simp: drop_block_def)
    qed
    have tables: "tables_ok ?t" using v(1) l by simp
    have lv: "live ?t j \<longleftrightarrow> live s j \<and> j \<noteq> i" for j
      using il l(2) by (auto simp: live_def nth_list_update)
    have rt: "root_ok ?t" using v(2) i(2) lv by (simp add: root_ok_def)
    have inodes: "inodes_ok ?t"
      using inodes_okD [OF v(3)] drop_block_other [OF inv i(3)] lv by (intro inodes_okI) simp_all
    have rb: "root_blk ?t = root_blk s" by (simp add: root_blk_def)
    have rd: "root_dir ?t = root_dir s" unfolding root_dir_def rb by (simp add: max_dir_entries_def)
    have names: "names_ok ?t" using v(6) unfolding names_ok_def rb rd by simp
    have "clear_dir_entry 0 name ?t = Inr (0, delete_file i k s)"
      using clear_dir_entry_root [OF tables rt inodes names name(2)] rb rd k
      by (simp add: delete_file_def)
    then show ?thesis
      using False i(1) k(1) by (simp add: tfs_unlink_body_def valid root look unlink_result_def del)
  qed
qed

lemma tfs_unlink_body_invalid: "\<not> valid_pathname path \<Longrightarrow> tfs_unlink_body path s = Inr (-1, s)"
  by (simp add: tfs_unlink_body_def)

end
