(* ===== verification/Tfs_Init.thy ===== *)
theory Tfs_Init
  imports Tfs_Exec
begin

text \<open>
  \<open>tfs_init\<close> and \<open>tfs_destroy\<close>: on memory of the sizes asked for, whatever it holds, a fresh
  file system satisfies the invariant, its root directory is empty and nothing is open.
\<close>

section \<open>The memory \<open>state_init\<close> asks for\<close>

definition mallocs_ok :: "tfs_params \<Rightarrow> mallocs \<Rightarrow> bool" where
  "mallocs_ok p m \<longleftrightarrow>
     m_inode_table m \<noteq> None \<and> length (the (m_inode_table m)) = unat (max_inode_count p) \<and>
     m_freeinode_ts m \<noteq> None \<and> length (the (m_freeinode_ts m)) = unat (max_inode_count p) \<and>
     m_fs_data m \<noteq> None \<and> length (the (m_fs_data m)) = unat (max_block_count p) * unat (block_size p) \<and>
     m_free_blocks m \<noteq> None \<and> length (the (m_free_blocks m)) = unat (max_block_count p) \<and>
     m_open_file_table m \<noteq> None \<and> length (the (m_open_file_table m)) = unat (max_open_files_count p) \<and>
     m_free_open_file_entries m \<noteq> None
       \<and> length (the (m_free_open_file_entries m)) = unat (max_open_files_count p)"

text \<open>The state after a successful \<open>state_init\<close>.\<close>

definition blank :: "tfs_params \<Rightarrow> mallocs \<Rightarrow> fs" where
  "blank p m = \<lparr>fs_params = p, inode_table = m_inode_table m,
     freeinode_ts = Some (replicate (unat (max_inode_count p)) FREE), fs_data = m_fs_data m,
     free_blocks = Some (replicate (unat (max_block_count p)) FREE),
     open_file_table = m_open_file_table m,
     free_open_file_entries = Some (replicate (unat (max_open_files_count p)) FREE)\<rparr>"

lemma state_init_eq:
  assumes "mallocs_ok p m" and "inode_table s = None"
  shows "state_init p m s = Inr (0, blank p m)"
proof -
  obtain t1 t2 t3 where t: "m_freeinode_ts m = Some t1" "length t1 = unat (max_inode_count p)"
    "m_free_blocks m = Some t2" "length t2 = unat (max_block_count p)"
    "m_free_open_file_entries m = Some t3" "length t3 = unat (max_open_files_count p)"
    using assms(1) by (auto simp: mallocs_ok_def)
  have some: "m_inode_table m \<noteq> None" "m_fs_data m \<noteq> None" "m_open_file_table m \<noteq> None"
    using assms(1) by (simp_all add: mallocs_ok_def)
  show ?thesis
    using assms(2) some fill_free_eq [OF t(2) [symmetric]] fill_free_eq [OF t(4) [symmetric]] fill_free_eq [OF t(6) [symmetric]]
    by (cases s) (simp add: state_init_def t(1,3,5) blank_def Let_def)
qed

lemma tables_ok_blank: "params_ok p \<Longrightarrow> mallocs_ok p m \<Longrightarrow> tables_ok (blank p m)"
  by (simp add: tables_ok_def mallocs_ok_def blank_def)

lemma first_free_replicate: "0 < n \<Longrightarrow> first_free (replicate n FREE) = Some 0"
  by (cases n) simp_all

section \<open>The root directory\<close>

text \<open>The state after \<open>inode_create(T_DIRECTORY)\<close> on a blank one, with data area \<open>mem\<close>.\<close>

definition fresh :: "tfs_params \<Rightarrow> mallocs \<Rightarrow> u8 list \<Rightarrow> fs" where
  "fresh p m mem = (blank p m)\<lparr>
     freeinode_ts := Some (TAKEN # replicate (unat (max_inode_count p) - 1) FREE),
     inode_table := Some ((the (m_inode_table m))
       [0 := \<lparr>i_node_type = T_DIRECTORY, i_size = block_size p, i_data_block = 0\<rparr>]),
     free_blocks := Some (TAKEN # replicate (unat (max_block_count p) - 1) FREE),
     fs_data := Some mem\<rparr>"

lemma replicate_update_0: "0 < n \<Longrightarrow> (replicate n x)[0 := y] = y # replicate (n - 1) x"
  by (cases n) simp_all

lemma inode_create_root:
  assumes p: "params_ok p" and m: "mallocs_ok p m"
    and pos: "0 < unat (max_inode_count p)" "0 < unat (max_block_count p)"
  obtains mem where "inode_create T_DIRECTORY (blank p m) = Inr (0, fresh p m mem)"
    and "length mem = unat (max_block_count p) * unat (block_size p)"
    and "\<forall>j<unat (block_size p) div 44. d_inumber mem 0 j = -1"
proof -
  let ?s = "blank p m" and ?t = "the (m_inode_table m)"
  have tabs: "tables_ok ?s" by (rule tables_ok_blank [OF p m])
  note l = tables_ok_lengths [OF tabs]
  have fp: "fs_params ?s = p" and it: "itab ?s = ?t" and fr: "ifree ?s = replicate (n_inodes ?s) FREE"
    and bf: "bfree ?s = replicate (n_blocks ?s) FREE"
    by (simp_all add: blank_def)
  have lt: "length ?t = unat (max_inode_count p)" using l(1) fp it by simp
  let ?s1 = "?s\<lparr>freeinode_ts := Some ((ifree ?s)[0 := TAKEN])\<rparr>"
  let ?x2 = "(?t ! 0)\<lparr>i_node_type := T_DIRECTORY\<rparr>"
  let ?s2 = "?s1\<lparr>inode_table := Some (?t[0 := ?x2])\<rparr>"
  let ?s3 = "?s2\<lparr>free_blocks := Some ((bfree ?s)[0 := TAKEN])\<rparr>"
  let ?x4 = "?x2\<lparr>i_size := block_size p, i_data_block := 0\<rparr>"
  let ?s4 = "?s3\<lparr>inode_table := Some (?t[0 := ?x4])\<rparr>"
  have t1: "tables_ok ?s1" using tabs l by simp
  have t2: "tables_ok ?s2" using t1 lt fp by simp
  have t3: "tables_ok ?s3" using t2 l by simp
  have t4: "tables_ok ?s4" by (rule tables_ok_updates(1) [OF t3]) (use lt fp in simp)
  have a1: "inode_alloc ?s = Inr (0, ?s1)"
    using inode_alloc_eq [OF tabs] first_free_replicate [OF pos(1)] by (simp add: fr fp)
  have a2: "upd_inode 0 (\<lambda>x. x\<lparr>i_node_type := T_DIRECTORY\<rparr>) ?s1 = Inr ?s2"
    using upd_inode_eq [OF t1, of 0] pos(1) by (simp add: fp it)
  have a3: "data_block_alloc ?s2 = Inr (0, ?s3)"
    using data_block_alloc_eq [OF t2] first_free_replicate [OF pos(2)] by (simp add: bf fp)
  have a4: "upd_inode 0 (\<lambda>x. x\<lparr>i_size := block_size (fs_params ?s3), i_data_block := 0\<rparr>) ?s3 = Inr ?s4"
    using upd_inode_eq [OF t3, of 0] pos(1) lt by (simp add: fp)
  have a5: "data_block_get 0 ?s4 = Inr 0"
    using data_block_get_eq [OF t4, of 0] pos(2) by (simp add: fp)
  have mx: "max_dir_entries ?s4 = unat (block_size p) div 44" by (simp add: max_dir_entries_def fp)
  have lm: "length (fmem ?s) = unat (max_block_count p) * unat (block_size p)" using l(3) fp by simp
  have "44 * (unat (block_size p) div 44) \<le> unat (block_size p)" by simp
  also have "\<dots> \<le> unat (max_block_count p) * unat (block_size p)" using pos(2) by simp
  finally have room: "0 + 44 * (unat (block_size p) div 44) \<le> length (fmem ?s)" unfolding lm by simp
  obtain mem where mem: "init_entries 0 0 (unat (block_size p) div 44) (Some (fmem ?s)) = Inr (Some mem)"
    "same_outside 0 (0 + 44 * (unat (block_size p) div 44)) (fmem ?s) mem"
    "\<forall>j<unat (block_size p) div 44. d_inumber mem 0 j = -1"
    using init_entries_eq [OF room, of 0] by auto
  have x4: "?x4 = \<lparr>i_node_type = T_DIRECTORY, i_size = block_size p, i_data_block = 0\<rparr>"
    by (cases "?t ! 0") simp
  have fin: "?s4\<lparr>fs_data := Some mem\<rparr> = fresh p m mem"
    using pos unfolding fr bf fp x4
    by (simp add: fresh_def replicate_update_0 blank_def)
  have data: "fs_data ?s4 = Some (fmem ?s)" using tables_okD(3) [OF tabs] by simp
  have "inode_create T_DIRECTORY ?s = Inr (0, fresh p m mem)"
    using a2 a3 a4 a5 mem(1) data fin unfolding inode_create_def a1
    by (simp add: max_dir_entries_def fp)
  moreover have "length mem = unat (max_block_count p) * unat (block_size p)"
    using mem(2) lm by (simp add: same_outside_def)
  ultimately show thesis using that mem(3) by blast
qed

lemma fresh_views:
  assumes "params_ok p" and "mallocs_ok p m" and "0 < unat (max_inode_count p)"
    and "\<forall>j<unat (block_size p) div 44. d_inumber mem 0 j = -1"
  shows "live (fresh p m mem) i \<longleftrightarrow> i = 0"
    and "k < max_dir_entries (fresh p m mem) \<Longrightarrow> snd (root_dir (fresh p m mem) ! k) = -1"
    and "used_span (root_dir (fresh p m mem)) = 0"
    and "\<not> handle_open (fresh p m mem) fh"
proof -
  let ?s = "fresh p m mem"
  have lt: "length (the (m_inode_table m)) = unat (max_inode_count p)"
    using assms(2) by (simp add: mallocs_ok_def)
  show "live ?s i \<longleftrightarrow> i = 0"
    using assms(3) by (auto simp: live_def fresh_def blank_def nth_Cons split: nat.splits)
  have i0: "itab ?s ! 0 = \<lparr>i_node_type = T_DIRECTORY, i_size = block_size p, i_data_block = 0\<rparr>"
    using assms(3) lt by (simp add: fresh_def)
  have rb: "root_blk ?s = 0" by (simp add: root_blk_def i0)
  have mx: "max_dir_entries ?s = unat (block_size p) div 44" by (simp add: max_dir_entries_def fresh_def blank_def)
  have fm: "fmem ?s = mem" by (simp add: fresh_def)
  show un: "snd (root_dir ?s ! k) = -1" if "k < max_dir_entries ?s" for k
    using that assms(4) unfolding root_dir_def rb fm mx by simp
  show "used_span (root_dir ?s) = 0"
    using used_span_iff [of 0 "root_dir ?s"] un by auto
  show "\<not> handle_open ?s fh"
    by (auto simp: handle_open_def fresh_def blank_def)
qed

lemma fs_inv_fresh:
  assumes p: "params_ok p" and m: "mallocs_ok p m"
    and pos: "0 < unat (max_inode_count p)" "0 < unat (max_block_count p)"
    and mem: "length mem = unat (max_block_count p) * unat (block_size p)"
      "\<forall>j<unat (block_size p) div 44. d_inumber mem 0 j = -1"
  shows "fs_inv (fresh p m mem)"
proof -
  let ?s = "fresh p m mem"
  note w = fresh_views [OF p m pos(1) mem(2)]
  have lt: "length (the (m_inode_table m)) = unat (max_inode_count p)"
    using m by (simp add: mallocs_ok_def)
  have i0: "itab ?s ! 0 = \<lparr>i_node_type = T_DIRECTORY, i_size = block_size p, i_data_block = 0\<rparr>"
    using pos(1) lt by (simp add: fresh_def)
  have fp: "fs_params ?s = p" by (simp add: fresh_def blank_def)
  have tables: "tables_ok ?s"
    using tables_ok_blank [OF p m] pos mem(1) by (simp add: tables_ok_def fresh_def blank_def mallocs_ok_def)
  have b0: "bfree ?s ! b = TAKEN \<longleftrightarrow> b = 0" if "b < n_blocks ?s" for b
    using that by (auto simp: fresh_def blank_def nth_Cons split: nat.splits)
  have bs: "block_size p \<noteq> 0" using p by (auto simp: params_ok_def unat_eq_0)
  have root: "root_ok ?s" by (simp add: root_ok_def w(1) i0 fp)
  have inodes: "inodes_ok ?s"
    using b0 [of 0] pos(2) by (intro inodes_okI) (auto simp: w(1) i0 fp intro!: exI [of _ 0])
  have blocks: "blocks_ok ?s"
    using b0 bs by (intro blocks_okI) (auto simp: w(1) i0 fp)
  have only: "i = 0" if "i < n_inodes ?s" "ifree ?s ! i = TAKEN" for i
    using w(1) [of i] that by (simp add: live_def)
  have dir: "dir_ok ?s"
    using w(2,3) only unfolding dir_ok_def by auto
  have names: "names_ok ?s" by (simp add: names_ok_def names_terminated_def w(3))
  have handles: "handles_ok ?s"
    using w(4) by (intro handles_okI) (metis handle_open_def nat_int of_nat_0_le_iff)
  show ?thesis
    unfolding fs_inv_def using tables root inodes blocks dir names handles by blast
qed

lemma tfs_init_eq:
  assumes "params_ok p" and "mallocs_ok p m" and "inode_table s = None"
    and "0 < unat (max_inode_count p)" "0 < unat (max_block_count p)"
  obtains t where "tfs_init (Some p) m s = Inr (0, t)" and "fs_inv t" and "fs_params t = p"
    and "used_span (root_dir t) = 0" and "\<And>fh. \<not> handle_open t fh" and "\<And>i. live t i \<longleftrightarrow> i = 0"
proof -
  obtain mem where c: "inode_create T_DIRECTORY (blank p m) = Inr (0, fresh p m mem)"
    "length mem = unat (max_block_count p) * unat (block_size p)"
    "\<forall>j<unat (block_size p) div 44. d_inumber mem 0 j = -1"
    using inode_create_root [OF assms(1,2,4,5)] by blast
  have "tfs_init (Some p) m s = Inr (0, fresh p m mem)"
    by (simp add: tfs_init_def state_init_eq [OF assms(2,3)] c(1))
  then show thesis
    using that fs_inv_fresh [OF assms(1,2,4,5) c(2,3)] fresh_views [OF assms(1,2,4) c(3)]
    by (simp add: fresh_def blank_def)
qed

end
