(* ===== verification/Tfs_Safe.thy ===== *)
theory Tfs_Safe
  imports Tfs_Init
begin

text \<open>
  Every operation keeps the invariant. Two of them need a condition: \<open>tfs_open\<close> with
  \<open>TFS_O_TRUNC\<close> wants every handle on the file rewound, since it leaves their offsets
  alone, and \<open>tfs_unlink\<close> wants no handle on the file, since it frees the inode under them.
\<close>

lemma fs_inv_open_handle:
  assumes "fs_inv s" and "live s i" and "i \<noteq> 0" and "unat off \<le> unat (i_size (itab s ! i))"
  shows "fs_inv (snd (open_handle i off s))"
  using assms fs_inv_add_handle by (auto simp: open_handle_def split: option.splits)

lemma live_truncated: "live (truncated mode i s) j = live s j"
  by (simp add: truncated_def truncate_file_def live_def)

lemma fs_inv_truncated:
  assumes "fs_inv s" and "live s i" and "i \<noteq> 0" and "mode AND TFS_O_TRUNC \<noteq> 0 \<Longrightarrow> rewound s i"
  shows "fs_inv (truncated mode i s)"
  using assms fs_inv_truncate_file by (auto simp: truncated_def)

lemma fs_inv_open_new:
  assumes inv: "fs_inv s" and name: "name \<noteq> []" "is_cstring name" and new: "dir_find (root_dir s) name = -1"
  shows "fs_inv (snd (open_new name s))"
proof (cases "first_free (ifree s)")
  case None
  then show ?thesis using inv by (simp add: open_new_def)
next
  case (Some i)
  note v = fs_invD [OF inv]
  have i: "i < n_inodes s" "ifree s ! i = FREE"
    using first_free_SomeD [OF Some] tables_ok_lengths(2) [OF v(1)] by auto
  show ?thesis
  proof (cases "length name > 39 \<or> dir_index (\<lambda>e. snd e = -1) (root_dir s) = None")
    case True
    then show ?thesis using scratch_inode_same(1) [OF inv i(2)] Some
      by (auto simp: open_new_def)
  next
    case False
    then obtain k where k: "dir_index (\<lambda>e. snd e = -1) (root_dir s) = Some k" by blast
    note ks = dir_index_SomeD [OF k]
    have len: "length name \<le> 39" and km: "k < max_dir_entries s" "snd (root_dir s ! k) = -1"
      and first: "\<forall>j<k. snd (root_dir s ! j) \<noteq> -1"
      using False ks by auto
    have created: "fs_inv (create_file i k name s)"
      using fs_inv_create_file [OF inv i km first name(2) len name(1) new] .
    have "live (create_file i k name s) i"
      using create_file_views(4) [OF inv i km(1) first name(2) len] by simp
    from fs_inv_open_handle [OF created this free_not_root [OF v(2) i(2)], of 0] show ?thesis
      using False Some k by (simp add: open_new_def)
  qed
qed

lemma fs_inv_open_result:
  assumes inv: "fs_inv s" and name: "name \<noteq> []" "is_cstring name"
    and rew: "mode AND TFS_O_TRUNC \<noteq> 0 \<Longrightarrow> rewound s (nat (dir_find (root_dir s) name))"
  shows "fs_inv (snd (open_result name mode s))"
proof (cases "dir_find (root_dir s) name = -1")
  case True
  then show ?thesis using inv fs_inv_open_new [OF inv name] by (simp add: open_result_def)
next
  case False
  then obtain i where i: "dir_find (root_dir s) name = int i" "i \<noteq> 0" "live s i"
    using dir_find_root [OF fs_invD(5) [OF inv]] by metis
  have "fs_inv (truncated mode i s)"
    using fs_inv_truncated [OF inv i(3,2)] rew i(1) by simp
  then show ?thesis
    using fs_inv_open_handle [of "truncated mode i s" i] i
    by (simp add: open_result_def Let_def live_truncated)
qed

text \<open>What a write needs to know of the offset and the size of the file.\<close>

lemma write_result_sizes:
  assumes inv: "fs_inv s" and off: "unat (of_offset (otab s ! h)) + length bytes \<le> bsz s"
  shows "unat (of_offset (otab s ! h) + of_nat (length bytes)) = unat (of_offset (otab s ! h)) + length bytes"
    and "unat (max (i_size (itab s ! i)) (of_offset (otab s ! h) + of_nat (length bytes))) =
      max (unat (i_size (itab s ! i))) (unat (of_offset (otab s ! h)) + length bytes)"
proof -
  have "unat (of_offset (otab s ! h)) + length bytes < 2 ^ 63" using off bsz_small [OF inv] by simp
  then show a: "unat (of_offset (otab s ! h) + of_nat (length bytes)) = unat (of_offset (otab s ! h)) + length bytes"
    by (simp add: unat_word_ariths unat_of_nat)
  show "unat (max (i_size (itab s ! i)) (of_offset (otab s ! h) + of_nat (length bytes))) =
      max (unat (i_size (itab s ! i))) (unat (of_offset (otab s ! h)) + length bytes)"
    by (simp add: unat_max a)
qed

lemma fs_inv_write_result:
  assumes inv: "fs_inv s" and i: "live s i" "i \<noteq> 0" and h: "of_inumber (otab s ! h) = int i"
    and off: "unat (of_offset (otab s ! h)) \<le> unat (i_size (itab s ! i))"
      "unat (of_offset (otab s ! h)) + length bytes \<le> bsz s"
    and bytes: "bytes \<noteq> []"
  shows "fs_inv (snd (write_result h i bytes s))"
proof (cases "target_block s i")
  case None
  then show ?thesis using inv by (simp add: write_result_def)
next
  case (Some b)
  note wt = target_block_write_target [OF inv i(1) Some]
  note z = write_result_sizes [OF inv off(2)]
  have "i < length (itab s)" using i(1) tables_ok_lengths(1) [OF fs_invD(1) [OF inv]] by (simp add: live_def)
  then show ?thesis
    using fs_inv_write_file [OF inv i wt off z(2) bytes] z h
    by (auto simp: write_result_def Some Let_def write_file_def intro!: fs_inv_move_handle)
qed

lemma fs_inv_read_result:
  assumes inv: "fs_inv s" and i: "live s i" and h: "of_inumber (otab s ! h) = int i"
    and off: "unat (of_offset (otab s ! h)) \<le> unat (i_size (itab s ! i))"
  shows "fs_inv (snd (snd (read_result h i n buffer s)))"
proof -
  have "unat (i_size (itab s ! i)) < 2 ^ 64" using unsigned_less [of "i_size (itab s ! i)"] by simp
  then have "unat (of_offset (otab s ! h)) + length (read_bytes h i n s) < 2 ^ 64"
    using off by (simp add: length_read_bytes [OF inv i])
  then have "unat (of_offset (otab s ! h) + of_nat (length (read_bytes h i n s))) \<le> unat (i_size (itab s ! i))"
    using off by (simp add: unat_word_ariths unat_of_nat length_read_bytes [OF inv i])
  then show ?thesis
    using fs_inv_move_handle [OF inv h] by (simp add: read_result_def Let_def)
qed

lemma fs_inv_unlink_result:
  assumes inv: "fs_inv s" and name: "name \<noteq> []"
    and closed: "not_open s (nat (dir_find (root_dir s) name))"
  shows "fs_inv (snd (unlink_result name s))"
proof (cases "dir_find (root_dir s) name = -1")
  case True
  then show ?thesis using inv by (simp add: unlink_result_def Let_def split: option.splits)
next
  case False
  note v = fs_invD [OF inv]
  obtain k where k: "dir_index (\<lambda>e. fst e = name) (root_dir s) = Some k" "k < max_dir_entries s"
    "root_dir s ! k = (name, dir_find (root_dir s) name)"
    using unlink_entry [OF v(5) name False] by metis
  obtain i where i: "dir_find (root_dir s) name = int i" "i \<noteq> 0" "live s i"
    using dir_find_root [OF v(5) False] by metis
  show ?thesis
    using fs_inv_delete_file [OF inv i(3,2) k(2)] closed k i False by (simp add: unlink_result_def)
qed

end
