(* ===== verification/Tfs_Spec.thy ===== *)
theory Tfs_Spec
  imports Tfs_Safe
begin

text \<open>
  The abstract file system: names map to file identities, identities to byte strings, and
  handles to an identity and an offset. There are no blocks, no inode table and no
  directory bytes; the limits of the real one are three counts and the block size. Every
  operation of \<open>operations.c\<close> is stated here as a function on it, and the abstraction of
  a concrete state is defined. \<open>Tfs_Refine\<close> proves that the operations implement these.
\<close>

section \<open>The abstract machine\<close>

record afs =
  a_names :: "cstring \<Rightarrow> nat option"
  a_data :: "nat \<Rightarrow> u8 list option"
  a_handles :: "nat \<Rightarrow> (nat \<times> nat) option"

text \<open>The limits: inodes and blocks counted with the root directory's, handles, block size.\<close>

record caps =
  c_inodes :: nat
  c_blocks :: nat
  c_files :: nat
  c_bsize :: nat

definition a_open_handle :: "caps \<Rightarrow> nat \<Rightarrow> nat \<Rightarrow> afs \<Rightarrow> int \<times> afs" where
  "a_open_handle c i off a =
     (case find (\<lambda>h. a_handles a h = None) [0..<c_files c] of
        None \<Rightarrow> (-1, a)
      | Some h \<Rightarrow> (int h, a\<lparr>a_handles := (a_handles a)(h \<mapsto> (i, off))\<rparr>))"

definition a_create :: "caps \<Rightarrow> cstring \<Rightarrow> afs \<Rightarrow> int \<times> afs" where
  "a_create c name a =
     (case find (\<lambda>i. a_data a i = None) [1..<c_inodes c] of
        None \<Rightarrow> (-1, a)
      | Some i \<Rightarrow>
          if length name > 39 \<or> c_bsize c div 44 \<le> card (dom (a_names a)) then (-1, a)
          else a_open_handle c i 0 (a\<lparr>a_names := (a_names a)(name \<mapsto> i), a_data := (a_data a)(i \<mapsto> [])\<rparr>))"

definition a_open :: "caps \<Rightarrow> cstring option \<Rightarrow> u32 \<Rightarrow> afs \<Rightarrow> int \<times> afs" where
  "a_open c path mode a =
     (if \<not> valid_pathname path then (-1, a)
      else case a_names a (tl (the path)) of
        Some i \<Rightarrow>
          (let a' = (if mode AND TFS_O_TRUNC \<noteq> 0 then a\<lparr>a_data := (a_data a)(i \<mapsto> [])\<rparr> else a) in
           a_open_handle c i (if mode AND TFS_O_APPEND \<noteq> 0 then length (the (a_data a' i)) else 0) a')
      | None \<Rightarrow> if mode AND TFS_O_CREAT \<noteq> 0 then a_create c (tl (the path)) a else (-1, a))"

text \<open>The entry of a handle, given as the C program gives it.\<close>

definition a_entry :: "afs \<Rightarrow> int \<Rightarrow> (nat \<times> nat) option" where
  "a_entry a fh = (if fh < 0 then None else a_handles a (nat fh))"

definition a_close :: "int \<Rightarrow> afs \<Rightarrow> int \<times> afs" where
  "a_close fh a =
     (case a_entry a fh of None \<Rightarrow> (-1, a)
      | Some _ \<Rightarrow> (0, a\<lparr>a_handles := (a_handles a)(nat fh := None)\<rparr>))"

text \<open>The files that occupy a block.\<close>

definition a_filled :: "afs \<Rightarrow> nat set" where
  "a_filled a = {i. a_data a i \<noteq> None \<and> a_data a i \<noteq> Some []}"

definition a_write :: "caps \<Rightarrow> int \<Rightarrow> u8 list \<Rightarrow> afs \<Rightarrow> int \<times> afs" where
  "a_write c fh bytes a =
     (case a_entry a fh of
        None \<Rightarrow> (-1, a)
      | Some (i, off) \<Rightarrow>
          let n = min (length bytes) (c_bsize c - off); d = the (a_data a i) in
          if n = 0 then (0, a)
          else if d = [] \<and> c_blocks c \<le> Suc (card (a_filled a)) then (-1, a)
          else (int n, a\<lparr>a_data := (a_data a)(i \<mapsto> patch off (take n bytes) d),
                        a_handles := (a_handles a)(nat fh \<mapsto> (i, off + n))\<rparr>))"

definition a_read :: "int \<Rightarrow> nat \<Rightarrow> afs \<Rightarrow> int \<times> u8 list \<times> afs" where
  "a_read fh n a =
     (case a_entry a fh of
        None \<Rightarrow> (-1, [], a)
      | Some (i, off) \<Rightarrow>
          let bs = take n (drop off (the (a_data a i))) in
          (int (length bs), bs, a\<lparr>a_handles := (a_handles a)(nat fh \<mapsto> (i, off + length bs))\<rparr>))"

definition a_unlink :: "cstring option \<Rightarrow> afs \<Rightarrow> int \<times> afs" where
  "a_unlink path a =
     (if \<not> valid_pathname path then (-1, a)
      else case a_names a (tl (the path)) of
        None \<Rightarrow> (-1, a)
      | Some i \<Rightarrow> (0, a\<lparr>a_names := (a_names a)(tl (the path) := None), a_data := (a_data a)(i := None)\<rparr>))"

section \<open>The abstraction of a state\<close>

definition dir_names :: "dir_entry list \<Rightarrow> cstring \<Rightarrow> nat option" where
  "dir_names d name = (if dir_find d name = -1 then None else Some (nat (dir_find d name)))"

definition fs_abs :: "fs \<Rightarrow> afs" where
  "fs_abs s = \<lparr>a_names = dir_names (root_dir s),
     a_data = (\<lambda>i. if live s i \<and> i \<noteq> 0 then Some (file_data s i) else None),
     a_handles = (\<lambda>h. if h < n_files s \<and> ofree s ! h = TAKEN
        then Some (nat (of_inumber (otab s ! h)), unat (of_offset (otab s ! h))) else None)\<rparr>"

definition fs_caps :: "fs \<Rightarrow> caps" where
  "fs_caps s = \<lparr>c_inodes = n_inodes s, c_blocks = n_blocks s, c_files = n_files s, c_bsize = bsz s\<rparr>"

lemma fs_abs_simps [simp]:
  "a_names (fs_abs s) = dir_names (root_dir s)"
  "a_data (fs_abs s) i = (if live s i \<and> i \<noteq> 0 then Some (file_data s i) else None)"
  "a_handles (fs_abs s) h = (if h < n_files s \<and> ofree s ! h = TAKEN
        then Some (nat (of_inumber (otab s ! h)), unat (of_offset (otab s ! h))) else None)"
  by (simp_all add: fs_abs_def)

lemma fs_caps_simps [simp]:
  "c_inodes (fs_caps s) = n_inodes s" "c_blocks (fs_caps s) = n_blocks s"
  "c_files (fs_caps s) = n_files s" "c_bsize (fs_caps s) = bsz s"
  by (simp_all add: fs_caps_def)

lemma afs_eqI:
  fixes a b :: afs
  assumes "\<And>n. a_names a n = a_names b n" and "\<And>i. a_data a i = a_data b i"
    and "\<And>h. a_handles a h = a_handles b h"
  shows "a = b"
  using assms by (cases a; cases b) (auto simp: fun_eq_iff)

lemma a_entry_abs:
  "a_entry (fs_abs s) fh = (if handle_open s fh
     then Some (nat (of_inumber (otab s ! nat fh)), unat (of_offset (otab s ! nat fh))) else None)"
  by (auto simp: a_entry_def handle_open_def)

section \<open>Counting what is free\<close>

lemma find_map_eq: "find P (map f xs) = map_option f (find (\<lambda>x. P (f x)) xs)"
  by (induction xs) simp_all

lemma first_free_find: "first_free xs = find (\<lambda>i. xs ! i = FREE) [0..<length xs]"
proof (induction xs)
  case Nil
  then show ?case by simp
next
  case (Cons a as)
  have "find (\<lambda>i. (a # as) ! i = FREE) [Suc 0..<Suc (length as)] =
      map_option Suc (find (\<lambda>i. as ! i = FREE) [0..<length as])"
    unfolding map_Suc_upt [symmetric] find_map_eq by simp
  then show ?case using Cons.IH by (cases a) (simp_all add: upt_conv_Cons del: upt_Suc)
qed

lemma first_free_None_nth: "first_free xs = None \<longleftrightarrow> (\<forall>b<length xs. xs ! b = TAKEN)"
proof -
  have "first_free xs = None \<longleftrightarrow> (\<forall>x\<in>set xs. x = TAKEN)"
    by (induction xs) auto
  then show ?thesis by (simp only: all_set_conv_all_nth)
qed

lemma find_inode:
  assumes "root_ok s" and "tables_ok s"
  shows "find (\<lambda>i. a_data (fs_abs s) i = None) [1..<n_inodes s] = first_free (ifree s)"
proof -
  have root: "0 < n_inodes s" "ifree s ! 0 = TAKEN" using assms(1) by (simp_all add: root_ok_def live_def)
  have "find (\<lambda>i. ifree s ! i = FREE) [0..<n_inodes s] = find (\<lambda>i. ifree s ! i = FREE) [1..<n_inodes s]"
    using root by (simp add: upt_conv_Cons)
  also have "\<dots> = find (\<lambda>i. a_data (fs_abs s) i = None) [1..<n_inodes s]"
    by (rule find_cong) (auto simp: live_def)
  finally show ?thesis using first_free_find [of "ifree s"] tables_ok_lengths(2) [OF assms(2)] by simp
qed

lemma find_handle:
  assumes "tables_ok s"
  shows "find (\<lambda>h. a_handles (fs_abs s) h = None) [0..<n_files s] = first_free (ofree s)"
proof -
  have "find (\<lambda>h. ofree s ! h = FREE) [0..<n_files s] = find (\<lambda>h. a_handles (fs_abs s) h = None) [0..<n_files s]"
    by (rule find_cong) auto
  then show ?thesis using first_free_find [of "ofree s"] tables_ok_lengths(6) [OF assms] by simp
qed

lemma all_below_card: "(\<forall>k<n. P k) \<longleftrightarrow> n \<le> card {k. k < n \<and> P k}"
proof
  assume "\<forall>k<n. P k"
  then have "{k. k < n \<and> P k} = {..<n}" by auto
  then show "n \<le> card {k. k < n \<and> P k}" by simp
next
  assume n: "n \<le> card {k. k < n \<and> P k}"
  have "{k. k < n \<and> P k} = {..<n}"
    by (rule card_seteq) (use n in auto)
  then show "\<forall>k<n. P k" by auto
qed

lemma dir_full:
  assumes "dir_ok s"
  shows "dir_index (\<lambda>e. snd e = -1) (root_dir s) = None
    \<longleftrightarrow> max_dir_entries s \<le> card (dom (a_names (fs_abs s)))"
proof -
  let ?d = "root_dir s" and ?U = "{k. k < max_dir_entries s \<and> snd (root_dir s ! k) \<noteq> -1}"
  have inj: "inj_on (\<lambda>k. fst (?d ! k)) ?U"
    using dir_ok_distinct [OF assms] by (intro inj_onI) blast
  have "dom (a_names (fs_abs s)) = (\<lambda>k. fst (?d ! k)) ` ?U"
  proof (intro equalityI subsetI)
    fix n assume "n \<in> dom (a_names (fs_abs s))"
    then have "dir_find ?d n \<noteq> -1" by (auto simp: dir_names_def split: if_splits)
    then obtain k where "k < max_dir_entries s" "snd (?d ! k) \<noteq> -1" "fst (?d ! k) = n"
      using dir_find_found [of ?d n] by auto
    then show "n \<in> (\<lambda>k. fst (?d ! k)) ` ?U" by auto
  next
    fix n assume "n \<in> (\<lambda>k. fst (?d ! k)) ` ?U"
    then obtain k where k: "k < max_dir_entries s" "snd (?d ! k) \<noteq> -1" "fst (?d ! k) = n" by auto
    then have "dir_find ?d n \<noteq> -1" using dir_find_entry [OF assms k(1,2)] by metis
    then show "n \<in> dom (a_names (fs_abs s))" by (auto simp: dir_names_def)
  qed
  then have "card (dom (a_names (fs_abs s))) = card ?U" using card_image [OF inj] by simp
  then show ?thesis
    using all_below_card [of "max_dir_entries s" "\<lambda>k. snd (?d ! k) \<noteq> -1"]
    by (simp add: dir_index_None)
qed

lemma blocks_full:
  assumes "fs_inv s"
  shows "first_free (bfree s) = None \<longleftrightarrow> n_blocks s \<le> Suc (card (a_filled (fs_abs s)))"
proof -
  note v = fs_invD [OF assms]
  let ?O = "{i. live s i \<and> i_size (itab s ! i) \<noteq> 0}"
  let ?B = "{b. b < n_blocks s \<and> bfree s ! b = TAKEN}"
  let ?f = "\<lambda>i. nat (i_data_block (itab s ! i))"
  have own: "\<exists>b. i_data_block (itab s ! i) = int b \<and> b < n_blocks s \<and> bfree s ! b = TAKEN" if "i \<in> ?O" for i
    using inodes_okD(3) [OF v(3), of i] that by simp
  have inj: "inj_on ?f ?O"
  proof (rule inj_onI, rule ccontr)
    fix i j assume ij: "i \<in> ?O" "j \<in> ?O" "?f i = ?f j" "i \<noteq> j"
    then show False
      using blocks_okD [OF v(4), of i j] own [OF ij(1)] own [OF ij(2)] by auto
  qed
  have im: "?f ` ?O = ?B"
  proof (intro equalityI subsetI)
    fix b assume "b \<in> ?f ` ?O"
    then obtain i where i: "i \<in> ?O" "b = ?f i" by blast
    then show "b \<in> ?B" using own [OF i(1)] by auto
  next
    fix b assume "b \<in> ?B"
    then obtain i where "live s i" "i_size (itab s ! i) \<noteq> 0" "i_data_block (itab s ! i) = int b"
      using blocks_ok_owner [OF v(4)] by blast
    then show "b \<in> ?f ` ?O" by (intro image_eqI [of _ _ i]) simp_all
  qed
  have size: "file_data s i = [] \<longleftrightarrow> i_size (itab s ! i) = 0" if "live s i" for i
    using length_file_data [OF assms that] by (metis length_0_conv unat_eq_0)
  have root: "live s 0" "i_size (itab s ! 0) \<noteq> 0"
    using v(2) tables_ok_bounds(5) [OF v(1)] by (auto simp: root_ok_def)
  have O: "?O = insert 0 (a_filled (fs_abs s))"
  proof (rule set_eqI)
    fix i
    show "i \<in> ?O \<longleftrightarrow> i \<in> insert 0 (a_filled (fs_abs s))"
      using size [of i] root by (cases "i = 0") (simp_all add: a_filled_def)
  qed
  have fin: "finite (a_filled (fs_abs s))"
    by (rule finite_subset [of _ "{..<n_inodes s}"]) (auto simp: a_filled_def live_def)
  have "0 \<notin> a_filled (fs_abs s)" by (simp add: a_filled_def)
  then have "card ?B = Suc (card (a_filled (fs_abs s)))"
    using card_image [OF inj] fin unfolding im by (simp add: O)
  moreover have "first_free (bfree s) = None \<longleftrightarrow> (\<forall>b<n_blocks s. bfree s ! b = TAKEN)"
    using first_free_None_nth [of "bfree s"] tables_ok_lengths(4) [OF v(1)] by simp
  ultimately show ?thesis using all_below_card [of "n_blocks s" "\<lambda>b. bfree s ! b = TAKEN"] by simp
qed

section \<open>Looking up in an updated directory\<close>

lemma dir_find_put:
  "k < length d \<Longrightarrow> snd (d ! k) = -1 \<Longrightarrow> dir_find d name = -1 \<Longrightarrow> v \<noteq> -1 \<Longrightarrow>
     dir_find (d[k := (name, v)]) n = (if n = name then v else dir_find d n)"
proof (induction d arbitrary: k)
  case Nil
  then show ?case by simp
next
  case (Cons e d)
  then show ?case by (cases k) (auto split: if_splits)
qed

lemma dir_find_clear_other:
  "k < length d \<Longrightarrow> d ! k = (name, v) \<Longrightarrow> n \<noteq> name \<Longrightarrow> dir_find (d[k := ([], -1)]) n = dir_find d n"
proof (induction d arbitrary: k)
  case Nil
  then show ?case by simp
next
  case (Cons e d)
  then show ?case by (cases k) auto
qed

lemma dir_names_put:
  assumes "k < length d" and "snd (d ! k) = -1" and "dir_find d name = -1"
  shows "dir_names (d[k := (name, int i)]) n = ((dir_names d)(name \<mapsto> i)) n"
proof -
  have "dir_find (d[k := (name, int i)]) n = (if n = name then int i else dir_find d n)"
    by (rule dir_find_put [OF assms]) simp
  then show ?thesis by (cases "n = name") (simp_all add: dir_names_def)
qed

lemma dir_names_clear:
  assumes "dir_ok s" and "k < max_dir_entries s" and "root_dir s ! k = (name, v)" and "v \<noteq> -1"
  shows "dir_names ((root_dir s)[k := ([], -1)]) n = ((dir_names (root_dir s))(name := None)) n"
proof (cases "n = name")
  case True
  have "dir_find ((root_dir s)[k := ([], -1)]) name = -1"
  proof (rule dir_find_unused, intro allI impI)
    fix j assume j: "j < length ((root_dir s)[k := ([], -1)])" "snd ((root_dir s)[k := ([], -1)] ! j) \<noteq> -1"
    then have "j \<noteq> k" using assms(2) by auto
    then show "fst ((root_dir s)[k := ([], -1)] ! j) \<noteq> name"
      using j dir_ok_distinct [OF assms(1), of j k] assms(2-4) by simp
  qed
  then show ?thesis using True by (simp add: dir_names_def)
next
  case False
  then show ?thesis using dir_find_clear_other [of k "root_dir s" name v n] assms(2,3) by (simp add: dir_names_def)
qed

end
