(* ===== verification/Tfs_Refine.thy ===== *)
theory Tfs_Refine
  imports Tfs_Spec
begin

text \<open>
  The refinement: on a state that satisfies the invariant each operation of
  \<open>operations.c\<close> returns what the abstract operation of \<open>Tfs_Spec\<close> returns, and leads to a
  state whose abstraction is the abstract operation's result.
\<close>

section \<open>The abstraction of each update\<close>

definition abs_snd :: "'a \<times> fs \<Rightarrow> 'a \<times> afs" where
  "abs_snd p = (fst p, fs_abs (snd p))"

lemma abs_snd_simps [simp]: "abs_snd (r, s) = (r, fs_abs s)"
  by (simp add: abs_snd_def)

lemma abs_add_handle:
  assumes "tables_ok s" and "h < n_files s"
  shows "fs_abs (add_handle h i off s) =
    (fs_abs s)\<lparr>a_handles := (a_handles (fs_abs s))(h \<mapsto> (i, unat off))\<rparr>"
  using assms tables_ok_lengths [OF assms(1)]
  by (intro afs_eqI) (simp_all add: add_handle_def nth_list_update)

lemma abs_del_handle:
  assumes "tables_ok s"
  shows "fs_abs (del_handle h s) = (fs_abs s)\<lparr>a_handles := (a_handles (fs_abs s))(h := None)\<rparr>"
  using tables_ok_lengths [OF assms]
  by (intro afs_eqI) (auto simp: del_handle_def nth_list_update)

lemma abs_move_handle:
  assumes "tables_ok s" and "h < n_files s" and "ofree s ! h = TAKEN"
  shows "fs_abs (move_handle h off s) = (fs_abs s)\<lparr>a_handles :=
    (a_handles (fs_abs s))(h \<mapsto> (nat (of_inumber (otab s ! h)), unat off))\<rparr>"
  using assms tables_ok_lengths [OF assms(1)]
  by (intro afs_eqI) (simp_all add: move_handle_def nth_list_update)

lemma handles_same:
  assumes "fs_params t = fs_params s" and "ofree t = ofree s" and "otab t = otab s"
  shows "a_handles (fs_abs t) h = a_handles (fs_abs s) h"
  using assms by simp

lemma abs_truncated:
  assumes "fs_inv s" and "live s i" and "i \<noteq> 0"
  shows "fs_abs (truncated mode i s) = (if mode AND TFS_O_TRUNC \<noteq> 0
    then (fs_abs s)\<lparr>a_data := (a_data (fs_abs s))(i \<mapsto> [])\<rparr> else fs_abs s)"
proof -
  have "file_data s i = []" if "i_size (itab s ! i) = 0"
    using that by (simp add: file_data_def)
  then show ?thesis
    using assms truncate_file_views [OF assms]
    by (intro afs_eqI) (auto simp: truncated_def truncate_file_def live_def)
qed

lemma abs_scratch_inode:
  assumes "fs_inv s" and "ifree s ! j = FREE"
  shows "fs_abs (scratch_inode j s) = fs_abs s"
  using scratch_inode_same(2-4) [OF assms]
  by (intro afs_eqI) (auto simp: scratch_inode_def live_def)

lemma abs_create_file:
  assumes inv: "fs_inv s" and i: "i < n_inodes s" "ifree s ! i = FREE"
    and k: "k < max_dir_entries s" "snd (root_dir s ! k) = -1" and first: "\<forall>j<k. snd (root_dir s ! j) \<noteq> -1"
    and name: "is_cstring name" "length name \<le> 39" and new: "dir_find (root_dir s) name = -1"
  shows "fs_abs (create_file i k name s) = (fs_abs s)\<lparr>a_names := (a_names (fs_abs s))(name \<mapsto> i),
    a_data := (a_data (fs_abs s))(i \<mapsto> [])\<rparr>"
proof (rule afs_eqI)
  note w = create_file_views [OF inv i k(1) first name]
  have i0: "i \<noteq> 0" by (rule free_not_root [OF fs_invD(2) [OF inv] i(2)])
  show "a_names (fs_abs (create_file i k name s)) n = a_names ((fs_abs s)\<lparr>a_names := (a_names (fs_abs s))(name \<mapsto> i),
    a_data := (a_data (fs_abs s))(i \<mapsto> [])\<rparr>) n" for n
    using dir_names_put [of k "root_dir s" name i n] k new w(1) by simp
  show "a_data (fs_abs (create_file i k name s)) j = a_data ((fs_abs s)\<lparr>a_names := (a_names (fs_abs s))(name \<mapsto> i),
    a_data := (a_data (fs_abs s))(i \<mapsto> [])\<rparr>) j" for j
    using w(4-6) i0 by (cases "j = i") auto
  show "a_handles (fs_abs (create_file i k name s)) h = a_handles ((fs_abs s)\<lparr>a_names := (a_names (fs_abs s))(name \<mapsto> i),
    a_data := (a_data (fs_abs s))(i \<mapsto> [])\<rparr>) h" for h
    by (simp add: create_file_def)
qed

lemma abs_write_file:
  assumes inv: "fs_inv s" and i: "live s i" "i \<noteq> 0" and b: "write_target s i b"
    and off: "off \<le> unat (i_size (itab s ! i))" "off + length bytes \<le> bsz s"
    and sz: "unat sz = max (unat (i_size (itab s ! i))) (off + length bytes)"
  shows "fs_abs (write_file i b off bytes sz s) =
    (fs_abs s)\<lparr>a_data := (a_data (fs_abs s))(i \<mapsto> patch off bytes (file_data s i))\<rparr>"
  using write_file_views [OF assms] i
  by (intro afs_eqI) (auto simp: write_file_def)

lemma abs_delete_file:
  assumes inv: "fs_inv s" and i: "live s i" "i \<noteq> 0" and k: "k < max_dir_entries s"
    and entry: "root_dir s ! k = (name, int i)"
  shows "fs_abs (delete_file i k s) = (fs_abs s)\<lparr>a_names := (a_names (fs_abs s))(name := None),
    a_data := (a_data (fs_abs s))(i := None)\<rparr>"
proof (rule afs_eqI)
  note w = delete_file_views [OF inv i k]
  show "a_names (fs_abs (delete_file i k s)) n = a_names ((fs_abs s)\<lparr>a_names := (a_names (fs_abs s))(name := None),
    a_data := (a_data (fs_abs s))(i := None)\<rparr>) n" for n
    using dir_names_clear [OF fs_invD(5) [OF inv] k entry, of n] w(1) by simp
  show "a_data (fs_abs (delete_file i k s)) j = a_data ((fs_abs s)\<lparr>a_names := (a_names (fs_abs s))(name := None),
    a_data := (a_data (fs_abs s))(i := None)\<rparr>) j" for j
    using w(3,4) by (cases "j = i") auto
  show "a_handles (fs_abs (delete_file i k s)) h = a_handles ((fs_abs s)\<lparr>a_names := (a_names (fs_abs s))(name := None),
    a_data := (a_data (fs_abs s))(i := None)\<rparr>) h" for h
    by (simp add: delete_file_def)
qed

section \<open>Open\<close>

lemma abs_open_handle:
  assumes "tables_ok s"
  shows "abs_snd (open_handle i off s) = a_open_handle (fs_caps s) i (unat off) (fs_abs s)"
proof (cases "first_free (ofree s)")
  case None
  then show ?thesis using find_handle [OF assms] by (simp add: open_handle_def a_open_handle_def)
next
  case (Some h)
  then have "h < n_files s" using first_free_SomeD tables_ok_lengths(6) [OF assms] by fastforce
  then show ?thesis
    using Some find_handle [OF assms] abs_add_handle [OF assms, of h i off]
    by (simp add: open_handle_def a_open_handle_def)
qed

lemma fs_caps_same: "fs_params t = fs_params s \<Longrightarrow> fs_caps t = fs_caps s"
  by (simp add: fs_caps_def)

lemma abs_open_new:
  assumes inv: "fs_inv s" and name: "name \<noteq> []" "is_cstring name" and new: "dir_find (root_dir s) name = -1"
  shows "abs_snd (open_new name s) = a_create (fs_caps s) name (fs_abs s)"
proof (cases "first_free (ifree s)")
  case None
  then show ?thesis using find_inode [OF fs_invD(2,1) [OF inv]] by (simp add: open_new_def a_create_def)
next
  case (Some i)
  note v = fs_invD [OF inv]
  have i: "i < n_inodes s" "ifree s ! i = FREE"
    using first_free_SomeD [OF Some] tables_ok_lengths(2) [OF v(1)] by auto
  have find: "find (\<lambda>i. a_data (fs_abs s) i = None) [1..<c_inodes (fs_caps s)] = Some i"
    using find_inode [OF v(2,1)] Some by simp
  have mx: "max_dir_entries s = c_bsize (fs_caps s) div 44" by (simp add: max_dir_entries_def)
  show ?thesis
  proof (cases "length name > 39 \<or> dir_index (\<lambda>e. snd e = -1) (root_dir s) = None")
    case True
    then have "abs_snd (open_new name s) = (-1, fs_abs s)"
      using abs_scratch_inode [OF inv i(2)] Some by (auto simp: open_new_def)
    moreover have "length name > 39 \<or> c_bsize (fs_caps s) div 44 \<le> card (dom (a_names (fs_abs s)))"
      using True unfolding dir_full [OF v(5)] mx .
    ultimately show ?thesis unfolding a_create_def find by simp
  next
    case False
    then obtain k where k: "dir_index (\<lambda>e. snd e = -1) (root_dir s) = Some k" by blast
    note ks = dir_index_SomeD [OF k]
    have len: "length name \<le> 39" and km: "k < max_dir_entries s" "snd (root_dir s ! k) = -1"
      and first: "\<forall>j<k. snd (root_dir s ! j) \<noteq> -1"
      using False ks by auto
    have nfull: "\<not> (length name > 39 \<or> c_bsize (fs_caps s) div 44 \<le> card (dom (a_names (fs_abs s))))"
      using False unfolding dir_full [OF v(5)] mx .
    have tables: "tables_ok (create_file i k name s)"
      using fs_inv_create_file [OF inv i km first name(2) len name(1) new] by (rule fs_invD)
    have caps: "fs_caps (create_file i k name s) = fs_caps s"
      by (rule fs_caps_same) (simp add: create_file_def)
    have "abs_snd (open_new name s) = abs_snd (open_handle i 0 (create_file i k name s))"
      using False Some k by (simp add: open_new_def)
    also have "\<dots> = a_open_handle (fs_caps s) i 0 (fs_abs (create_file i k name s))"
      using abs_open_handle [OF tables, of i 0] caps by simp
    also have "\<dots> = a_create (fs_caps s) name (fs_abs s)"
      unfolding a_create_def find abs_create_file [OF inv i km first name(2) len new] using nfull by simp
    finally show ?thesis .
  qed
qed

lemma abs_open_result:
  assumes inv: "fs_inv s" and name: "name \<noteq> []" "is_cstring name"
  shows "abs_snd (open_result name mode s) = a_open (fs_caps s) (Some (47 # name)) mode (fs_abs s)"
proof -
  note v = fs_invD [OF inv]
  have valid: "valid_pathname (Some (47 # name))" using name(1) by (simp add: valid_path_iff)
  show ?thesis
  proof (cases "dir_find (root_dir s) name = -1")
    case True
    then show ?thesis
      using abs_open_new [OF inv name True]
      by (simp add: open_result_def a_open_def valid dir_names_def Let_def)
  next
    case False
    then obtain i where i: "dir_find (root_dir s) name = int i" "i \<noteq> 0" "live s i"
      using dir_find_root [OF v(5)] by metis
    let ?t = "truncated mode i s"
    have t: "fs_abs ?t = (if mode AND TFS_O_TRUNC \<noteq> 0
        then (fs_abs s)\<lparr>a_data := (a_data (fs_abs s))(i \<mapsto> [])\<rparr> else fs_abs s)"
      by (rule abs_truncated [OF inv i(3,2)])
    have size: "unat (i_size (itab ?t ! i)) = length (the (a_data (fs_abs ?t) i))"
    proof (cases "mode AND TFS_O_TRUNC \<noteq> 0 \<and> i_size (itab s ! i) \<noteq> 0")
      case True
      have "i < length (itab s)" using i(3) tables_ok_lengths(1) [OF v(1)] by (simp add: live_def)
      moreover have "a_data (fs_abs ?t) i = Some []" using True by (simp add: t)
      ultimately show ?thesis using True by (simp add: truncated_def truncate_file_def)
    next
      case False
      then have "?t = s" by (auto simp: truncated_def)
      then show ?thesis using i length_file_data [OF inv i(3)] by simp
    qed
    have names: "a_names (fs_abs s) name = Some i" using i by (simp add: dir_names_def)
    have caps: "fs_caps ?t = fs_caps s"
      by (rule fs_caps_same) (simp add: truncated_def truncate_file_def)
    have "abs_snd (open_result name mode s) = a_open_handle (fs_caps s) i
        (if mode AND TFS_O_APPEND \<noteq> 0 then length (the (a_data (fs_abs ?t) i)) else 0) (fs_abs ?t)"
      using abs_open_handle [OF tables_ok_truncated [OF v(1)], of i _ mode i] caps size i(1)
      by (simp add: open_result_def Let_def)
    then show ?thesis
      unfolding a_open_def using valid names by (simp add: t Let_def)
  qed
qed

section \<open>Close, write, read, unlink\<close>

lemma abs_write_result:
  assumes inv: "fs_inv s" and i: "live s i" "i \<noteq> 0" and h: "handle_open s fh" "of_inumber (otab s ! nat fh) = int i"
    and off: "unat (of_offset (otab s ! nat fh)) \<le> unat (i_size (itab s ! i))"
      "unat (of_offset (otab s ! nat fh)) + length bytes \<le> bsz s"
    and bytes: "bytes \<noteq> []"
  shows "abs_snd (write_result (nat fh) i bytes s) =
    (if file_data s i = [] \<and> n_blocks s \<le> Suc (card (a_filled (fs_abs s))) then (-1, fs_abs s)
     else (int (length bytes), (fs_abs s)\<lparr>
       a_data := (a_data (fs_abs s))(i \<mapsto> patch (unat (of_offset (otab s ! nat fh))) bytes (file_data s i)),
       a_handles := (a_handles (fs_abs s))(nat fh \<mapsto> (i, unat (of_offset (otab s ! nat fh)) + length bytes))\<rparr>))"
proof -
  have full: "target_block s i = None \<longleftrightarrow> file_data s i = [] \<and> n_blocks s \<le> Suc (card (a_filled (fs_abs s)))"
    using blocks_full [OF inv] length_file_data [OF inv i(1)] by (auto simp: target_block_def unat_eq_0)
  show ?thesis
  proof (cases "target_block s i")
    case None
    then show ?thesis using full by (simp add: write_result_def)
  next
    case (Some b)
    note wt = target_block_write_target [OF inv i(1) Some]
    note z = write_result_sizes [OF inv off(2)]
    note w = fs_inv_write_file [OF inv i wt off z(2) bytes] abs_write_file [OF inv i wt off z(2)]
    have n: "nat fh < n_files s" "ofree s ! nat fh = TAKEN" using h(1) by (simp_all add: handle_open_def)
    let ?t = "write_file i b (unat (of_offset (otab s ! nat fh))) bytes
      (max (i_size (itab s ! i)) (of_offset (otab s ! nat fh) + of_nat (length bytes))) s"
    have "nat fh < n_files ?t" "ofree ?t ! nat fh = TAKEN" "otab ?t = otab s"
      using n by (simp_all add: write_file_def)
    then have "fs_abs (move_handle (nat fh) off' ?t) = (fs_abs ?t)\<lparr>a_handles :=
        (a_handles (fs_abs ?t))(nat fh \<mapsto> (i, unat off'))\<rparr>" for off'
      using abs_move_handle [OF fs_invD(1) [OF w(1)], of "nat fh" off'] h(2) by simp
    moreover have "a_handles (fs_abs ?t) = a_handles (fs_abs s)"
      by (rule ext) (simp add: write_file_def)
    ultimately show ?thesis
      using full Some z(1) w(2) by (simp add: write_result_def Let_def)
  qed
qed

lemma abs_tfs_open:
  assumes "fs_inv s" and "pred_option is_cstring path"
  shows "bindE (tfs_open_body path mode s) (\<lambda>p. Inr (abs_snd p)) = Inr (a_open (fs_caps s) path mode (fs_abs s))"
proof (cases "valid_pathname path")
  case True
  then obtain name where n: "path = Some (47 # name)" "name \<noteq> []"
    by (cases path) (auto simp: valid_path_iff, simp add: valid_pathname_def)
  moreover have "is_cstring name" using assms(2) n(1) by (simp add: is_cstring_def)
  ultimately show ?thesis using abs_open_result [OF assms(1)] tfs_open_body_eq [OF assms(1)] by simp
next
  case False
  then show ?thesis by (simp add: tfs_open_body_invalid a_open_def)
qed

lemma abs_tfs_close:
  assumes "fs_inv s"
  shows "bindE (tfs_close_body fh s) (\<lambda>p. Inr (abs_snd p)) = Inr (a_close fh (fs_abs s))"
proof -
  note t = fs_invD(1) [OF assms]
  show ?thesis using abs_del_handle [OF t] tfs_close_body_eq [OF t] by (simp add: a_close_def a_entry_abs)
qed

lemma a_write_entry:
  assumes "a_entry a fh = Some (i, off)" and "n = min (length bytes) (c_bsize c - off)" and "a_data a i = Some d"
  shows "a_write c fh bytes a =
    (if n = 0 then (0, a)
     else if d = [] \<and> c_blocks c \<le> Suc (card (a_filled a)) then (-1, a)
     else (int n, a\<lparr>a_data := (a_data a)(i \<mapsto> patch off (take n bytes) d),
                   a_handles := (a_handles a)(nat fh \<mapsto> (i, off + n))\<rparr>))"
  unfolding a_write_def assms option.simps prod.case Let_def option.sel by (rule refl)

lemma abs_tfs_write:
  assumes inv: "fs_inv s" and n: "unat n \<le> length buffer" "unat n < 2 ^ 63"
  shows "bindE (tfs_write_body fh buffer n s) (\<lambda>p. Inr (abs_snd p)) =
    Inr (a_write (fs_caps s) fh (take (unat n) buffer) (fs_abs s))"
proof (cases "handle_open s fh")
  case False
  then show ?thesis using tfs_write_body_closed [OF fs_invD(1) [OF inv]] by (simp add: a_write_def a_entry_abs)
next
  case True
  obtain i where i: "of_inumber (otab s ! nat fh) = int i" "i \<noteq> 0" "live s i"
    "unat (of_offset (otab s ! nat fh)) \<le> unat (i_size (itab s ! i))" "unat (i_size (itab s ! i)) \<le> bsz s"
    using open_handle_file [OF inv True] by metis
  let ?m = "write_len (nat fh) (unat n) s" and ?off = "unat (of_offset (otab s ! nat fh))"
  have m: "?m = min (length (take (unat n) buffer)) (bsz s - ?off)" using n(1) by (simp add: write_len_def)
  have tk: "take ?m buffer = take ?m (take (unat n) buffer)" by (simp add: write_len_def min_def)
  have data: "a_data (fs_abs s) i = Some (file_data s i)" using i by simp
  note run = tfs_write_body_eq [OF inv True i(1) n]
  show ?thesis
  proof (cases "?m = 0")
    case True
    then show ?thesis using run m i(1) \<open>handle_open s fh\<close> by (simp add: a_write_def a_entry_abs Let_def)
  next
    case False
    have lm: "length (take ?m buffer) = ?m" using n(1) by (simp add: write_len_def)
    have "take ?m buffer \<noteq> []" using False lm by auto
    moreover have "?off + length (take ?m buffer) \<le> bsz s"
    proof -
      have "?m \<le> bsz s - ?off" by (simp add: write_len_def)
      then show ?thesis unfolding lm using i(4,5) by linarith
    qed
    ultimately have w: "abs_snd (write_result (nat fh) i (take ?m buffer) s) =
      (if file_data s i = [] \<and> n_blocks s \<le> Suc (card (a_filled (fs_abs s))) then (-1, fs_abs s)
       else (int ?m, (fs_abs s)\<lparr>a_data := (a_data (fs_abs s))(i \<mapsto> patch ?off (take ?m buffer) (file_data s i)),
         a_handles := (a_handles (fs_abs s))(nat fh \<mapsto> (i, ?off + ?m))\<rparr>))"
      using abs_write_result [OF inv i(3,2) \<open>handle_open s fh\<close> i(1,4)] lm by simp
    have e: "a_entry (fs_abs s) fh = Some (i, ?off)" using \<open>handle_open s fh\<close> i(1) by (simp add: a_entry_abs)
    have m': "?m = min (length (take (unat n) buffer)) (c_bsize (fs_caps s) - ?off)" using m by simp
    have "a_write (fs_caps s) fh (take (unat n) buffer) (fs_abs s) = abs_snd (write_result (nat fh) i (take ?m buffer) s)"
      unfolding w a_write_entry [OF e m' data] using False tk by simp
    then show ?thesis using run False by simp
  qed
qed

text \<open>A read also fills the front of the caller's buffer, and leaves the rest of it alone.\<close>

lemma abs_tfs_read:
  assumes inv: "fs_inv s" and n: "unat n \<le> length buffer"
  shows "\<exists>r bs t. tfs_read_body fh n (buffer, s) = Inr (r, patch 0 bs buffer, t)
    \<and> (r, bs, fs_abs t) = a_read fh (unat n) (fs_abs s)"
proof (cases "handle_open s fh")
  case False
  then show ?thesis
    using tfs_read_body_closed [OF fs_invD(1) [OF inv] False, of n buffer]
    by (intro exI [of _ "-1"] exI [of _ "[]"] exI [of _ s]) (simp add: a_read_def a_entry_abs patch_def)
next
  case True
  obtain i where i: "of_inumber (otab s ! nat fh) = int i" "i \<noteq> 0" "live s i"
    "unat (of_offset (otab s ! nat fh)) \<le> unat (i_size (itab s ! i))"
    using open_handle_file [OF inv True] by metis
  let ?h = "nat fh" and ?off = "of_offset (otab s ! nat fh)"
  let ?bs = "read_bytes ?h i (unat n) s"
  let ?t = "move_handle ?h (?off + of_nat (length ?bs)) s"
  have h: "?h < n_files s" "ofree s ! ?h = TAKEN" using True by (simp_all add: handle_open_def)
  have "unat ?off + length ?bs \<le> unat (i_size (itab s ! i))"
    using i(4) by (simp add: length_read_bytes [OF inv i(3)])
  also have "\<dots> < 2 ^ 64" using unsigned_less [of "i_size (itab s ! i)"] by simp
  finally have "unat (?off + of_nat (length ?bs)) = unat ?off + length ?bs"
    by (simp add: unat_word_ariths unat_of_nat)
  then have "(int (length ?bs), ?bs, fs_abs ?t) = a_read fh (unat n) (fs_abs s)"
    using abs_move_handle [OF fs_invD(1) [OF inv] h] True i
    by (simp add: a_read_def a_entry_abs Let_def read_bytes_def)
  then show ?thesis
    using tfs_read_body_eq [OF inv True i(1) n] unfolding read_result_def Let_def by blast
qed

lemma abs_tfs_unlink:
  assumes "fs_inv s" and "pred_option is_cstring path"
  shows "bindE (tfs_unlink_body path s) (\<lambda>p. Inr (abs_snd p)) = Inr (a_unlink path (fs_abs s))"
proof (cases "valid_pathname path")
  case True
  note v = fs_invD [OF assms(1)]
  obtain name where n: "path = Some (47 # name)" "name \<noteq> []"
    using True by (cases path) (auto simp: valid_path_iff, simp add: valid_pathname_def)
  have nc: "is_cstring name" using assms(2) n(1) by (simp add: is_cstring_def)
  have run: "tfs_unlink_body path s = Inr (unlink_result name s)"
    using tfs_unlink_body_eq [OF assms(1) n(2) nc] n(1) by simp
  show ?thesis
  proof (cases "dir_find (root_dir s) name = -1")
    case True
    then show ?thesis using run n
      by (simp add: unlink_result_def a_unlink_def valid_path_iff dir_names_def Let_def split: option.splits)
  next
    case False
    obtain k where k: "dir_index (\<lambda>e. fst e = name) (root_dir s) = Some k" "k < max_dir_entries s"
      "root_dir s ! k = (name, dir_find (root_dir s) name)"
      using unlink_entry [OF v(5) n(2) False] by metis
    obtain i where i: "dir_find (root_dir s) name = int i" "i \<noteq> 0" "live s i"
      using dir_find_root [OF v(5) False] by metis
    have "root_dir s ! k = (name, int i)" using k(3) i(1) by simp
    from abs_delete_file [OF assms(1) i(3,2) k(2) this] show ?thesis
      using run n k(1) i(1) by (simp add: unlink_result_def a_unlink_def valid_path_iff dir_names_def)
  qed
next
  case False
  then show ?thesis by (simp add: tfs_unlink_body_invalid a_unlink_def)
qed

end
