(* ===== verification/Simulation.thy ===== *)
theory Simulation
  imports Prelude
begin

text \<open>
  What it means for a component to implement a specification, as an interface: requests
  are served one after the other, each returning an output and a new state or a fault, and
  a specification serves the same requests on an abstract state. The caller's duty is a
  condition on the request and the abstract state, so that it speaks of the specification
  only. The file system, the queue, the broker's handlers and the whole server are
  interpretations.
\<close>

section \<open>Serving a list of requests\<close>

fun run_all :: "('r \<Rightarrow> 's \<Rightarrow> ('o \<times> 's) res) \<Rightarrow> 'r list \<Rightarrow> 's \<Rightarrow> ('o list \<times> 's) res" where
  "run_all step [] s = Inr ([], s)"
| "run_all step (r # rs) s =
     bindE (step r s) (\<lambda>(x, s). bindE (run_all step rs s) (\<lambda>(xs, s). Inr (x # xs, s)))"

fun spec_all :: "('r \<Rightarrow> 'a \<Rightarrow> 'o \<times> 'a) \<Rightarrow> 'r list \<Rightarrow> 'a \<Rightarrow> 'o list \<times> 'a" where
  "spec_all astep [] a = ([], a)"
| "spec_all astep (r # rs) a =
     (case astep r a of (x, a) \<Rightarrow> case spec_all astep rs a of (xs, a) \<Rightarrow> (x # xs, a))"

text \<open>The caller keeps its duty all along.\<close>

fun duty_all :: "('r \<Rightarrow> 'a \<Rightarrow> 'o \<times> 'a) \<Rightarrow> ('r \<Rightarrow> 'a \<Rightarrow> bool) \<Rightarrow> 'r list \<Rightarrow> 'a \<Rightarrow> bool" where
  "duty_all astep duty [] a \<longleftrightarrow> True"
| "duty_all astep duty (r # rs) a \<longleftrightarrow> duty r a \<and> duty_all astep duty rs (snd (astep r a))"

section \<open>The interface\<close>

locale simulation =
  fixes inv :: "'s \<Rightarrow> bool"
    and abstr :: "'s \<Rightarrow> 'a"
    and duty :: "'r \<Rightarrow> 'a \<Rightarrow> bool"
    and step :: "'r \<Rightarrow> 's \<Rightarrow> ('o \<times> 's) res"
    and astep :: "'r \<Rightarrow> 'a \<Rightarrow> 'o \<times> 'a"
  assumes simulates: "inv s \<Longrightarrow> duty r (abstr s) \<Longrightarrow>
      \<exists>x t. step r s = Inr (x, t) \<and> inv t \<and> astep r (abstr s) = (x, abstr t)"
begin

lemma step_total: "inv s \<Longrightarrow> duty r (abstr s) \<Longrightarrow> step r s \<noteq> Inl e"
  using simulates by force

lemma step_inv: "inv s \<Longrightarrow> duty r (abstr s) \<Longrightarrow> step r s = Inr (x, t) \<Longrightarrow> inv t"
  using simulates by force

lemma step_spec: "inv s \<Longrightarrow> duty r (abstr s) \<Longrightarrow> step r s = Inr (x, t) \<Longrightarrow> astep r (abstr s) = (x, abstr t)"
  using simulates by force

lemma run_simulates:
  "inv s \<Longrightarrow> duty_all astep duty rs (abstr s) \<Longrightarrow>
     \<exists>xs t. run_all step rs s = Inr (xs, t) \<and> inv t \<and> spec_all astep rs (abstr s) = (xs, abstr t)"
proof (induction rs arbitrary: s)
  case Nil
  then show ?case by simp
next
  case (Cons r rs)
  then obtain x u where u: "step r s = Inr (x, u)" "inv u" "astep r (abstr s) = (x, abstr u)"
    using simulates [of s r] by auto
  with Cons.prems(2) have "duty_all astep duty rs (abstr u)" by simp
  from Cons.IH [OF u(2) this] u show ?case by auto
qed

end

section \<open>Interleaved steps\<close>

text \<open>
  The steps of several threads as a relation, and what every one of them keeps. The queue's
  critical sections and the sections of the broker's sessions are interpretations.
\<close>

locale machine =
  fixes step :: "'s \<Rightarrow> 's \<Rightarrow> bool" and holds :: "'s \<Rightarrow> bool"
  assumes keeps: "step s t \<Longrightarrow> holds s \<Longrightarrow> holds t"
begin

lemma holds_after: "step\<^sup>*\<^sup>* s t \<Longrightarrow> holds s \<Longrightarrow> holds t"
  by (induction rule: rtranclp_induct) (auto intro: keeps)

end

end
