(* ===== verification/Tfs_Run.thy ===== *)
theory Tfs_Run
  imports Tfs_Refine Simulation
begin

text \<open>
  The file system as a server of requests: any sequence of calls, made by any number of
  threads, is a sequence of requests, since every operation holds \<open>g_library_mutex\<close> from
  its first access to the state to its last. The sequence returns what the abstract file
  system returns, and reaches neither an abort nor an undefined access.
\<close>

section \<open>Requests\<close>

datatype tfs_request =
    TOpen "cstring option" u32
  | TClose int
  | TWrite int "u8 list"
  | TRead int size_t "u8 list"
  | TUnlink "cstring option"

text \<open>What the caller sees: the value returned, and its buffer for a read.\<close>

type_synonym tfs_reply = "int \<times> u8 list"

fun tfs_step :: "tfs_request \<Rightarrow> fs \<Rightarrow> (tfs_reply \<times> fs) res" where
  "tfs_step (TOpen path mode) s = bindE (tfs_open mutex_ok path mode s) (\<lambda>(r, s). Inr ((r, []), s))"
| "tfs_step (TClose fh) s = bindE (tfs_close mutex_ok fh s) (\<lambda>(r, s). Inr ((r, []), s))"
| "tfs_step (TWrite fh bytes) s =
     bindE (tfs_write mutex_ok fh bytes (of_nat (length bytes)) s) (\<lambda>(r, s). Inr ((r, []), s))"
| "tfs_step (TRead fh n buffer) s =
     bindE (tfs_read mutex_ok fh n (buffer, s)) (\<lambda>(r, buffer, s). Inr ((r, buffer), s))"
| "tfs_step (TUnlink path) s = bindE (tfs_unlink mutex_ok path s) (\<lambda>(r, s). Inr ((r, []), s))"

fun a_step :: "tfs_request \<Rightarrow> caps \<times> afs \<Rightarrow> tfs_reply \<times> caps \<times> afs" where
  "a_step (TOpen path mode) (c, a) = (case a_open c path mode a of (r, a) \<Rightarrow> ((r, []), c, a))"
| "a_step (TClose fh) (c, a) = (case a_close fh a of (r, a) \<Rightarrow> ((r, []), c, a))"
| "a_step (TWrite fh bytes) (c, a) = (case a_write c fh bytes a of (r, a) \<Rightarrow> ((r, []), c, a))"
| "a_step (TRead fh n buffer) (c, a) =
     (case a_read fh (unat n) a of (r, bs, a) \<Rightarrow> ((r, patch 0 bs buffer), c, a))"
| "a_step (TUnlink path) (c, a) = (case a_unlink path a of (r, a) \<Rightarrow> ((r, []), c, a))"

text \<open>
  The caller's duty. Buffers are as long as the caller says, paths are C strings. A file
  is truncated only while every handle on it is at its start, and removed only while no
  handle is on it.
\<close>

definition all_rewound :: "afs \<Rightarrow> nat \<Rightarrow> bool" where
  "all_rewound a i \<longleftrightarrow> (\<forall>h off. a_handles a h = Some (i, off) \<longrightarrow> off = 0)"

definition none_open :: "afs \<Rightarrow> nat \<Rightarrow> bool" where
  "none_open a i \<longleftrightarrow> (\<forall>h off. a_handles a h \<noteq> Some (i, off))"

fun tfs_duty :: "tfs_request \<Rightarrow> caps \<times> afs \<Rightarrow> bool" where
  "tfs_duty (TOpen path mode) (c, a) \<longleftrightarrow> pred_option is_cstring path \<and>
     (mode AND TFS_O_TRUNC \<noteq> 0 \<longrightarrow> (\<forall>i. a_names a (tl (the path)) = Some i \<longrightarrow> all_rewound a i))"
| "tfs_duty (TClose fh) (c, a) \<longleftrightarrow> True"
| "tfs_duty (TWrite fh bytes) (c, a) \<longleftrightarrow> length bytes < 2 ^ 63"
| "tfs_duty (TRead fh n buffer) (c, a) \<longleftrightarrow> unat n \<le> length buffer"
| "tfs_duty (TUnlink path) (c, a) \<longleftrightarrow> pred_option is_cstring path \<and>
     (\<forall>i. a_names a (tl (the path)) = Some i \<longrightarrow> none_open a i)"

section \<open>The invariant, operation by operation\<close>

lemma mutex_ok_body: "with_library_mutex mutex_ok body s = body s"
proof (cases "body s")
  case (Inr p)
  then show ?thesis by (cases p) (simp add: with_library_mutex_def mutex_ok_def)
qed (simp add: with_library_mutex_def mutex_ok_def)

lemma abs_rewound: "all_rewound (fs_abs s) i \<Longrightarrow> rewound s i"
  unfolding all_rewound_def rewound_def fs_abs_simps
  by (metis nat_int unat_eq_0)

lemma abs_not_open: "none_open (fs_abs s) i \<Longrightarrow> not_open s i"
  unfolding none_open_def not_open_def fs_abs_simps by (metis nat_int)

lemma keep_open:
  assumes inv: "fs_inv s" and path: "pred_option is_cstring path"
    and rew: "\<And>i. mode AND TFS_O_TRUNC \<noteq> 0 \<Longrightarrow> a_names (fs_abs s) (tl (the path)) = Some i \<Longrightarrow> rewound s i"
    and run: "tfs_open_body path mode s = Inr (r, t)"
  shows "fs_inv t"
proof (cases "valid_pathname path")
  case True
  then obtain name where n: "path = Some (47 # name)" "name \<noteq> []"
    by (cases path) (auto simp: valid_path_iff, simp add: valid_pathname_def)
  have nc: "is_cstring name" using path n(1) by (simp add: is_cstring_def)
  have t: "t = snd (open_result name mode s)"
    using run tfs_open_body_eq [OF inv n(2) nc] n(1) by simp
  show ?thesis
  proof (cases "dir_find (root_dir s) name = -1")
    case True
    then show ?thesis
      using inv fs_inv_open_new [OF inv n(2) nc] t by (simp add: open_result_def)
  next
    case False
    then have "a_names (fs_abs s) (tl (the path)) = Some (nat (dir_find (root_dir s) name))"
      using n(1) by (simp add: dir_names_def)
    then show ?thesis using fs_inv_open_result [OF inv n(2) nc rew] t by blast
  qed
next
  case False
  then show ?thesis using run inv by (simp add: tfs_open_body_invalid)
qed

lemma keep_close:
  assumes "fs_inv s" and "tfs_close_body fh s = Inr (r, t)"
  shows "fs_inv t"
  using assms(2) tfs_close_body_eq [OF fs_invD(1) [OF assms(1)], of fh] fs_inv_del_handle [OF assms(1), of "nat fh"] assms(1)
  by (auto split: if_splits)

lemma keep_write:
  assumes inv: "fs_inv s" and n: "unat n \<le> length buffer" "unat n < 2 ^ 63"
    and run: "tfs_write_body fh buffer n s = Inr (r, t)"
  shows "fs_inv t"
proof (cases "handle_open s fh")
  case False
  then show ?thesis using run inv tfs_write_body_closed [OF fs_invD(1) [OF inv]] by simp
next
  case True
  obtain i where i: "of_inumber (otab s ! nat fh) = int i" "i \<noteq> 0" "live s i"
    "unat (of_offset (otab s ! nat fh)) \<le> unat (i_size (itab s ! i))" "unat (i_size (itab s ! i)) \<le> bsz s"
    using open_handle_file [OF inv True] by metis
  let ?m = "write_len (nat fh) (unat n) s"
  have lm: "length (take ?m buffer) = ?m" using n(1) by (simp add: write_len_def)
  have "?m \<le> bsz s - unat (of_offset (otab s ! nat fh))" by (simp add: write_len_def)
  then have fit: "unat (of_offset (otab s ! nat fh)) + length (take ?m buffer) \<le> bsz s"
    unfolding lm using i(4,5) by linarith
  have t: "t = (if ?m = 0 then s else snd (write_result (nat fh) i (take ?m buffer) s))"
    using run tfs_write_body_eq [OF inv True i(1) n] by (simp split: if_splits)
  show ?thesis
  proof (cases "?m = 0")
    case True
    then show ?thesis using t inv by simp
  next
    case False
    then have "take ?m buffer \<noteq> []" using lm by auto
    from fs_inv_write_result [OF inv i(3,2,1,4) fit this] show ?thesis using t False by simp
  qed
qed

lemma keep_read:
  assumes inv: "fs_inv s" and n: "unat n \<le> length buffer"
    and run: "tfs_read_body fh n (buffer, s) = Inr (r, buffer', t)"
  shows "fs_inv t"
proof (cases "handle_open s fh")
  case False
  then show ?thesis using run inv tfs_read_body_closed [OF fs_invD(1) [OF inv]] by simp
next
  case True
  obtain i where i: "of_inumber (otab s ! nat fh) = int i" "live s i"
    "unat (of_offset (otab s ! nat fh)) \<le> unat (i_size (itab s ! i))"
    using open_handle_file [OF inv True] by metis
  have "t = snd (snd (read_result (nat fh) i (unat n) buffer s))"
    using run tfs_read_body_eq [OF inv True i(1) n] by simp
  then show ?thesis using fs_inv_read_result [OF inv i(2,1,3)] by simp
qed

lemma keep_unlink:
  assumes inv: "fs_inv s" and path: "pred_option is_cstring path"
    and closed: "\<And>i. a_names (fs_abs s) (tl (the path)) = Some i \<Longrightarrow> not_open s i"
    and run: "tfs_unlink_body path s = Inr (r, t)"
  shows "fs_inv t"
proof (cases "valid_pathname path")
  case True
  then obtain name where n: "path = Some (47 # name)" "name \<noteq> []"
    by (cases path) (auto simp: valid_path_iff, simp add: valid_pathname_def)
  have nc: "is_cstring name" using path n(1) by (simp add: is_cstring_def)
  have t: "t = snd (unlink_result name s)"
    using run tfs_unlink_body_eq [OF inv n(2) nc] n(1) by simp
  show ?thesis
  proof (cases "dir_find (root_dir s) name = -1")
    case True
    then show ?thesis using inv t by (simp add: unlink_result_def Let_def split: option.splits)
  next
    case False
    then have "a_names (fs_abs s) (tl (the path)) = Some (nat (dir_find (root_dir s) name))"
      using n(1) by (simp add: dir_names_def)
    then show ?thesis using fs_inv_unlink_result [OF inv n(2) closed] t by blast
  qed
next
  case False
  then show ?thesis using run inv by (simp add: tfs_unlink_body_invalid)
qed

section \<open>The limits do not change\<close>

lemma bindE_InrD: "bindE x f = Inr y \<Longrightarrow> \<exists>v. x = Inr v \<and> f v = Inr y"
  by (cases x) simp_all

lemma params_results [simp]:
  "fs_params (snd (open_handle i off s)) = fs_params s"
  "fs_params (truncated mode i s) = fs_params s"
  "fs_params (snd (open_new name s)) = fs_params s"
  "fs_params (snd (write_result h i bytes s)) = fs_params s"
  "fs_params (snd (snd (read_result h i n buffer s))) = fs_params s"
  "fs_params (snd (unlink_result name s)) = fs_params s"
  by (auto simp: open_handle_def add_handle_def truncated_def truncate_file_def open_new_def scratch_inode_def
      create_file_def write_result_def move_handle_def write_file_def read_result_def unlink_result_def
      delete_file_def Let_def split: option.splits)

lemma params_open_result [simp]: "fs_params (snd (open_result name mode s)) = fs_params s"
  by (simp add: open_result_def Let_def)

lemma same_params:
  assumes inv: "fs_inv s"
  shows "pred_option is_cstring path \<Longrightarrow> tfs_open_body path mode s = Inr (r, t) \<Longrightarrow> fs_params t = fs_params s"
    and "tfs_close_body fh s = Inr (r, t) \<Longrightarrow> fs_params t = fs_params s"
    and "unat n \<le> length buffer \<Longrightarrow> unat n < 2 ^ 63 \<Longrightarrow> tfs_write_body fh buffer n s = Inr (r, t) \<Longrightarrow>
      fs_params t = fs_params s"
    and "unat n \<le> length buffer \<Longrightarrow> tfs_read_body fh n (buffer, s) = Inr (r, buffer', t) \<Longrightarrow>
      fs_params t = fs_params s"
    and "pred_option is_cstring path \<Longrightarrow> tfs_unlink_body path s = Inr (r, t) \<Longrightarrow> fs_params t = fs_params s"
proof -
  have path_cases: "\<not> valid_pathname path \<or> (\<exists>name. path = Some (47 # name) \<and> name \<noteq> [] \<and> is_cstring name)"
    if "pred_option is_cstring path"
    using that by (cases path) (auto simp: valid_path_iff is_cstring_def, simp add: valid_pathname_def)
  show "fs_params t = fs_params s" if "pred_option is_cstring path" "tfs_open_body path mode s = Inr (r, t)"
    using path_cases [OF that(1)] that(2) params_open_result [of _ mode s]
    by (auto simp: tfs_open_body_invalid tfs_open_body_eq [OF inv] simp del: params_open_result)
      (metis snd_conv)
  show "fs_params t = fs_params s" if "pred_option is_cstring path" "tfs_unlink_body path s = Inr (r, t)"
    using path_cases [OF that(1)] that(2) params_results(6) [of _ s]
    by (auto simp: tfs_unlink_body_invalid tfs_unlink_body_eq [OF inv] simp del: params_results)
      (metis snd_conv)
  show "fs_params t = fs_params s" if "tfs_close_body fh s = Inr (r, t)"
    using that tfs_close_body_eq [OF fs_invD(1) [OF inv], of fh] by (auto simp: del_handle_def split: if_splits)
  show "fs_params t = fs_params s"
    if "unat n \<le> length buffer" "unat n < 2 ^ 63" "tfs_write_body fh buffer n s = Inr (r, t)"
  proof (cases "handle_open s fh")
    case False
    then show ?thesis using that(3) tfs_write_body_closed [OF fs_invD(1) [OF inv]] by simp
  next
    case True
    obtain i where i: "of_inumber (otab s ! nat fh) = int i" using open_handle_file [OF inv True] by metis
    show ?thesis
      using that(3) tfs_write_body_eq [OF inv True i that(1,2)] params_results(4) [of "nat fh" i _ s]
      by (auto split: if_splits simp del: params_results) (metis snd_conv)
  qed
  show "fs_params t = fs_params s"
    if "unat n \<le> length buffer" "tfs_read_body fh n (buffer, s) = Inr (r, buffer', t)"
  proof (cases "handle_open s fh")
    case False
    then show ?thesis using that(2) tfs_read_body_closed [OF fs_invD(1) [OF inv]] by simp
  next
    case True
    obtain i where i: "of_inumber (otab s ! nat fh) = int i" using open_handle_file [OF inv True] by metis
    show ?thesis
      using that(2) tfs_read_body_eq [OF inv True i that(1)] params_results(5) [of "nat fh" i "unat n" buffer s]
      by (simp del: params_results)
  qed
qed

section \<open>The simulation\<close>

definition tfs_abs :: "fs \<Rightarrow> caps \<times> afs" where
  "tfs_abs s = (fs_caps s, fs_abs s)"

text \<open>One request, whatever it is.\<close>

lemma tfs_step_simulates:
  assumes inv: "fs_inv s" and duty: "tfs_duty req (tfs_abs s)"
  shows "\<exists>x t. tfs_step req s = Inr (x, t) \<and> fs_inv t \<and> a_step req (tfs_abs s) = (x, tfs_abs t)"
proof (cases req)
  case (TOpen path mode)
  have path: "pred_option is_cstring path" using duty by (simp add: TOpen tfs_abs_def)
  obtain r t where run: "tfs_open_body path mode s = Inr (r, t)" "a_open (fs_caps s) path mode (fs_abs s) = (r, fs_abs t)"
    using bindE_InrD [OF abs_tfs_open [OF inv path, of mode]] by auto
  have "fs_inv t"
  proof (rule keep_open [OF inv path _ run(1)])
    show "rewound s i" if "mode AND TFS_O_TRUNC \<noteq> 0" "a_names (fs_abs s) (tl (the path)) = Some i" for i
      using duty that by (intro abs_rewound) (simp add: TOpen tfs_abs_def)
  qed
  moreover have "fs_caps t = fs_caps s" using same_params(1) [OF inv path run(1)] by (rule fs_caps_same)
  ultimately show ?thesis using run by (simp add: TOpen tfs_abs_def tfs_open_def mutex_ok_body)
next
  case (TClose fh)
  obtain r t where run: "tfs_close_body fh s = Inr (r, t)" "a_close fh (fs_abs s) = (r, fs_abs t)"
    using bindE_InrD [OF abs_tfs_close [OF inv, of fh]] by auto
  moreover have "fs_caps t = fs_caps s" using same_params(2) [OF inv run(1)] by (rule fs_caps_same)
  ultimately show ?thesis using keep_close [OF inv run(1)] by (simp add: TClose tfs_abs_def tfs_close_def mutex_ok_body)
next
  case (TWrite fh bytes)
  let ?n = "of_nat (length bytes) :: size_t"
  have len: "length bytes < 2 ^ 63" using duty by (simp add: TWrite tfs_abs_def)
  then have n: "unat ?n = length bytes" by (simp add: unat_of_nat)
  then have n': "unat ?n \<le> length bytes" "unat ?n < 2 ^ 63" using len by simp_all
  obtain r t where run: "tfs_write_body fh bytes ?n s = Inr (r, t)" "a_write (fs_caps s) fh bytes (fs_abs s) = (r, fs_abs t)"
    using bindE_InrD [OF abs_tfs_write [OF inv n', of fh]] unfolding n by auto
  moreover have "fs_caps t = fs_caps s" using same_params(3) [OF inv n' run(1)] by (rule fs_caps_same)
  ultimately show ?thesis using keep_write [OF inv n' run(1)] by (simp add: TWrite tfs_abs_def tfs_write_def mutex_ok_body)
next
  case (TRead fh n buffer)
  have len: "unat n \<le> length buffer" using duty by (simp add: TRead tfs_abs_def)
  obtain r bs t where run: "tfs_read_body fh n (buffer, s) = Inr (r, patch 0 bs buffer, t)"
    "(r, bs, fs_abs t) = a_read fh (unat n) (fs_abs s)"
    using abs_tfs_read [OF inv len] by metis
  moreover have "fs_caps t = fs_caps s" using same_params(4) [OF inv len run(1)] by (rule fs_caps_same)
  ultimately show ?thesis using keep_read [OF inv len run(1)]
    by (simp add: TRead tfs_abs_def tfs_read_def mutex_ok_body flip: run(2))
next
  case (TUnlink path)
  have path: "pred_option is_cstring path" using duty by (simp add: TUnlink tfs_abs_def)
  obtain r t where run: "tfs_unlink_body path s = Inr (r, t)" "a_unlink path (fs_abs s) = (r, fs_abs t)"
    using bindE_InrD [OF abs_tfs_unlink [OF inv path]] by auto
  have "fs_inv t"
  proof (rule keep_unlink [OF inv path _ run(1)])
    show "not_open s i" if "a_names (fs_abs s) (tl (the path)) = Some i" for i
      using duty that by (intro abs_not_open) (simp add: TUnlink tfs_abs_def)
  qed
  moreover have "fs_caps t = fs_caps s" using same_params(5) [OF inv path run(1)] by (rule fs_caps_same)
  ultimately show ?thesis using run by (simp add: TUnlink tfs_abs_def tfs_unlink_def mutex_ok_body)
qed

interpretation tfs: simulation fs_inv tfs_abs tfs_duty tfs_step a_step
  by unfold_locales (rule tfs_step_simulates)

end
