(* ===== verification/Tfs_Demo.thy ===== *)
theory Tfs_Demo
  imports Tfs_Run
begin

text \<open>
  A small file system (three inodes, three blocks of 100 bytes, two handles) on memory
  full of garbage, and the states of a short run on it. The properties are applied to it.
\<close>

definition demo_params :: tfs_params where
  "demo_params = \<lparr>max_inode_count = 3, max_block_count = 3, max_open_files_count = 2, block_size = 100\<rparr>"

definition demo_mallocs :: mallocs where
  "demo_mallocs = \<lparr>m_inode_table = Some (replicate 3 \<lparr>i_node_type = T_FILE, i_size = 9, i_data_block = 5\<rparr>),
     m_freeinode_ts = Some (replicate 3 TAKEN), m_fs_data = Some (replicate 300 7),
     m_free_blocks = Some (replicate 3 TAKEN),
     m_open_file_table = Some (replicate 2 \<lparr>of_inumber = 77, of_offset = 88\<rparr>),
     m_free_open_file_entries = Some (replicate 2 TAKEN)\<rparr>"

definition no_fs :: fs where
  "no_fs = \<lparr>fs_params = demo_params, inode_table = None, freeinode_ts = None, fs_data = None,
     free_blocks = None, open_file_table = None, free_open_file_entries = None\<rparr>"

text \<open>The path \<open>/a\<close>.\<close>

definition path_a :: "cstring option" where "path_a = Some [47, 97]"

definition state_after :: "('a \<times> fs) res \<Rightarrow> fs" where
  "state_after x = (case x of Inr (r, s) \<Rightarrow> s | Inl _ \<Rightarrow> no_fs)"

definition demo0 :: fs where "demo0 = state_after (tfs_init (Some demo_params) demo_mallocs no_fs)"
definition demo1 :: fs where "demo1 = state_after (tfs_step (TOpen path_a TFS_O_CREAT) demo0)"
definition demo2 :: fs where "demo2 = state_after (tfs_step (TWrite 0 [104, 105]) demo1)"
definition demo3 :: fs where "demo3 = state_after (tfs_step (TOpen path_a 0) demo2)"

section \<open>The run\<close>

lemma demo_run0: "tfs_init (Some demo_params) demo_mallocs no_fs = Inr (0, demo0)" by code_simp
lemma demo_run1: "tfs_step (TOpen path_a TFS_O_CREAT) demo0 = Inr ((0, []), demo1)" by code_simp
lemma demo_run2: "tfs_step (TWrite 0 [104, 105]) demo1 = Inr ((2, []), demo2)" by code_simp
lemma demo_run3: "tfs_step (TOpen path_a 0) demo2 = Inr ((1, []), demo3)" by code_simp

lemma demo_params_ok:
  "params_ok demo_params" "0 < unat (max_inode_count demo_params)" "0 < unat (max_block_count demo_params)"
  by (simp_all add: params_ok_def demo_params_def)

lemma demo_mallocs_ok: "mallocs_ok demo_params demo_mallocs"
  by (simp add: mallocs_ok_def demo_mallocs_def demo_params_def)

lemma demo_inv0: "fs_inv demo0"
proof -
  have "inode_table no_fs = None" by (simp add: no_fs_def)
  from tfs_init_eq [OF demo_params_ok(1) demo_mallocs_ok this demo_params_ok(2,3)] show ?thesis
    using demo_run0 by (metis Inr_inject prod.inject)
qed

lemma demo_inv1: "fs_inv demo1"
  by (rule tfs.step_inv [OF demo_inv0 _ demo_run1])
    (simp add: tfs_abs_def path_a_def is_cstring_def mode_defs)

lemma demo_inv2: "fs_inv demo2"
  by (rule tfs.step_inv [OF demo_inv1 _ demo_run2]) (simp add: tfs_abs_def)

lemma demo_inv3: "fs_inv demo3"
  by (rule tfs.step_inv [OF demo_inv2 _ demo_run3])
    (simp add: tfs_abs_def path_a_def is_cstring_def mode_defs)

end
