(* ===== verification/Slots.thy ===== *)
theory Slots
  imports Tfs_Prims
begin

text \<open>
  The contract the three allocation maps of \<open>state.c\<close> share: an allocation takes the lowest
  free number or answers \<open>-1\<close> when there is none, a release makes exactly one number free.
  It holds of the data blocks, the inodes (of files) and the open file table.
\<close>

section \<open>Allocating several times\<close>

fun alloc_times :: "('s \<Rightarrow> (int \<times> 's) res) \<Rightarrow> nat \<Rightarrow> 's \<Rightarrow> (int list \<times> 's) res" where
  "alloc_times alloc 0 s = Inr ([], s)"
| "alloc_times alloc (Suc n) s =
     bindE (alloc s) (\<lambda>(r, s). bindE (alloc_times alloc n s) (\<lambda>(rs, s). Inr (r # rs, s)))"

section \<open>The contract\<close>

locale slot_table =
  fixes good :: "'s \<Rightarrow> bool"
    and cap :: "'s \<Rightarrow> nat"
    and used :: "'s \<Rightarrow> nat \<Rightarrow> bool"
    and alloc :: "'s \<Rightarrow> (int \<times> 's) res"
    and release :: "nat \<Rightarrow> 's \<Rightarrow> 's res"
  assumes alloc_full: "good s \<Longrightarrow> \<forall>i<cap s. used s i \<Longrightarrow> alloc s = Inr (-1, s)"
    and alloc_free: "good s \<Longrightarrow> i < cap s \<Longrightarrow> \<not> used s i \<Longrightarrow> \<forall>j<i. used s j \<Longrightarrow>
      \<exists>t. alloc s = Inr (int i, t) \<and> good t \<and> cap t = cap s \<and> (\<forall>j<cap s. used t j \<longleftrightarrow> j = i \<or> used s j)"
    and release_used: "good s \<Longrightarrow> i < cap s \<Longrightarrow> used s i \<Longrightarrow>
      \<exists>t. release i s = Inr t \<and> good t \<and> cap t = cap s \<and> (\<forall>j<cap s. used t j \<longleftrightarrow> used s j \<and> j \<noteq> i)"
begin

definition vacant :: "'s \<Rightarrow> nat set" where
  "vacant s = {i. i < cap s \<and> \<not> used s i}"

lemma finite_vacant: "finite (vacant s)"
  by (simp add: vacant_def)

lemma least_vacant:
  assumes "vacant s \<noteq> {}"
  obtains i where "i < cap s" and "\<not> used s i" and "\<forall>j<i. used s j"
proof -
  define i where "i = (LEAST i. i \<in> vacant s)"
  have "i \<in> vacant s" unfolding i_def using assms by (auto intro: LeastI)
  moreover have "used s j" if "j < i" for j
    using that not_less_Least [of j "\<lambda>i. i \<in> vacant s"] \<open>i \<in> vacant s\<close> unfolding i_def [symmetric]
    by (auto simp: vacant_def)
  ultimately show thesis using that [of i] by (auto simp: vacant_def)
qed

lemma alloc_cases:
  assumes "good s"
  obtains "vacant s = {}" "alloc s = Inr (-1, s)"
  | i t where "alloc s = Inr (int i, t)" "i \<in> vacant s" "\<forall>j\<in>vacant s. i \<le> j"
      "good t" "cap t = cap s" "vacant t = vacant s - {i}"
proof (cases "vacant s = {}")
  case True
  then have "\<forall>i<cap s. used s i" by (auto simp: vacant_def)
  with True show thesis using that(1) alloc_full [OF assms] by blast
next
  case False
  then obtain i where i: "i < cap s" "\<not> used s i" "\<forall>j<i. used s j" using least_vacant by blast
  from alloc_free [OF assms this] obtain t where t: "alloc s = Inr (int i, t)" "good t" "cap t = cap s"
    "\<forall>j<cap s. used t j \<longleftrightarrow> j = i \<or> used s j" by blast
  show thesis
  proof (rule that(2) [OF t(1) _ _ t(2,3)])
    show "i \<in> vacant s" using i by (simp add: vacant_def)
    show "\<forall>j\<in>vacant s. i \<le> j" using i(3) by (auto simp: vacant_def not_less [symmetric])
    show "vacant t = vacant s - {i}" using t(3,4) by (auto simp: vacant_def)
  qed
qed

lemma alloc_release:
  assumes "good s" and "alloc s = Inr (r, t)" and "r \<noteq> -1"
  shows "\<exists>u. release (nat r) t = Inr u \<and> good u \<and> cap u = cap s \<and> (\<forall>j<cap s. used u j = used s j)"
  using assms(1)
proof (cases rule: alloc_cases)
  case 1
  with assms(2,3) show ?thesis by simp
next
  case (2 i t')
  then have t: "t' = t" "r = int i" using assms(2) by simp_all
  have i: "i < cap t" "used t i" "\<not> used s i" using 2(2,5,6) t(1) by (auto simp: vacant_def)
  have other: "used t j = used s j" if "j < cap s" "j \<noteq> i" for j
    using that 2(5,6) t(1) by (auto simp: vacant_def)
  have "good t" "cap t = cap s" using 2(4,5) t(1) by simp_all
  from release_used [OF this(1) i(1,2)] obtain u where
    u: "release i t = Inr u" "good u" "cap u = cap t" "\<forall>j<cap t. used u j \<longleftrightarrow> used t j \<and> j \<noteq> i" by blast
  have "used u j = used s j" if "j < cap s" for j
    using u(4) that \<open>cap t = cap s\<close> other [OF that] i(3) by (cases "j = i") simp_all
  then show ?thesis using u \<open>cap t = cap s\<close> t(2) by auto
qed

text \<open>As long as there are free numbers, successive allocations return distinct ones.\<close>

lemma alloc_times_distinct:
  "good s \<Longrightarrow> n \<le> card (vacant s) \<Longrightarrow>
     \<exists>is t. alloc_times alloc n s = Inr (map int is, t) \<and> length is = n \<and> distinct is
       \<and> set is \<subseteq> vacant s \<and> good t \<and> vacant t = vacant s - set is"
proof (induction n arbitrary: s)
  case 0
  then show ?case by simp
next
  case (Suc n)
  then have ne: "vacant s \<noteq> {}" by auto
  show ?case
    using Suc.prems(1)
  proof (cases rule: alloc_cases)
    case 1
    with ne show ?thesis by simp
  next
    case (2 i u)
    have "n \<le> card (vacant u)" using Suc.prems(2) 2(2,6) finite_vacant by simp
    from Suc.IH [OF 2(4) this] obtain "is" t where
      t: "alloc_times alloc n u = Inr (map int is, t)" "length is = n" "distinct is"
        "set is \<subseteq> vacant u" "good t" "vacant t = vacant u - set is" by blast
    show ?thesis
      using 2 t by (intro exI [of _ "i # is"] exI [of _ t]) auto
  qed
qed

lemma alloc_exhausted: "good s \<Longrightarrow> vacant s = {} \<Longrightarrow> alloc s = Inr (-1, s)"
  using alloc_full by (auto simp: vacant_def)

end

section \<open>The three tables\<close>

lemma first_free_eq: "first_free xs = Some i \<longleftrightarrow> i < length xs \<and> xs ! i = FREE \<and> (\<forall>j<i. xs ! j = TAKEN)"
  using first_free_SomeD first_free_least by blast

lemma first_free_full: "\<forall>i<length xs. xs ! i = TAKEN \<Longrightarrow> first_free xs = None"
  unfolding first_free_None by (metis allocation_state_t.distinct(1) in_set_conv_nth)

interpretation blocks: slot_table tables_ok n_blocks "\<lambda>s b. bfree s ! b = TAKEN" data_block_alloc
  "\<lambda>b. data_block_free (int b)"
proof unfold_locales
  fix s assume "tables_ok s" "\<forall>b<n_blocks s. bfree s ! b = TAKEN"
  then show "data_block_alloc s = Inr (-1, s)"
    by (simp add: data_block_alloc_eq first_free_full tables_ok_lengths)
next
  fix s b assume b: "tables_ok s" "b < n_blocks s" "bfree s ! b \<noteq> TAKEN" "\<forall>j<b. bfree s ! j = TAKEN"
  then have "first_free (bfree s) = Some b" by (simp add: first_free_eq tables_ok_lengths)
  then show "\<exists>t. data_block_alloc s = Inr (int b, t) \<and> tables_ok t \<and> n_blocks t = n_blocks s
      \<and> (\<forall>j<n_blocks s. bfree t ! j = TAKEN \<longleftrightarrow> j = b \<or> bfree s ! j = TAKEN)"
    using b(1,2) tables_ok_lengths(4) [OF b(1)] by (simp add: data_block_alloc_eq nth_list_update)
next
  fix s b assume b: "tables_ok s" "b < n_blocks s" "bfree s ! b = TAKEN"
  then show "\<exists>t. data_block_free (int b) s = Inr t \<and> tables_ok t \<and> n_blocks t = n_blocks s
      \<and> (\<forall>j<n_blocks s. bfree t ! j = TAKEN \<longleftrightarrow> bfree s ! j = TAKEN \<and> j \<noteq> b)"
    using tables_ok_lengths(4) [OF b(1)] by (simp add: data_block_free_eq nth_list_update)
qed

interpretation handles: slot_table tables_ok n_files "\<lambda>s h. ofree s ! h = TAKEN"
  "add_to_open_file_table inum off" "\<lambda>h. remove_from_open_file_table (int h)" for inum off
proof unfold_locales
  fix s assume "tables_ok s" "\<forall>h<n_files s. ofree s ! h = TAKEN"
  then show "add_to_open_file_table inum off s = Inr (-1, s)"
    by (simp add: add_to_open_file_table_eq first_free_full tables_ok_lengths)
next
  fix s h assume h: "tables_ok s" "h < n_files s" "ofree s ! h \<noteq> TAKEN" "\<forall>j<h. ofree s ! j = TAKEN"
  then have "first_free (ofree s) = Some h" by (simp add: first_free_eq tables_ok_lengths)
  then show "\<exists>t. add_to_open_file_table inum off s = Inr (int h, t) \<and> tables_ok t \<and> n_files t = n_files s
      \<and> (\<forall>j<n_files s. ofree t ! j = TAKEN \<longleftrightarrow> j = h \<or> ofree s ! j = TAKEN)"
    using h(1,2) tables_ok_lengths(5,6) [OF h(1)] by (simp add: add_to_open_file_table_eq nth_list_update)
next
  fix s h assume h: "tables_ok s" "h < n_files s" "ofree s ! h = TAKEN"
  then show "\<exists>t. remove_from_open_file_table (int h) s = Inr t \<and> tables_ok t \<and> n_files t = n_files s
      \<and> (\<forall>j<n_files s. ofree t ! j = TAKEN \<longleftrightarrow> ofree s ! j = TAKEN \<and> j \<noteq> h)"
    using tables_ok_lengths(6) [OF h(1)]
    by (simp add: remove_from_open_file_table_eq handle_open_def nth_list_update)
qed

text \<open>The inodes in use that are not empty have a block inside the data area.\<close>

definition inode_blocks_ok :: "fs \<Rightarrow> bool" where
  "inode_blocks_ok s \<longleftrightarrow> tables_ok s \<and> (\<forall>i<n_inodes s. ifree s ! i = TAKEN \<longrightarrow> i_size (itab s ! i) \<noteq> 0 \<longrightarrow>
     (\<exists>b<n_blocks s. i_data_block (itab s ! i) = int b))"

interpretation inodes: slot_table inode_blocks_ok n_inodes "\<lambda>s i. ifree s ! i = TAKEN" "inode_create T_FILE"
  "\<lambda>i. inode_delete (int i)"
proof unfold_locales
  fix s assume "inode_blocks_ok s" "\<forall>i<n_inodes s. ifree s ! i = TAKEN"
  then show "inode_create T_FILE s = Inr (-1, s)"
    by (simp add: inode_blocks_ok_def inode_create_file_eq first_free_full tables_ok_lengths)
next
  fix s i assume i: "inode_blocks_ok s" "i < n_inodes s" "ifree s ! i \<noteq> TAKEN" "\<forall>j<i. ifree s ! j = TAKEN"
  then have t: "tables_ok s" by (simp add: inode_blocks_ok_def)
  note l = tables_ok_lengths [OF t]
  let ?t = "s\<lparr>freeinode_ts := Some ((ifree s)[i := TAKEN]), inode_table := Some ((itab s)[i := new_file])\<rparr>"
  have "first_free (ifree s) = Some i" using i l by (simp add: first_free_eq)
  then have "inode_create T_FILE s = Inr (int i, ?t)" using t by (simp add: inode_create_file_eq)
  moreover have "inode_blocks_ok ?t"
    using i(1,2) t l by (auto simp: inode_blocks_ok_def nth_list_update new_file_def)
  ultimately show "\<exists>t. inode_create T_FILE s = Inr (int i, t) \<and> inode_blocks_ok t \<and> n_inodes t = n_inodes s
      \<and> (\<forall>j<n_inodes s. ifree t ! j = TAKEN \<longleftrightarrow> j = i \<or> ifree s ! j = TAKEN)"
    using l i(2) by (intro exI [of _ ?t]) (simp add: nth_list_update)
next
  fix s i assume i: "inode_blocks_ok s" "i < n_inodes s" "ifree s ! i = TAKEN"
  then have t: "tables_ok s" by (simp add: inode_blocks_ok_def)
  note l = tables_ok_lengths [OF t]
  obtain b where b: "i_size (itab s ! i) \<noteq> 0 \<Longrightarrow> i_data_block (itab s ! i) = int b \<and> b < n_blocks s"
    using i unfolding inode_blocks_ok_def by blast
  let ?t = "s\<lparr>free_blocks := Some (if i_size (itab s ! i) = 0 then bfree s else (bfree s)[b := FREE]),
           freeinode_ts := Some ((ifree s)[i := FREE])\<rparr>"
  have del: "inode_delete (int i) s = Inr ?t" using inode_delete_eq [OF t i(2,3) b] by simp
  have "tables_ok ?t" using t l by simp
  moreover have "ifree s ! j = TAKEN" if "j < n_inodes s" "(ifree s)[i := FREE] ! j = TAKEN" for j
    using that l i(2) by (cases "j = i") simp_all
  ultimately have "inode_blocks_ok ?t" using i(1) by (simp add: inode_blocks_ok_def)
  then show "\<exists>t. inode_delete (int i) s = Inr t \<and> inode_blocks_ok t \<and> n_inodes t = n_inodes s
      \<and> (\<forall>j<n_inodes s. ifree t ! j = TAKEN \<longleftrightarrow> ifree s ! j = TAKEN \<and> j \<noteq> i)"
    using del l i(2) by (intro exI [of _ ?t]) (simp add: nth_list_update)
qed

end
