(* ===== verification/Tfs_Props.thy ===== *)
theory Tfs_Props
  imports Tfs_Demo Slots
begin

text \<open>
  What the file system promises, each property stated on the definitions of
  \<open>Tfs_State\<close> and \<open>Tfs_Ops\<close> and applied to the run of \<open>Tfs_Demo\<close>.
\<close>

section \<open>Whole runs\<close>

definition empty_afs :: afs where
  "empty_afs = \<lparr>a_names = (\<lambda>_. None), a_data = (\<lambda>_. None), a_handles = (\<lambda>_. None)\<rparr>"

definition params_caps :: "tfs_params \<Rightarrow> caps" where
  "params_caps p = \<lparr>c_inodes = unat (max_inode_count p), c_blocks = unat (max_block_count p),
     c_files = unat (max_open_files_count p), c_bsize = unat (block_size p)\<rparr>"

lemma fresh_abs:
  assumes "used_span (root_dir s) = 0" and "\<And>fh. \<not> handle_open s fh" and "\<And>i. live s i \<longleftrightarrow> i = 0"
  shows "fs_abs s = empty_afs"
proof (rule afs_eqI)
  have "dir_find (root_dir s) n = -1" for n
    using used_span_used [of _ "root_dir s"] assms(1) by (intro dir_find_unused) auto
  then show "a_names (fs_abs s) n = a_names empty_afs n" for n
    by (simp add: empty_afs_def dir_names_def)
  show "a_data (fs_abs s) i = a_data empty_afs i" for i by (auto simp: empty_afs_def assms(3))
  show "a_handles (fs_abs s) h = a_handles empty_afs h" for h
    using assms(2) [of "int h"] by (auto simp: empty_afs_def handle_open_def)
qed

lemma tfs_init_abs:
  assumes "params_ok p" and "mallocs_ok p m" and "inode_table s0 = None"
    and "0 < unat (max_inode_count p)" and "0 < unat (max_block_count p)"
  obtains s where "tfs_init (Some p) m s0 = Inr (0, s)" and "fs_inv s" and "tfs_abs s = (params_caps p, empty_afs)"
proof -
  obtain s where s: "tfs_init (Some p) m s0 = Inr (0, s)" "fs_inv s" "fs_params s = p"
    "used_span (root_dir s) = 0" "\<And>fh. \<not> handle_open s fh" "\<And>i. live s i \<longleftrightarrow> i = 0"
    using tfs_init_eq [OF assms] by blast
  then show thesis
    using that fresh_abs [OF s(4-6)] by (simp add: tfs_abs_def fs_caps_def params_caps_def)
qed

text \<open>
  C3. From \<open>tfs_init\<close> on memory that may hold anything, every sequence of calls in which
  the callers keep their duty runs without an abort and without an undefined access, keeps
  the invariant, and returns call by call what the abstract file system returns: blocks,
  inodes, directory bytes and offsets implement the maps from names and handles to bytes.
\<close>

theorem tfs_runs_refine:
  assumes "params_ok p" and "mallocs_ok p m" and "inode_table s0 = None"
    and "0 < unat (max_inode_count p)" and "0 < unat (max_block_count p)"
    and "duty_all a_step tfs_duty rs (params_caps p, empty_afs)"
  shows "\<exists>s xs t. tfs_init (Some p) m s0 = Inr (0, s) \<and> run_all tfs_step rs s = Inr (xs, t) \<and> fs_inv t
    \<and> spec_all a_step rs (params_caps p, empty_afs) = (xs, tfs_abs t)"
proof -
  obtain s where s: "tfs_init (Some p) m s0 = Inr (0, s)" "fs_inv s" "tfs_abs s = (params_caps p, empty_afs)"
    using tfs_init_abs [OF assms(1-5)] by blast
  from tfs.run_simulates [OF s(2), of rs] assms(6) s show ?thesis by auto
qed

lemma no_fs_table: "inode_table no_fs = None"
  by (simp add: no_fs_def)

theorem tfs_runs_refine_witness:
  "\<exists>s xs t. tfs_init (Some demo_params) demo_mallocs no_fs = Inr (0, s)
    \<and> run_all tfs_step [TOpen path_a TFS_O_CREAT, TWrite 0 [104, 105], TRead 0 2 [0, 0]] s = Inr (xs, t) \<and> fs_inv t
    \<and> spec_all a_step [TOpen path_a TFS_O_CREAT, TWrite 0 [104, 105], TRead 0 2 [0, 0]]
        (params_caps demo_params, empty_afs) = (xs, tfs_abs t)"
proof (rule tfs_runs_refine [OF demo_params_ok(1) demo_mallocs_ok no_fs_table demo_params_ok(2,3)])
  have "tfs_duty (TWrite 0 [104, 105]) x" "tfs_duty (TRead 0 2 [0, 0]) x" for x
    by (cases x; simp)+
  then show "duty_all a_step tfs_duty [TOpen path_a TFS_O_CREAT, TWrite 0 [104, 105], TRead 0 2 [0, 0]]
      (params_caps demo_params, empty_afs)"
    by (simp add: path_a_def is_cstring_def mode_defs del: a_step.simps)
qed

text \<open>
  With the default parameters \<open>tfs_init(NULL)\<close> succeeds whenever the six allocations do,
  whatever the memory holds, and the file system it sets up satisfies the invariant, has an
  empty root directory and no open file.
\<close>

theorem tfs_init_default:
  assumes "mallocs_ok tfs_default_params m" and "inode_table s0 = None"
  shows "\<exists>s. tfs_init None m s0 = Inr (0, s) \<and> fs_inv s \<and> fs_abs s = empty_afs"
proof -
  have p: "params_ok tfs_default_params" "0 < unat (max_inode_count tfs_default_params)"
    "0 < unat (max_block_count tfs_default_params)"
    by (simp_all add: params_ok_def tfs_default_params_def)
  obtain s where "tfs_init (Some tfs_default_params) m s0 = Inr (0, s)" "fs_inv s"
    "tfs_abs s = (params_caps tfs_default_params, empty_afs)"
    using tfs_init_abs [OF p(1) assms p(2,3)] by blast
  then show ?thesis by (simp add: tfs_init_def tfs_abs_def)
qed

definition default_mallocs :: mallocs where
  "default_mallocs = \<lparr>m_inode_table = Some (replicate 64 \<lparr>i_node_type = T_FILE, i_size = 9, i_data_block = 5\<rparr>),
     m_freeinode_ts = Some (replicate 64 TAKEN), m_fs_data = Some (replicate 1048576 7),
     m_free_blocks = Some (replicate 1024 TAKEN),
     m_open_file_table = Some (replicate 16 \<lparr>of_inumber = 77, of_offset = 88\<rparr>),
     m_free_open_file_entries = Some (replicate 16 TAKEN)\<rparr>"

theorem tfs_init_default_witness:
  "\<exists>s. tfs_init None default_mallocs no_fs = Inr (0, s) \<and> fs_inv s \<and> fs_abs s = empty_afs"
  by (rule tfs_init_default)
    (simp_all add: mallocs_ok_def default_mallocs_def tfs_default_params_def no_fs_def)

section \<open>One operation at a time\<close>

text \<open>
  C16. \<open>tfs_open\<close> returns the lowest free handle or \<open>-1\<close>, exactly as the abstract operation
  does on every branch: invalid path, unknown name without \<open>TFS_O_CREAT\<close>, no free inode, name
  too long, directory full, no free handle, truncation and append.
\<close>

theorem tfs_open_refines:
  assumes "fs_inv s" and "pred_option is_cstring path"
  shows "\<exists>r t. tfs_open mutex_ok path mode s = Inr (r, t)
    \<and> a_open (fs_caps s) path mode (fs_abs s) = (r, fs_abs t)"
  using bindE_InrD [OF abs_tfs_open [OF assms, of mode]] by (auto simp: tfs_open_def mutex_ok_body)

theorem tfs_open_refines_witness:
  "\<exists>r t. tfs_open mutex_ok path_a TFS_O_TRUNC demo2 = Inr (r, t)
    \<and> a_open (fs_caps demo2) path_a TFS_O_TRUNC (fs_abs demo2) = (r, fs_abs t)"
  by (rule tfs_open_refines [OF demo_inv2]) (simp add: path_a_def is_cstring_def)

text \<open>
  C17. \<open>tfs_write\<close> stores the bytes that fit into the rest of the block at the handle's
  offset, extends the file when it has to, moves the offset, and returns their number; it
  returns \<open>-1\<close> with nothing changed exactly when the handle is not open, or the file is
  empty and every block is taken.
\<close>

theorem tfs_write_refines:
  assumes "fs_inv s" and "unat n \<le> length buffer" and "unat n < 2 ^ 63"
  shows "\<exists>r t. tfs_write mutex_ok fh buffer n s = Inr (r, t) \<and> fs_inv t
    \<and> a_write (fs_caps s) fh (take (unat n) buffer) (fs_abs s) = (r, fs_abs t)"
  using bindE_InrD [OF abs_tfs_write [OF assms, of fh]] keep_write [OF assms]
  by (auto simp: tfs_write_def mutex_ok_body)

theorem tfs_write_refines_witness:
  "\<exists>r t. tfs_write mutex_ok 0 [33, 34] 1 demo2 = Inr (r, t) \<and> fs_inv t
    \<and> a_write (fs_caps demo2) 0 (take (unat (1 :: size_t)) [33, 34]) (fs_abs demo2) = (r, fs_abs t)"
  by (rule tfs_write_refines [OF demo_inv2]) simp_all

text \<open>
  C18. \<open>tfs_read\<close> copies the bytes from the handle's offset on, at most as many as asked for,
  to the front of the caller's buffer, leaves the rest of the buffer alone, moves the offset
  and returns their number: 0 at the end of the file, and \<open>-1\<close> for a handle not open.
\<close>

theorem tfs_read_refines:
  assumes "fs_inv s" and "unat n \<le> length buffer"
  shows "\<exists>r bs t. tfs_read mutex_ok fh n (buffer, s) = Inr (r, patch 0 bs buffer, t) \<and> fs_inv t
    \<and> a_read fh (unat n) (fs_abs s) = (r, bs, fs_abs t)"
proof -
  obtain r bs t where t: "tfs_read_body fh n (buffer, s) = Inr (r, patch 0 bs buffer, t)"
    "(r, bs, fs_abs t) = a_read fh (unat n) (fs_abs s)"
    using abs_tfs_read [OF assms] by metis
  then show ?thesis using keep_read [OF assms t(1)] by (auto simp: tfs_read_def mutex_ok_body)
qed

theorem tfs_read_refines_witness:
  "\<exists>r bs t. tfs_read mutex_ok 1 5 ([1, 2, 3, 4, 5], demo3) = Inr (r, patch 0 bs [1, 2, 3, 4, 5], t) \<and> fs_inv t
    \<and> a_read 1 (unat (5 :: size_t)) (fs_abs demo3) = (r, bs, fs_abs t)"
  by (rule tfs_read_refines [OF demo_inv3]) simp

text \<open>
  C19. \<open>tfs_unlink\<close> removes the name and the file, and returns \<open>-1\<close> with nothing changed for
  a path that is invalid or names no file. The invariant holds afterwards when no handle was
  open on the file.
\<close>

theorem tfs_unlink_refines:
  assumes "fs_inv s" and "pred_option is_cstring path"
    and "\<And>i. a_names (fs_abs s) (tl (the path)) = Some i \<Longrightarrow> not_open s i"
  shows "\<exists>r t. tfs_unlink mutex_ok path s = Inr (r, t) \<and> fs_inv t
    \<and> a_unlink path (fs_abs s) = (r, fs_abs t)"
proof -
  obtain r t where t: "tfs_unlink_body path s = Inr (r, t)" "a_unlink path (fs_abs s) = (r, fs_abs t)"
    using bindE_InrD [OF abs_tfs_unlink [OF assms(1,2)]] by auto
  then show ?thesis using keep_unlink [OF assms t(1)] by (auto simp: tfs_unlink_def mutex_ok_body)
qed

definition demo4 :: fs where "demo4 = state_after (tfs_step (TClose 0) demo2)"

lemma demo_inv4: "fs_inv demo4"
proof -
  have "tfs_step (TClose 0) demo2 = Inr ((0, []), demo4)" by code_simp
  from tfs.step_inv [OF demo_inv2 _ this] show ?thesis by (simp add: tfs_abs_def)
qed

theorem tfs_unlink_refines_witness:
  "\<exists>r t. tfs_unlink mutex_ok path_a demo4 = Inr (r, t) \<and> fs_inv t
    \<and> a_unlink path_a (fs_abs demo4) = (r, fs_abs t)"
proof (rule tfs_unlink_refines [OF demo_inv4])
  have "n_files demo4 = 2" "ofree demo4 = [FREE, FREE]" by code_simp+
  then show "not_open demo4 i" for i by (auto simp: not_open_def numeral_2_eq_2 less_Suc_eq)
qed (simp add: path_a_def is_cstring_def)

text \<open>
  \<open>tfs_close\<close> releases the handle and nothing else, and returns \<open>-1\<close> with nothing changed
  for a handle that is not open, so a second close of the same handle fails.
\<close>

theorem tfs_close_refines:
  assumes "fs_inv s"
  shows "\<exists>r t. tfs_close mutex_ok fh s = Inr (r, t) \<and> fs_inv t \<and> a_close fh (fs_abs s) = (r, fs_abs t)
    \<and> tfs_close mutex_ok fh t = Inr (-1, t)"
proof -
  obtain r t where t: "tfs_close_body fh s = Inr (r, t)" "a_close fh (fs_abs s) = (r, fs_abs t)"
    using bindE_InrD [OF abs_tfs_close [OF assms, of fh]] by auto
  have "\<not> handle_open t fh"
    using t(1) tfs_close_body_eq [OF fs_invD(1) [OF assms], of fh] tables_ok_lengths(6) [OF fs_invD(1) [OF assms]]
    by (auto simp: handle_open_def del_handle_def split: if_splits)
  then show ?thesis
    using t keep_close [OF assms t(1)] tfs_close_body_eq [OF fs_invD(1), of t fh]
    by (auto simp: tfs_close_def mutex_ok_body)
qed

theorem tfs_close_refines_witness:
  "\<exists>r t. tfs_close mutex_ok 1 demo3 = Inr (r, t) \<and> fs_inv t \<and> a_close 1 (fs_abs demo3) = (r, fs_abs t)
    \<and> tfs_close mutex_ok 1 t = Inr (-1, t)"
  by (rule tfs_close_refines [OF demo_inv3])

end
