(* ===== verification/Tfs_Files.thy ===== *)
theory Tfs_Files
  imports Tfs_Props
begin

text \<open>
  Further properties of the file system: what one call does to the files it is not about,
  calls that belong together, allocation, failures, and two runs that break the callers'
  duty and show what the code does then.
\<close>

section \<open>Calls that belong together\<close>

lemma patch_read_back:
  "off \<le> length xs \<Longrightarrow> take (length bs) (drop off (patch off bs xs)) = bs"
  by (simp add: patch_def)

text \<open>
  C20. What one handle has written, another handle at the same place of the same file reads
  back, byte for byte.
\<close>

theorem write_then_read:
  assumes inv: "fs_inv s" and f: "handle_open s f" and g: "handle_open s g" "f \<noteq> g"
    and same: "otab s ! nat f = otab s ! nat g"
    and n: "unat n = length bytes" "length bytes < 2 ^ 63"
    and w: "tfs_write mutex_ok f bytes n s = Inr (r, t)" "0 < r"
    and m: "unat m = nat r" "nat r \<le> length buffer"
  shows "\<exists>u. tfs_read mutex_ok g m (buffer, t) = Inr (r, patch 0 (take (nat r) bytes) buffer, u)"
proof -
  have n': "unat n \<le> length bytes" "unat n < 2 ^ 63" using n by simp_all
  have run: "tfs_write_body f bytes n s = Inr (r, t)" using w(1) by (simp add: tfs_write_def mutex_ok_body)
  have a: "a_write (fs_caps s) f bytes (fs_abs s) = (r, fs_abs t)"
    using abs_tfs_write [OF inv n', of f] run n(1) by simp
  obtain i where i: "of_inumber (otab s ! nat f) = int i" "i \<noteq> 0" "live s i"
    "unat (of_offset (otab s ! nat f)) \<le> unat (i_size (itab s ! i))"
    using open_handle_file [OF inv f] by metis
  let ?off = "unat (of_offset (otab s ! nat f))"
  have ef: "a_entry (fs_abs s) f = Some (i, ?off)" and d: "a_data (fs_abs s) i = Some (file_data s i)"
    using f i by (simp_all add: a_entry_abs)
  have eg: "a_handles (fs_abs s) (nat g) = Some (i, ?off)" and gp: "0 \<le> g" "nat g \<noteq> nat f"
    using f g same i(1) by (auto simp: handle_open_def)
  obtain k where k: "k = min (length bytes) (c_bsize (fs_caps s) - ?off)" by blast
  have ol: "?off \<le> length (file_data s i)" using i(4) length_file_data [OF inv i(3)] by simp
  have out: "r = int k" "fs_abs t = (fs_abs s)\<lparr>a_data := (a_data (fs_abs s))(i \<mapsto> patch ?off (take k bytes) (file_data s i)),
      a_handles := (a_handles (fs_abs s))(nat f \<mapsto> (i, ?off + k))\<rparr>"
    using a a_write_entry [OF ef k d] w(2) by (auto split: if_splits)
  have kl: "length (take k bytes) = k" by (simp add: k)
  have "a_entry (fs_abs t) g = Some (i, ?off)" using eg gp unfolding out(2) by (simp add: a_entry_def)
  moreover have "a_data (fs_abs t) i = Some (patch ?off (take k bytes) (file_data s i))" unfolding out(2) by simp
  moreover from this have "take k (drop ?off (the (a_data (fs_abs t) i))) = take k bytes"
    using patch_read_back [OF ol, of "take k bytes"] kl by (simp del: fs_abs_simps)
  ultimately have rd: "fst (a_read g (unat m) (fs_abs t)) = r" "fst (snd (a_read g (unat m) (fs_abs t))) = take (nat r) bytes"
    using kl m(1) out(1) by (simp_all add: a_read_def Let_def del: fs_abs_simps length_take)
  have "unat m \<le> length buffer" using m by simp
  from abs_tfs_read [OF keep_write [OF inv n' run] this, of g] obtain r' bs u where
    u: "tfs_read_body g m (buffer, t) = Inr (r', patch 0 bs buffer, u)" "(r', bs, fs_abs u) = a_read g (unat m) (fs_abs t)"
    by blast
  then have "r' = r" "bs = take (nat r) bytes" using rd by (metis fst_conv snd_conv)+
  then show ?thesis using u(1) by (auto simp: tfs_read_def mutex_ok_body)
qed

text \<open>Both handles at the start of an empty file.\<close>

definition demo5 :: fs where "demo5 = state_after (tfs_step (TOpen path_a 0) demo1)"

lemma demo_inv5: "fs_inv demo5"
proof -
  have "tfs_step (TOpen path_a 0) demo1 = Inr ((1, []), demo5)" by code_simp
  from tfs.step_inv [OF demo_inv1 _ this] show ?thesis
    by (simp add: tfs_abs_def path_a_def is_cstring_def mode_defs)
qed

lemma demo5_tables: "n_files demo5 = 2" "ofree demo5 = [TAKEN, TAKEN]"
  "otab demo5 = [\<lparr>of_inumber = 1, of_offset = 0\<rparr>, \<lparr>of_inumber = 1, of_offset = 0\<rparr>]"
  by code_simp+

theorem write_then_read_witness:
  "\<exists>t. tfs_write mutex_ok 0 [104, 105] 2 demo5 = Inr (2, t)
    \<and> (\<exists>u. tfs_read mutex_ok 1 2 ([0, 0, 0], t) = Inr (2, patch 0 (take (nat 2) [104, 105]) [0, 0, 0], u))"
proof -
  have w: "tfs_write mutex_ok 0 [104, 105] 2 demo5 = Inr (2, state_after (tfs_write mutex_ok 0 [104, 105] 2 demo5))"
    by code_simp
  have "handle_open demo5 0" "handle_open demo5 1" "otab demo5 ! nat 0 = otab demo5 ! nat 1"
    by (simp_all add: handle_open_def demo5_tables)
  from write_then_read [OF demo_inv5 this(1,2) _ this(3) _ _ w, of 2 "[0, 0, 0]"] w show ?thesis by auto
qed

text \<open>
  C21. A write changes no other file: the directory, the inodes in use, the contents of every
  other inode (the root directory's bytes too) and every other handle are as before.
\<close>

theorem tfs_write_frame:
  assumes inv: "fs_inv s" and fh: "handle_open s fh" "of_inumber (otab s ! nat fh) = int i"
    and n: "unat n \<le> length buffer" "unat n < 2 ^ 63"
    and run: "tfs_write mutex_ok fh buffer n s = Inr (r, t)"
  shows "root_dir t = root_dir s \<and> live t = live s
    \<and> (\<forall>j. j \<noteq> i \<longrightarrow> live s j \<longrightarrow> file_data t j = file_data s j)
    \<and> (\<forall>h. h \<noteq> nat fh \<longrightarrow> a_handles (fs_abs t) h = a_handles (fs_abs s) h)"
proof -
  obtain i' where i': "of_inumber (otab s ! nat fh) = int i'" "i' \<noteq> 0" "live s i'"
    "unat (of_offset (otab s ! nat fh)) \<le> unat (i_size (itab s ! i'))" "unat (i_size (itab s ! i')) \<le> bsz s"
    using open_handle_file [OF inv fh(1)] by metis
  then have i: "i \<noteq> 0" "live s i" "unat (of_offset (otab s ! nat fh)) \<le> unat (i_size (itab s ! i))"
    "unat (i_size (itab s ! i)) \<le> bsz s"
    using fh(2) by simp_all
  let ?m = "write_len (nat fh) (unat n) s"
  have lm: "length (take ?m buffer) = ?m" using n(1) by (simp add: write_len_def)
  have "?m \<le> bsz s - unat (of_offset (otab s ! nat fh))" by (simp add: write_len_def)
  then have fit: "unat (of_offset (otab s ! nat fh)) + length (take ?m buffer) \<le> bsz s"
    unfolding lm using i(3,4) by linarith
  have t: "t = (if ?m = 0 then s else snd (write_result (nat fh) i (take ?m buffer) s))"
    using run tfs_write_body_eq [OF inv fh n] by (simp add: tfs_write_def mutex_ok_body split: if_splits)
  show ?thesis
  proof (cases "?m = 0 \<or> target_block s i = None")
    case True
    then have "t = s" using t by (auto simp: write_result_def)
    then show ?thesis by simp
  next
    case False
    then obtain b where b: "target_block s i = Some b" by blast
    note w = write_file_views [OF inv i(2,1) target_block_write_target [OF inv i(2) b] i(3) fit write_result_sizes(2) [OF inv fit]]
    let ?w = "write_file i b (unat (of_offset (otab s ! nat fh))) (take ?m buffer)
      (max (i_size (itab s ! i)) (of_offset (otab s ! nat fh) + of_nat (length (take ?m buffer)))) s"
    have t': "t = move_handle (nat fh) (of_offset (otab s ! nat fh) + of_nat (length (take ?m buffer))) ?w"
      using False b t by (simp add: write_result_def Let_def)
    have h: "a_handles (fs_abs t) h = a_handles (fs_abs s) h" if "h \<noteq> nat fh" for h
      using that tables_ok_lengths(5) [OF fs_invD(1) [OF inv]] by (simp add: t' move_handle_def write_file_def)
    show ?thesis
      using w(1,3,4) h unfolding t' by (auto simp: move_handle_def fun_eq_iff)
  qed
qed

theorem tfs_write_frame_witness:
  "root_dir demo2 = root_dir demo1 \<and> live demo2 = live demo1 \<and> file_data demo2 0 = file_data demo1 0
    \<and> a_handles (fs_abs demo2) 1 = a_handles (fs_abs demo1) 1"
proof -
  have w: "tfs_write mutex_ok 0 [104, 105] 2 demo1 = Inr (2, demo2)" by code_simp
  have "n_files demo1 = 2" "ofree demo1 = [TAKEN, FREE]" "of_inumber (otab demo1 ! nat 0) = 1" by code_simp+
  then have "handle_open demo1 0" "of_inumber (otab demo1 ! nat 0) = int 1"
    by (simp_all add: handle_open_def)
  moreover have "n_inodes demo1 = 3" "ifree demo1 ! 0 = TAKEN" by code_simp+
  then have "live demo1 0" by (simp add: live_def)
  ultimately show ?thesis using tfs_write_frame [OF demo_inv1 _ _ _ _ w, of 1] by simp
qed

text \<open>
  C22. Creating a file succeeds exactly when the name has at most 39 bytes, an inode is free
  and a directory entry is free; \<open>tfs_open\<close> then returns a handle exactly when one is free
  as well. When none is, it returns \<open>-1\<close> and the file stays.
\<close>

theorem tfs_create_outcome:
  assumes inv: "fs_inv s" and name: "name \<noteq> []" "is_cstring name"
    and absent: "tfs_lookup (Some (47 # name)) 0 s = Inr (-1)" and mode: "mode AND TFS_O_CREAT \<noteq> 0"
    and run: "tfs_open mutex_ok (Some (47 # name)) mode s = Inr (r, t)"
  shows "\<exists>v. tfs_lookup (Some (47 # name)) 0 t = Inr v
    \<and> (v \<noteq> -1 \<longleftrightarrow> length name \<le> 39 \<and> (\<exists>i<n_inodes s. ifree s ! i = FREE)
        \<and> (\<exists>k<max_dir_entries s. snd (root_dir s ! k) = -1))
    \<and> (r \<noteq> -1 \<longleftrightarrow> v \<noteq> -1 \<and> (\<exists>h<n_files s. ofree s ! h = FREE))"
proof -
  note v = fs_invD [OF inv]
  note l = tables_ok_lengths [OF v(1)]
  have valid: "valid_pathname (Some (47 # name))" using name(1) by (simp add: valid_path_iff)
  have look: "tfs_lookup (Some (47 # name)) 0 u = Inr (dir_find (root_dir u) name)" if "fs_inv u" for u
    by (simp add: tfs_lookup_def valid find_in_root [OF that name(2)])
  have new: "dir_find (root_dir s) name = -1" using absent look [OF inv] by simp
  have rt: "(r, t) = open_new name s"
    using run tfs_open_body_eq [OF inv name] new mode
    by (simp add: tfs_open_def mutex_ok_body open_result_def Let_def)
  have "fs_inv t" using fs_inv_open_new [OF inv name new] rt by (metis snd_conv)
  note lt = look [OF this]
  have ff: "first_free (ifree s) = None \<longleftrightarrow> \<not> (\<exists>i<n_inodes s. ifree s ! i = FREE)"
    using first_free_None_nth [of "ifree s"] l(2) by auto
  have hf: "first_free (ofree s) = None \<longleftrightarrow> \<not> (\<exists>h<n_files s. ofree s ! h = FREE)"
    using first_free_None_nth [of "ofree s"] l(6) by auto
  have df: "dir_index (\<lambda>e. snd e = -1) (root_dir s) = None \<longleftrightarrow> \<not> (\<exists>k<max_dir_entries s. snd (root_dir s ! k) = -1)"
    by (simp add: dir_index_None)
  show ?thesis
  proof (cases "length name \<le> 39 \<and> (\<exists>i<n_inodes s. ifree s ! i = FREE)
      \<and> (\<exists>k<max_dir_entries s. snd (root_dir s ! k) = -1)")
    case False
    then have "r = -1 \<and> (t = s \<or> (\<exists>i. first_free (ifree s) = Some i \<and> t = scratch_inode i s))"
      using rt ff df by (auto simp: open_new_def split: option.splits if_splits)
    moreover have "root_dir (scratch_inode i s) = root_dir s" if "first_free (ifree s) = Some i" for i
      using scratch_inode_same(2) [OF inv] first_free_SomeD [OF that] by blast
    ultimately have "r = -1" "root_dir t = root_dir s" by auto
    then show ?thesis using lt new False by auto
  next
    case True
    then obtain i k where ik: "first_free (ifree s) = Some i" "dir_index (\<lambda>e. snd e = -1) (root_dir s) = Some k"
      using ff df by auto
    have i: "i < n_inodes s" "ifree s ! i = FREE" using first_free_SomeD [OF ik(1)] l(2) by auto
    note ks = dir_index_SomeD [OF ik(2)]
    have km: "k < max_dir_entries s" "snd (root_dir s ! k) = -1" "\<forall>j<k. snd (root_dir s ! j) \<noteq> -1" using ks by auto
    have rt': "(r, t) = open_handle i 0 (create_file i k name s)" using rt ik True by (simp add: open_new_def)
    have "root_dir t = root_dir (create_file i k name s)"
      using rt' by (auto simp: open_handle_def add_handle_def split: option.splits)
    also have "\<dots> = (root_dir s)[k := (name, int i)]"
      using create_file_views(1) [OF inv i km(1,3) name(2)] True by simp
    finally have "dir_find (root_dir t) name = int i" using dir_find_put [of k "root_dir s" name "int i" name] km new by simp
    moreover have "r \<noteq> -1 \<longleftrightarrow> (\<exists>h<n_files s. ofree s ! h = FREE)"
      using rt' hf by (auto simp: open_handle_def create_file_def split: option.splits)
    ultimately show ?thesis using lt True by auto
  qed
qed

theorem tfs_create_outcome_witness:
  "\<exists>t v. tfs_open mutex_ok (Some (47 # [98])) TFS_O_CREAT demo3 = Inr (-1, t)
    \<and> tfs_lookup (Some (47 # [98])) 0 t = Inr v
    \<and> (v \<noteq> -1 \<longleftrightarrow> length [98::u8] \<le> 39 \<and> (\<exists>i<n_inodes demo3. ifree demo3 ! i = FREE)
        \<and> (\<exists>k<max_dir_entries demo3. snd (root_dir demo3 ! k) = -1))
    \<and> (- 1 \<noteq> (-1::int) \<longleftrightarrow> v \<noteq> -1 \<and> (\<exists>h<n_files demo3. ofree demo3 ! h = FREE))"
proof -
  have run: "tfs_open mutex_ok (Some (47 # [98])) TFS_O_CREAT demo3
      = Inr (-1, state_after (tfs_open mutex_ok (Some (47 # [98])) TFS_O_CREAT demo3))" by code_simp
  have absent: "tfs_lookup (Some (47 # [98])) 0 demo3 = Inr (-1)" by code_simp
  have nm: "[98::u8] \<noteq> []" "is_cstring [98]" "TFS_O_CREAT AND TFS_O_CREAT \<noteq> 0" by (simp_all add: is_cstring_def mode_defs)
  from tfs_create_outcome [OF demo_inv3 nm(1,2) absent nm(3) run] run show ?thesis by metis
qed

end
