(* ===== verification/Tfs_Misuse.thy ===== *)
theory Tfs_Misuse
  imports Tfs_Files
begin

text \<open>
  What the file system does when its callers break the rules, or when a mutex cannot be
  locked. From any state that satisfies the invariant: an open file is unlinked and its handle
  reads another file, an open file is truncated and its handle reads a free block, which shows
  why the duties of \<open>Tfs_Run\<close> are needed. Then a second \<open>tfs_init\<close>, and the results of the
  mutex calls.
\<close>

section \<open>Unlinking an open file\<close>

lemma handle_views:
  assumes "fs_inv s" and "a_handles (fs_abs s) h = Some (i, off)"
  shows "handle_open s (int h)" and "h < n_files s" and "of_inumber (otab s ! h) = int i" and "unat (of_offset (otab s ! h)) = off"
    and "i \<noteq> 0" and "live s i" and "off \<le> unat (i_size (itab s ! i))" and "unat (i_size (itab s ! i)) \<le> bsz s"
proof -
  have h: "h < n_files s" "ofree s ! h = TAKEN" "nat (of_inumber (otab s ! h)) = i" "unat (of_offset (otab s ! h)) = off"
    using assms(2) by (simp_all split: if_splits)
  then show o: "handle_open s (int h)" and "h < n_files s" "unat (of_offset (otab s ! h)) = off" by (simp_all add: handle_open_def)
  obtain m where m: "of_inumber (otab s ! h) = int m" "m \<noteq> 0" "live s m" "unat (of_offset (otab s ! h)) \<le> unat (i_size (itab s ! m))"
    "unat (i_size (itab s ! m)) \<le> bsz s"
    using open_handle_file [OF assms(1) o] by auto
  then show "of_inumber (otab s ! h) = int i" "i \<noteq> 0" "live s i" "off \<le> unat (i_size (itab s ! i))" "unat (i_size (itab s ! i)) \<le> bsz s"
    using h(3,4) by auto
qed

text \<open>The block of a file that is not empty.\<close>

definition block_of :: "fs \<Rightarrow> nat \<Rightarrow> nat" where
  "block_of s i = nat (i_data_block (itab s ! i))"

lemma block_of_file:
  assumes "fs_inv s" and "live s i" and "i_size (itab s ! i) \<noteq> 0"
  shows "i_data_block (itab s ! i) = int (block_of s i)" and "block_of s i < n_blocks s"
  using inodes_okD(3) [OF fs_invD(3) [OF assms(1)] assms(2,3)] by (auto simp: block_of_def)

lemma delete_file_tables:
  assumes inv: "fs_inv s" and k: "k < max_dir_entries s"
  shows "tables_ok (delete_file i k s)"
  using fs_invD(1) [OF inv] tables_ok_lengths [OF fs_invD(1) [OF inv]] root_blk_bound [OF fs_invD(1-3) [OF inv]] k
  by (simp add: delete_file_def)

text \<open>The write to an empty file, right after another file was deleted, takes the block of that file.\<close>

lemma write_after_delete:
  assumes inv: "fs_inv s" and i: "live s i" "i_size (itab s ! i) \<noteq> 0" and k: "k < max_dir_entries s"
    and g: "a_handles (fs_abs s) g = Some (j, 0)" "i_size (itab s ! j) = 0"
    and low: "\<forall>c<block_of s i. bfree s ! c = TAKEN" and len: "bytes \<noteq> []" "length bytes \<le> bsz s"
  shows "tfs_write_body (int g) bytes (of_nat (length bytes)) (delete_file i k s)
    = Inr (int (length bytes), move_handle g (of_nat (length bytes))
        (write_file j (block_of s i) 0 bytes (of_nat (length bytes)) (delete_file i k s)))"
proof -
  let ?s = "delete_file i k s" and ?n = "of_nat (length bytes) :: size_t"
  note l = tables_ok_lengths [OF fs_invD(1) [OF inv]] and small = bsz_small [OF inv]
  note g = handle_views [OF inv g(1)] and g' = g(2)
  have same: "itab ?s = itab s" "otab ?s = otab s" "ofree ?s = ofree s" "fs_params ?s = fs_params s" "bfree ?s = drop_block i s"
    by (simp_all add: delete_file_def)
  have un: "unat ?n = length bytes" using len(2) small by (simp add: unat_of_nat)
  have off: "of_offset (otab s ! g) = 0" using g(4) by (simp add: unat_eq_0)
  have bl: "block_of s i < length (bfree s)" using block_of_file(2) [OF inv i] l(4) by simp
  have free: "first_free (drop_block i s) = Some (block_of s i)"
    by (rule first_free_least) (use bl low i(2) in \<open>simp_all add: drop_block_def block_of_def\<close>)
  have wl: "write_len (nat (int g)) (unat ?n) ?s = length bytes"
    using len(2) off by (simp add: write_len_def same un)
  have "tfs_write_body (int g) bytes ?n ?s = Inr (if write_len (nat (int g)) (unat ?n) ?s = 0 then (0, ?s)
      else write_result (nat (int g)) j (take (write_len (nat (int g)) (unat ?n) ?s) bytes) ?s)"
    by (rule tfs_write_body_raw [OF delete_file_tables [OF inv k]])
      (use small g(1,3,6) g' off un len(2) in \<open>simp_all add: same handle_open_def live_def\<close>)
  then show ?thesis
    unfolding wl using len(1) off g' free by (simp add: write_result_def target_block_def same max_def Let_def)
qed

text \<open>
  C39. A file can be unlinked while it is open. Then its inode and its block are free, but the
  handle still refers to them: when a write to an empty file takes the block (which it does
  when no block below it is free), the handle reads the bytes of the other file.
\<close>

theorem unlinked_file_read:
  assumes inv: "fs_inv s" and name: "is_cstring name" "name \<noteq> []" "a_names (fs_abs s) name = Some i"
    and h: "a_handles (fs_abs s) h = Some (i, 0)" "a_data (fs_abs s) i = Some d"
    and g: "a_handles (fs_abs s) g = Some (j, 0)" "a_data (fs_abs s) j = Some []"
    and low: "\<forall>c<block_of s i. bfree s ! c = TAKEN"
    and len: "bytes \<noteq> []" "length bytes \<le> length d" "length bytes \<le> length buffer"
  shows "\<exists>t. run_all tfs_step [TUnlink (Some (47 # name)), TWrite (int g) bytes, TRead (int h) (of_nat (length bytes)) buffer] s
    = Inr ([(0, []), (int (length bytes), []), (int (length bytes), patch 0 bytes buffer)], t)"
proof -
  note v = fs_invD [OF inv]
  note l = tables_ok_lengths [OF v(1)] and small = bsz_small [OF inv]
  note hv = handle_views [OF inv h(1)] and gv = handle_views [OF inv g(1)]
  have dl: "length d = unat (i_size (itab s ! i))" "unat (i_size (itab s ! j)) = 0"
    using h(2) g(2) hv(5,6) gv(5,6) length_file_data [OF inv hv(6)] length_file_data [OF inv gv(6)] by simp_all
  then have si: "i_size (itab s ! i) \<noteq> 0" "i_size (itab s ! j) = 0" "j \<noteq> i" using len(1,2) by (auto simp: unat_eq_0)
  have lb: "length bytes \<le> bsz s" using len(2) dl(1) hv(8) by simp
  have un: "unat (of_nat (length bytes) :: size_t) = length bytes" using lb small by (simp add: unat_of_nat)
  note b = block_of_file [OF inv hv(6) si(1)]
  have find: "dir_find (root_dir s) name \<noteq> -1" "nat (dir_find (root_dir s) name) = i"
    using name(3) by (simp_all add: dir_names_def split: if_splits)
  obtain k where k: "dir_index (\<lambda>e. fst e = name) (root_dir s) = Some k" "k < max_dir_entries s"
    using unlink_entry [OF v(5) name(2) find(1)] by metis
  let ?s1 = "delete_file i k s"
  let ?s2 = "move_handle g (of_nat (length bytes)) (write_file j (block_of s i) 0 bytes (of_nat (length bytes)) ?s1)"
  have 1: "tfs_unlink mutex_ok (Some (47 # name)) s = Inr (0, ?s1)"
    using tfs_unlink_body_eq [OF inv name(2,1)] k(1) find
    by (simp add: tfs_unlink_def mutex_ok_body unlink_result_def Let_def)
  have 2: "tfs_write mutex_ok (int g) bytes (of_nat (length bytes)) ?s1 = Inr (int (length bytes), ?s2)"
    using write_after_delete [OF inv hv(6) si(1) k(2) g(1) si(2) low len(1) lb] by (simp add: tfs_write_def mutex_ok_body)
  have tb1: "tables_ok ?s1" by (rule delete_file_tables [OF inv k(2)])
  have p1: "fs_params ?s1 = fs_params s" by (simp add: delete_file_def)
  have fits: "block_of s i * bsz s + 0 + unat (i_size (itab s ! i)) \<le> length (fmem ?s1)"
    using block_in_data [OF b(2), of 0 "unat (i_size (itab s ! i))" "bsz s"] hv(8) tables_ok_lengths(3) [OF tb1] p1 by simp
  then have fits': "block_of s i * bsz s + length bytes \<le> length (fmem ?s1)" using len(2) dl(1) by simp
  have tb2: "tables_ok ?s2"
    using tb1 tables_ok_lengths [OF tb1] fits' p1 by (simp add: move_handle_def write_file_def)
  have gh: "g \<noteq> h" using hv(3) gv(3) si(3) by auto
  have i2: "itab ?s2 ! i = itab s ! i" "otab ?s2 ! h = otab s ! h" "ofree ?s2 = ofree s" "fs_params ?s2 = fs_params s"
    "fmem ?s2 = patch (block_of s i * bsz s) bytes (fmem ?s1)"
    using si(3) gh by (simp_all add: move_handle_def write_file_def) (simp_all add: delete_file_def)
  have "tfs_read_body (int h) (of_nat (length bytes)) (buffer, ?s2)
      = Inr (read_result (nat (int h)) i (unat (of_nat (length bytes) :: size_t)) buffer ?s2)"
    by (rule tfs_read_body_raw [OF tb2])
      (use small hv b len(3) un i2 in \<open>auto simp: handle_open_def live_def simp del: fs_abs_simps\<close>)
  moreover have "read_bytes h i (length bytes) ?s2 = bytes"
  proof -
    have "file_data ?s2 i = region (block_of s i * bsz s) (length d) (patch (block_of s i * bsz s) bytes (fmem ?s1))"
      unfolding file_data_def i2 b(1) dl(1) by simp
    also have "take (length bytes) \<dots> = region (block_of s i * bsz s) (length bytes) (patch (block_of s i * bsz s) bytes (fmem ?s1))"
      using len(2) by (simp add: region_def min_absorb1)
    also have "\<dots> = bytes" by (rule region_patch_same [OF fits'])
    finally show ?thesis using i2(2) hv(4) by (simp add: read_bytes_def)
  qed
  ultimately have 3: "\<exists>t. tfs_read mutex_ok (int h) (of_nat (length bytes)) (buffer, ?s2) = Inr (int (length bytes), patch 0 bytes buffer, t)"
    using un by (simp add: tfs_read_def mutex_ok_body read_result_def Let_def)
  show ?thesis using 1 2 3 by auto
qed

text \<open>Handle 0 is open on \<open>/a\<close>, which holds two bytes, and handle 1 on \<open>/b\<close>, which is empty.\<close>

definition path_b :: "cstring option" where "path_b = Some [47, 98]"

definition demo6 :: fs where "demo6 = state_after (tfs_step (TOpen path_a 0) demo4)"
definition demo7 :: fs where "demo7 = state_after (tfs_step (TOpen path_b TFS_O_CREAT) demo6)"

lemma demo_inv7: "fs_inv demo7"
proof -
  have 6: "tfs_step (TOpen path_a 0) demo4 = Inr ((0, []), demo6)" by code_simp
  have i6: "fs_inv demo6" by (rule tfs.step_inv [OF demo_inv4 _ 6]) (simp add: tfs_abs_def path_a_def is_cstring_def)
  have 7: "tfs_step (TOpen path_b TFS_O_CREAT) demo6 = Inr ((1, []), demo7)" by code_simp
  show ?thesis by (rule tfs.step_inv [OF i6 _ 7]) (simp add: tfs_abs_def path_b_def is_cstring_def mode_defs)
qed

lemma demo7_views:
  "a_names (fs_abs demo7) [97] = Some 1" "a_handles (fs_abs demo7) 0 = Some (1, 0)" "a_data (fs_abs demo7) 1 = Some [104, 105]"
  "a_handles (fs_abs demo7) 1 = Some (2, 0)" "a_data (fs_abs demo7) 2 = Some []" "\<forall>c<block_of demo7 1. bfree demo7 ! c = TAKEN"
proof -
  have "dir_find (root_dir demo7) [97] = 1" by code_simp
  then show "a_names (fs_abs demo7) [97] = Some 1" by (simp add: dir_names_def)
  have h: "n_files demo7 = 2" "ofree demo7 = [TAKEN, TAKEN]" "otab demo7 = [\<lparr>of_inumber = 1, of_offset = 0\<rparr>, \<lparr>of_inumber = 2, of_offset = 0\<rparr>]"
    by code_simp+
  then show "a_handles (fs_abs demo7) 0 = Some (1, 0)" "a_handles (fs_abs demo7) 1 = Some (2, 0)" by simp_all
  have d: "n_inodes demo7 = 3" "ifree demo7 = [TAKEN, TAKEN, TAKEN]" "file_data demo7 1 = [104, 105]" "file_data demo7 2 = []" by code_simp+
  then show "a_data (fs_abs demo7) 1 = Some [104, 105]" "a_data (fs_abs demo7) 2 = Some []" by (simp_all add: live_def)
  have b: "block_of demo7 1 = 1" "bfree demo7 ! 0 = TAKEN" by code_simp+
  show "\<forall>c<block_of demo7 1. bfree demo7 ! c = TAKEN" unfolding b(1) using b(2) by simp
qed

theorem unlinked_file_read_witness:
  "\<exists>t. run_all tfs_step [TUnlink (Some (47 # [97])), TWrite (int 1) [120, 121], TRead (int 0) (of_nat (length [120, 121 :: u8])) [0, 0, 0]] demo7
    = Inr ([(0, []), (int (length [120, 121 :: u8]), []), (int (length [120, 121 :: u8]), patch 0 [120, 121] [0, 0, 0])], t)"
  by (rule unlinked_file_read [OF demo_inv7 _ _ demo7_views]) (simp_all add: is_cstring_def)

section \<open>Truncating an open file\<close>

text \<open>
  C40. A file can be truncated while a handle on it is not at the start of the file. The offset
  stays, the number of bytes to read is the size 0 less the offset, which wraps around, and so
  a read through the handle returns as many bytes as the caller asks for (up to the end of
  the block, beyond which nothing is claimed), of a file that is empty: those at the offset in the block the file had before, which is free now.
\<close>

theorem truncated_file_read:
  assumes inv: "fs_inv s" and name: "is_cstring name" "name \<noteq> []" "a_names (fs_abs s) name = Some i"
    and h: "a_handles (fs_abs s) h = Some (i, off)" "0 < off"
    and len: "0 < m" "off + m \<le> bsz s" "m \<le> length buffer"
  shows "\<exists>fd t u. tfs_open mutex_ok (Some (47 # name)) TFS_O_TRUNC s = Inr (fd, t) \<and> a_data (fs_abs t) i = Some []
    \<and> bfree t ! block_of s i = FREE
    \<and> tfs_read mutex_ok (int h) (of_nat m) (buffer, t)
        = Inr (int m, patch 0 (region (block_of s i * bsz s + off) m (fmem s)) buffer, u)"
proof -
  note v = fs_invD [OF inv]
  note l = tables_ok_lengths [OF v(1)] and small = bsz_small [OF inv] and hv = handle_views [OF inv h(1)]
  have si: "i_size (itab s ! i) \<noteq> 0" using hv(7) h(2) by auto
  note b = block_of_file [OF inv hv(6) si]
  have find: "dir_find (root_dir s) name \<noteq> -1" "nat (dir_find (root_dir s) name) = i"
    using name(3) by (simp_all add: dir_names_def split: if_splits)
  let ?t0 = "truncate_file i s"
  note w = truncate_file_views [OF inv hv(6,5)]
  have "TFS_O_TRUNC AND TFS_O_TRUNC \<noteq> 0" "TFS_O_TRUNC AND TFS_O_APPEND = 0" by (simp_all add: mode_defs)
  then have run: "tfs_open mutex_ok (Some (47 # name)) TFS_O_TRUNC s = Inr (open_handle i 0 ?t0)"
    using tfs_open_body_eq [OF inv name(2,1), of TFS_O_TRUNC] find si
    by (simp add: tfs_open_def mutex_ok_body open_result_def truncated_def Let_def)
  obtain fd t where t: "open_handle i 0 ?t0 = (fd, t)" by (cases "open_handle i 0 ?t0")
  have ho: "h < n_files s" "ofree s ! h = TAKEN" using hv(1,2) by (simp_all add: handle_open_def)
  have same: "fs_params t = fs_params s" "fmem t = fmem s" "fs_data t = fs_data s" "bfree t = drop_block i s"
    "itab t = (itab s)[i := (itab s ! i)\<lparr>i_size := 0\<rparr>]" "ifree t = ifree s"
    using t by (auto simp: open_handle_def add_handle_def truncate_file_def split: option.splits)
  have "x \<noteq> h" if "first_free (ofree s) = Some x" for x
    using first_free_SomeD [OF that] ho(2) by auto
  then have ot: "ofree t ! h = TAKEN" "otab t ! h = otab s ! h"
    using t ho(2) by (auto simp: open_handle_def add_handle_def truncate_file_def nth_list_update split: option.splits)
  have tb: "tables_ok t"
    using v(1) l t by (auto simp: open_handle_def add_handle_def truncate_file_def split: option.splits)
  have ii: "i < n_inodes s" "i < length (itab s)" using hv(6) l(1) by (simp_all add: live_def)
  have data: "a_data (fs_abs t) i = Some []"
    using hv(5,6) ii by (simp add: live_def same file_data_def)
  have free: "bfree t ! block_of s i = FREE"
    using si b(2) l(4) by (simp add: same drop_block_def block_of_def)
  have ti: "i_size (itab t ! i) = 0" "i_data_block (itab t ! i) = int (block_of s i)" using ii b(1) by (simp_all add: same)
  let ?off = "of_offset (otab s ! h)" and ?m = "of_nat m :: size_t"
  have un: "unat ?m = m" using len(2) small by (simp add: unat_of_nat)
  have "m < unat (0 - ?off)" using hv(4) h(2) len(2) small by (simp add: unat_sub_if' del: diff_0)
  then have big: "(if 0 - ?off > ?m then ?m else 0 - ?off) = ?m" by (simp add: word_less_nat_alt un del: diff_0)
  have pos: "?m > 0" using len(1) by (simp add: word_less_nat_alt un)
  have ho': "handle_open t (int h)" using ho ot(1) by (simp add: handle_open_def same)
  have "block_of s i * bsz s + off + m \<le> length (fmem s)"
    using block_in_data [OF b(2) len(2)] l(3) by simp
  then have rd: "mem_read (fs_data t) (block_of s i * bsz s + unat ?off) (unat ?m)
      = Inr (region (block_of s i * bsz s + off) m (fmem s))"
    using tables_okD(3) [OF v(1)] un hv(4) by (metis mem_read.simps(2) same(3))
  have wr: "mem_write (Some buffer) 0 (region (block_of s i * bsz s + off) m (fmem s))
      = Inr (Some (patch 0 (region (block_of s i * bsz s + off) m (fmem s)) buffer))"
    using len(3) by simp
  have get: "data_block_get (int (block_of s i)) t = Inr (block_of s i * bsz s)"
    using data_block_get_eq [OF tb, of "block_of s i"] b(2) same(1) by simp
  have ret: "c_ssize ?m = int m" using c_ssize_small [of ?m] un len(2) small by simp
  have tabs: "aget (open_file_table t) h = Inr (otab s ! h)" "aget (inode_table t) i = Inr (itab t ! i)" "inode_get (int i) t = Inr i"
    using aget_tables [OF tb] ho ii(1) inode_get_eq [of i t] ot(2) same(1) by simp_all
  have so: "\<exists>u. set_offset h (?off + ?m) t = Inr u" using set_offset_eq [OF tb, of h] ho same(1) by simp
  have "\<exists>u. tfs_read_body (int h) ?m (buffer, t) = Inr (int m, patch 0 (region (block_of s i * bsz s + off) m (fmem s)) buffer, u)"
    using so ho' unfolding tfs_read_body_def get_open_file_entry_eq [OF tb] if_P [OF ho'] Let_def prod.case bindE_simps option.case nat_int
      tabs hv(3) ti(1) big if_P [OF pos] ti(2) get rd wr ret
    by auto
  then show ?thesis using run t data free by (auto simp: tfs_read_def mutex_ok_body simp del: fs_abs_simps)
qed

theorem truncated_file_read_witness:
  "\<exists>fd t u. tfs_open mutex_ok (Some (47 # [97])) TFS_O_TRUNC demo2 = Inr (fd, t) \<and> a_data (fs_abs t) 1 = Some []
    \<and> bfree t ! block_of demo2 1 = FREE
    \<and> tfs_read mutex_ok (int 0) (of_nat 5) ([0, 0, 0, 0, 0, 0], t)
        = Inr (int 5, patch 0 (region (block_of demo2 1 * bsz demo2 + 2) 5 (fmem demo2)) [0, 0, 0, 0, 0, 0], u)"
proof -
  have "dir_find (root_dir demo2) [97] = 1" by code_simp
  then have n: "a_names (fs_abs demo2) [97] = Some 1" by (simp add: dir_names_def)
  have "n_files demo2 = 2" "ofree demo2 ! 0 = TAKEN" "otab demo2 ! 0 = \<lparr>of_inumber = 1, of_offset = 2\<rparr>" by code_simp+
  then have h: "a_handles (fs_abs demo2) 0 = Some (1, 2)" by simp
  have z: "bsz demo2 = 100" by code_simp
  show ?thesis by (rule truncated_file_read [OF demo_inv2 _ _ n h]) (simp_all add: is_cstring_def z)
qed

section \<open>A second start\<close>

text \<open>
  A second \<open>tfs_init\<close> fails as documented, but only after it has overwritten the
  parameters: the tables stay as they were and every bound is now taken from the new
  parameters, so that a file system of three inodes accepts the inode number 63.
\<close>

theorem second_init_overwrites:
  assumes "inode_table s \<noteq> None"
  shows "tfs_init p m s = Inr (-1, s\<lparr>fs_params := (case p of Some p \<Rightarrow> p | None \<Rightarrow> tfs_default_params)\<rparr>)"
  using assms by (simp add: tfs_init_def state_init_def Let_def)

theorem second_init_overwrites_witness:
  "tfs_init None demo_mallocs demo0 = Inr (-1, demo0\<lparr>fs_params := tfs_default_params\<rparr>)
    \<and> \<not> valid_inumber 63 demo0 \<and> valid_inumber 63 (demo0\<lparr>fs_params := tfs_default_params\<rparr>)"
proof -
  have "inode_table demo0 \<noteq> None" by code_simp
  moreover have "\<not> valid_inumber 63 demo0" "valid_inumber 63 (demo0\<lparr>fs_params := tfs_default_params\<rparr>)" by code_simp+
  ultimately show ?thesis using second_init_overwrites [of demo0 None demo_mallocs] by simp
qed

section \<open>Mutexes\<close>

text \<open>
  An operation whose mutex calls give \<open>-1\<close> returns \<open>-1\<close>; but the calls report a failure
  by a positive number, and then every operation runs, without the mutex, and returns as
  if nothing had happened.
\<close>

theorem failed_lock_unnoticed:
  assumes "0 < lock_rc m" and "0 \<le> unlock_rc m" and "lock_rc m' = -1"
  shows "tfs_open m path mode s = tfs_open mutex_ok path mode s \<and> tfs_close m fh s = tfs_close mutex_ok fh s
    \<and> tfs_write m fh bytes n s = tfs_write mutex_ok fh bytes n s
    \<and> tfs_read m fh n (buffer, s) = tfs_read mutex_ok fh n (buffer, s)
    \<and> tfs_unlink m path s = tfs_unlink mutex_ok path s
    \<and> tfs_open m' path mode s = Inr (-1, s) \<and> tfs_write m' fh bytes n s = Inr (-1, s)"
  using assms
  by (simp add: tfs_open_def tfs_close_def tfs_write_def tfs_read_def tfs_unlink_def with_library_mutex_def mutex_ok_def)

theorem failed_lock_unnoticed_witness:
  "tfs_open \<lparr>lock_rc = 35, unlock_rc = 1\<rparr> path_a TFS_O_CREAT demo0 = tfs_open mutex_ok path_a TFS_O_CREAT demo0
    \<and> tfs_close \<lparr>lock_rc = 35, unlock_rc = 1\<rparr> 0 demo0 = tfs_close mutex_ok 0 demo0
    \<and> tfs_write \<lparr>lock_rc = 35, unlock_rc = 1\<rparr> 0 [1] 1 demo0 = tfs_write mutex_ok 0 [1] 1 demo0
    \<and> tfs_read \<lparr>lock_rc = 35, unlock_rc = 1\<rparr> 0 1 ([0], demo0) = tfs_read mutex_ok 0 1 ([0], demo0)
    \<and> tfs_unlink \<lparr>lock_rc = 35, unlock_rc = 1\<rparr> path_a demo0 = tfs_unlink mutex_ok path_a demo0
    \<and> tfs_open \<lparr>lock_rc = -1, unlock_rc = 0\<rparr> path_a TFS_O_CREAT demo0 = Inr (-1, demo0)
    \<and> tfs_write \<lparr>lock_rc = -1, unlock_rc = 0\<rparr> 0 [1] 1 demo0 = Inr (-1, demo0)"
  by (rule failed_lock_unnoticed) simp_all

end
