(* ===== verification/Boxes.thy ===== *)
theory Boxes
  imports Tfs_Ops
begin

text \<open>
  The table of message boxes of the broker (\<open>mbroker/boxes.c\<close>, \<open>boxes.h\<close>). A \<open>box_t *\<close> is an
  address of \<open>heap\<close>, which maps the allocated blocks to their contents, so that using a box
  after \<open>free\<close> is undefined. What \<open>malloc\<close> and \<open>realloc\<close> answer and the return codes of the
  mutex calls are arguments. Every function holds the table's mutex from its first access
  of the table to its last.
\<close>

section \<open>Data\<close>

type_synonym addr = nat

definition BOX_LEN :: nat where "BOX_LEN = 32"
definition TABLE_STARTING_CAPACITY :: nat where "TABLE_STARTING_CAPACITY = 8"

lemmas box_consts [simp] = BOX_LEN_def TABLE_STARTING_CAPACITY_def

record box_t =
  file_name :: cstring
  pub_num :: "64 word"
  sub_num :: "64 word"
  box_size :: "64 word"

record box_table =
  boxes :: "addr option list option"
  subs :: "addr option list option"
  capacity :: size_t
  bt_size :: size_t
  num_elem :: size_t
  heap :: "addr \<Rightarrow> box_t option"

definition deref :: "addr \<Rightarrow> box_table \<Rightarrow> box_t res" where
  "deref p t = (case heap t p of None \<Rightarrow> Inl Undefined | Some x \<Rightarrow> Inr x)"

section \<open>Start and end\<close>

text \<open>The loop that sets the pointers from \<open>i\<close> on to NULL.\<close>

function clear_slots :: "nat \<Rightarrow> nat \<Rightarrow> addr option list option \<Rightarrow> addr option list option res" where
  "clear_slots i n xs = (if i < n then bindE (aset xs i None) (\<lambda>xs. clear_slots (Suc i) n xs) else Inr xs)"
  by pat_completeness auto
termination by (relation "measure (\<lambda>(i, n, xs). n - i)") auto

declare clear_slots.simps [simp del]

definition box_table_init ::
    "addr option list option \<Rightarrow> addr option list option \<Rightarrow> box_table \<Rightarrow> (int \<times> box_table) res" where
  "box_table_init m_boxes m_subs t =
     (let t = t\<lparr>boxes := m_boxes, subs := m_subs\<rparr> in
      if boxes t = None then Inr (-1, t)
      else
        bindE (clear_slots 0 TABLE_STARTING_CAPACITY (boxes t)) (\<lambda>b.
        bindE (clear_slots 0 TABLE_STARTING_CAPACITY (subs t)) (\<lambda>sb.
        Inr (0, t\<lparr>boxes := b, subs := sb, capacity := of_nat TABLE_STARTING_CAPACITY, bt_size := 0,
                  num_elem := 0\<rparr>))))"

text \<open>The loop of \<open>box_table_destroy\<close>: \<open>subs\<close> keeps its first length, whatever \<open>size\<close> is.\<close>

function destroy_loop :: "nat \<Rightarrow> nat \<Rightarrow> box_table \<Rightarrow> box_table res" where
  "destroy_loop i n t =
     (if i < n then
        bindE (aget (boxes t) i) (\<lambda>b.
        bindE (case b of None \<Rightarrow> Inr t
               | Some p \<Rightarrow> bindE (deref p t) (\<lambda>_. Inr (t\<lparr>heap := (heap t)(p := None)\<rparr>))) (\<lambda>t.
        bindE (if subs t \<noteq> None then bindE (aget (subs t) i) (\<lambda>_. Inr ()) else Inr ()) (\<lambda>_.
        destroy_loop (Suc i) n t)))
      else Inr t)"
  by pat_completeness auto
termination by (relation "measure (\<lambda>(i, n, t). n - i)") auto

declare destroy_loop.simps [simp del]

definition box_table_destroy :: "box_table \<Rightarrow> box_table res" where
  "box_table_destroy t =
     bindE (destroy_loop 0 (unat (bt_size t)) t) (\<lambda>t. Inr (t\<lparr>boxes := None, subs := None\<rparr>))"

section \<open>Adding and removing\<close>

text \<open>\<open>extra\<close> is what \<open>realloc\<close> appends to the old block, \<open>None\<close> when it fails.\<close>

definition expand_table :: "addr option list option \<Rightarrow> box_table \<Rightarrow> (int \<times> box_table) res" where
  "expand_table extra t =
     (let t = t\<lparr>capacity := capacity t * 2\<rparr>;
          t = t\<lparr>boxes := (case (boxes t, extra) of (Some b, Some e) \<Rightarrow> Some (b @ e) | _ \<Rightarrow> None)\<rparr>
      in if boxes t = None then Inr (-1, t)
         else bindE (clear_slots (unat (capacity t div 2)) (unat (capacity t)) (boxes t)) (\<lambda>b.
           Inr (0, t\<lparr>boxes := b\<rparr>)))"

text \<open>Nothing calls \<open>expand_subs\<close>, which grows the same array and not \<open>subs\<close>.\<close>

definition expand_subs :: "addr option list option \<Rightarrow> box_table \<Rightarrow> (int \<times> box_table) res" where
  "expand_subs extra t =
     (let t = t\<lparr>capacity := capacity t * 2\<rparr>;
          t = t\<lparr>boxes := (case (boxes t, extra) of (Some b, Some e) \<Rightarrow> Some (b @ e) | _ \<Rightarrow> None)\<rparr>
      in if boxes t = None then Inr (-1, t)
         else bindE (clear_slots (unat (capacity t div 2)) (unat (capacity t)) (boxes t)) (\<lambda>b.
           Inr (0, t\<lparr>boxes := b\<rparr>)))"

text \<open>The search of \<open>box_add\<close> for a slot that is NULL.\<close>

function null_scan :: "nat \<Rightarrow> nat \<Rightarrow> addr option list option \<Rightarrow> nat option res" where
  "null_scan i n xs =
     (if i < n then bindE (aget xs i) (\<lambda>b. if b = None then Inr (Some i) else null_scan (Suc i) n xs)
      else Inr None)"
  by pat_completeness auto
termination by (relation "measure (\<lambda>(i, n, xs). n - i)") auto

declare null_scan.simps [simp del]

text \<open>
  What \<open>box_add\<close> writes into a new box. Its \<open>memset\<close> clears the 32 bytes of \<open>file_name\<close>, the
  first member, so that behind the name and its NUL they are 0.
\<close>

definition new_box :: "cstring \<Rightarrow> box_t" where
  "new_box name = \<lparr>file_name = name, pub_num = 0, sub_num = 0, box_size = 0\<rparr>"

text \<open>
  \<open>p\<close> is the block \<open>malloc\<close> returns, NULL when it fails, which \<open>box_add\<close> does not check
  before it writes to it; \<open>strcpy\<close> wants the name and its NUL inside the 32 bytes.
\<close>

definition box_add ::
    "mutex_rc \<Rightarrow> addr option \<Rightarrow> addr option list option \<Rightarrow> cstring \<Rightarrow> box_table \<Rightarrow> (int \<times> box_table) res" where
  "box_add m p extra filename t =
     (case p of
        None \<Rightarrow> Inl Undefined
      | Some p \<Rightarrow>
          if length filename \<ge> BOX_LEN then Inl Undefined
          else
            let t = t\<lparr>heap := (heap t)(p \<mapsto> new_box filename)\<rparr> in
            if lock_rc m \<noteq> 0 then Inr (-1, t)
            else
              bindE (if bt_size t = capacity t then expand_table extra t else Inr (0, t)) (\<lambda>(r, t).
              if r = -1 then Inr (-1, t)
              else if bt_size t = num_elem t then
                bindE (aset (boxes t) (unat (bt_size t)) (Some p)) (\<lambda>b.
                let t = t\<lparr>boxes := b, bt_size := bt_size t + 1, num_elem := num_elem t + 1\<rparr> in
                Inr (if unlock_rc m \<noteq> 0 then -1 else 0, t))
              else
                bindE (null_scan 0 (unat (bt_size t)) (boxes t)) (\<lambda>r.
                case r of
                  Some i \<Rightarrow>
                    bindE (aset (boxes t) i (Some p)) (\<lambda>b.
                    let t = t\<lparr>boxes := b\<rparr>;
                        t = (if num_elem t = bt_size t then t\<lparr>bt_size := bt_size t + 1\<rparr> else t);
                        t = t\<lparr>num_elem := num_elem t + 1\<rparr> in
                    Inr (if unlock_rc m \<noteq> 0 then -1 else 0, t))
                | None \<Rightarrow> Inr (-1, t))))"

text \<open>The loop of \<open>box_remove\<close> and \<open>box_find\<close>: the first box of that name.\<close>

function box_scan :: "nat \<Rightarrow> nat \<Rightarrow> cstring \<Rightarrow> box_table \<Rightarrow> (nat \<times> addr) option res" where
  "box_scan i n filename t =
     (if i < n then
        bindE (aget (boxes t) i) (\<lambda>b.
        case b of
          None \<Rightarrow> box_scan (Suc i) n filename t
        | Some p \<Rightarrow> bindE (deref p t) (\<lambda>x.
            if file_name x = filename then Inr (Some (i, p)) else box_scan (Suc i) n filename t))
      else Inr None)"
  by pat_completeness auto
termination by (relation "measure (\<lambda>(i, n, f, t). n - i)") auto

declare box_scan.simps [simp del]

definition box_remove :: "mutex_rc \<Rightarrow> cstring \<Rightarrow> box_table \<Rightarrow> (int \<times> box_table) res" where
  "box_remove m filename t =
     (if lock_rc m \<noteq> 0 then Inr (-1, t)
      else
        bindE (box_scan 0 (unat (bt_size t)) filename t) (\<lambda>r.
        case r of
          None \<Rightarrow> Inr (-1, t)
        | Some (i, p) \<Rightarrow>
            let t = t\<lparr>heap := (heap t)(p := None)\<rparr> in
            bindE (aset (boxes t) i None) (\<lambda>b.
            let t = t\<lparr>boxes := b\<rparr>;
                t = (if unat (bt_size t) = i + 1 then t\<lparr>bt_size := bt_size t - 1\<rparr> else t);
                t = t\<lparr>num_elem := num_elem t - 1\<rparr> in
            Inr (if unlock_rc m \<noteq> 0 then -1 else 0, t))))"

section \<open>Finding, and counting publishers and subscribers\<close>

definition box_find :: "mutex_rc \<Rightarrow> cstring \<Rightarrow> box_table \<Rightarrow> addr option res" where
  "box_find m filename t =
     (if lock_rc m \<noteq> 0 then Inl Exit_failure
      else
        bindE (box_scan 0 (unat (bt_size t)) filename t) (\<lambda>r.
        if unlock_rc m \<noteq> 0 then Inl Exit_failure else Inr (map_option snd r)))"

definition box_register_pub ::
    "mutex_rc \<Rightarrow> mutex_rc \<Rightarrow> cstring \<Rightarrow> box_table \<Rightarrow> (addr option \<times> box_table) res" where
  "box_register_pub m mb filename t =
     bindE (box_find m filename t) (\<lambda>r.
     case r of
       None \<Rightarrow> Inr (None, t)
     | Some p \<Rightarrow>
         bindE (deref p t) (\<lambda>box.
         if lock_rc mb \<noteq> 0 then Inl Exit_failure
         else if pub_num box = 1 then
           if unlock_rc mb \<noteq> 0 then Inl Exit_failure else Inr (None, t)
         else
           let t = t\<lparr>heap := (heap t)(p \<mapsto> box\<lparr>pub_num := pub_num box + 1\<rparr>)\<rparr> in
           if unlock_rc mb \<noteq> 0 then Inl Exit_failure else Inr (Some p, t)))"

definition box_register_sub ::
    "mutex_rc \<Rightarrow> mutex_rc \<Rightarrow> cstring \<Rightarrow> box_table \<Rightarrow> (addr option \<times> box_table) res" where
  "box_register_sub m mb filename t =
     bindE (box_find m filename t) (\<lambda>r.
     case r of
       None \<Rightarrow> Inr (None, t)
     | Some p \<Rightarrow>
         bindE (deref p t) (\<lambda>box.
         if lock_rc mb \<noteq> 0 then Inl Exit_failure
         else
           let t = t\<lparr>heap := (heap t)(p \<mapsto> box\<lparr>sub_num := sub_num box + 1\<rparr>)\<rparr> in
           if unlock_rc mb \<noteq> 0 then Inl Exit_failure else Inr (Some p, t)))"

definition box_unregister_pub :: "mutex_rc \<Rightarrow> addr option \<Rightarrow> box_table \<Rightarrow> (int \<times> box_table) res" where
  "box_unregister_pub mb box t =
     (case box of
        None \<Rightarrow> Inr (-1, t)
      | Some p \<Rightarrow>
          bindE (deref p t) (\<lambda>box.
          if lock_rc mb \<noteq> 0 then Inl Exit_failure
          else if pub_num box = 0 then
            if unlock_rc mb \<noteq> 0 then Inl Exit_failure else Inr (-1, t)
          else
            let t = t\<lparr>heap := (heap t)(p \<mapsto> box\<lparr>pub_num := pub_num box - 1\<rparr>)\<rparr> in
            if unlock_rc mb \<noteq> 0 then Inl Exit_failure else Inr (0, t)))"

definition box_unregister_sub :: "mutex_rc \<Rightarrow> addr option \<Rightarrow> box_table \<Rightarrow> (int \<times> box_table) res" where
  "box_unregister_sub mb box t =
     (case box of
        None \<Rightarrow> Inr (-1, t)
      | Some p \<Rightarrow>
          bindE (deref p t) (\<lambda>box.
          if lock_rc mb \<noteq> 0 then Inl Exit_failure
          else if sub_num box = 0 then
            if unlock_rc mb \<noteq> 0 then Inl Exit_failure else Inr (-1, t)
          else
            let t = t\<lparr>heap := (heap t)(p \<mapsto> box\<lparr>sub_num := sub_num box - 1\<rparr>)\<rparr> in
            if unlock_rc mb \<noteq> 0 then Inl Exit_failure else Inr (0, t)))"

end
