(* ===== verification/Wire.thy ===== *)
theory Wire
  imports Boxes
begin

text \<open>
  The messages on the pipes: their sizes (\<open>utils/ops.h\<close>), the requests the clients build
  (\<open>pub.c\<close>, \<open>sub.c\<close>, \<open>manager.c\<close>), the buffer into which \<open>main\<close> of the broker reads
  one, the responses of the broker, and the numbers in them. A message is the list of the
  bytes of the array the C code fills, and is built by the same writes.
\<close>

section \<open>What crosses a pipe\<close>

text \<open>
  The writes of a program: the name of the pipe and the bytes. A list of read results holds
  the bytes each \<open>read\<close> returns (none at the end of the stream) or \<open>None\<close> when it fails; a
  program that has used them all up is waiting for the next one.
\<close>

type_synonym sent = "(cstring \<times> u8 list) list"
type_synonym read_results = "u8 list option list"

section \<open>Sizes\<close>

definition PIPE_LEN :: nat where "PIPE_LEN = 256"
definition MESSAGE_LEN :: nat where "MESSAGE_LEN = 1024"
definition MAIN_BUFFER_SIZE :: nat where "MAIN_BUFFER_SIZE = 1029"
definition REGISTRY_BUFFER_SIZE :: nat where "REGISTRY_BUFFER_SIZE = 289"
definition MANAGER_LIST_REQUEST_BUFFER_SIZE :: nat where "MANAGER_LIST_REQUEST_BUFFER_SIZE = 257"
definition MANAGER_RESPONSE_BUFFER_SIZE :: nat where "MANAGER_RESPONSE_BUFFER_SIZE = 1029"
definition MANAGER_LIST_RESPONSE_BUFFER_SIZE :: nat where "MANAGER_LIST_RESPONSE_BUFFER_SIZE = 58"
definition PUBLISHER_BUFFER_SIZE :: nat where "PUBLISHER_BUFFER_SIZE = 1025"
definition SUBSCRIBER_BUFFER_SIZE :: nat where "SUBSCRIBER_BUFFER_SIZE = 1025"

lemmas wire_consts [simp] = PIPE_LEN_def MESSAGE_LEN_def MAIN_BUFFER_SIZE_def REGISTRY_BUFFER_SIZE_def
  MANAGER_LIST_REQUEST_BUFFER_SIZE_def MANAGER_RESPONSE_BUFFER_SIZE_def MANAGER_LIST_RESPONSE_BUFFER_SIZE_def
  PUBLISHER_BUFFER_SIZE_def SUBSCRIBER_BUFFER_SIZE_def

section \<open>Set-up calls all programs share\<close>

definition check_input_args :: "nat \<Rightarrow> nat \<Rightarrow> int res" where
  "check_input_args argc expectedArgs = (if argc < expectedArgs then Inl Exit_failure else Inr 0)"

text \<open>The results of \<open>unlink\<close> and \<open>mkfifo\<close>, and whether \<open>errno\<close> is \<open>ENOENT\<close> after the first.\<close>

definition start_fifo :: "int \<Rightarrow> bool \<Rightarrow> int \<Rightarrow> int" where
  "start_fifo unlinked enoent made =
     (if unlinked \<noteq> 0 \<and> \<not> enoent then -1 else if made \<noteq> 0 then -1 else 0)"

section \<open>A 64-bit integer in memory\<close>

fun le_bytes :: "nat \<Rightarrow> nat \<Rightarrow> u8 list" where
  "le_bytes 0 v = []"
| "le_bytes (Suc n) v = of_nat v # le_bytes n (v div 256)"

fun le_nat :: "u8 list \<Rightarrow> nat" where
  "le_nat [] = 0"
| "le_nat (b # bs) = unat b + 256 * le_nat bs"

definition u64_bytes :: "64 word \<Rightarrow> u8 list" where "u64_bytes w = le_bytes 8 (unat w)"
definition bytes_u64 :: "u8 list \<Rightarrow> 64 word" where "bytes_u64 bs = of_nat (le_nat bs)"

lemma length_le_bytes [simp]: "length (le_bytes n v) = n"
  by (induction n arbitrary: v) simp_all

lemma length_u64_bytes [simp]: "length (u64_bytes w) = 8"
  by (simp add: u64_bytes_def)

lemma le_nat_bytes: "le_nat (le_bytes n v) = v mod 256 ^ n"
  by (induction n arbitrary: v) (simp_all add: unat_of_nat mod_mult2_eq)

lemma bytes_u64_bytes [simp]: "bytes_u64 (u64_bytes w) = w"
proof -
  have "unat w < 256 ^ 8" using unsigned_less [where 'a = nat, of w] by simp
  then have "unat w mod 256 ^ 8 = unat w" by (rule mod_less)
  then show ?thesis by (simp add: bytes_u64_def u64_bytes_def le_nat_bytes)
qed

section \<open>Strings in a buffer\<close>

text \<open>
  Passing \<open>&buf[off]\<close> as a string: what is read is the bytes up to the first NUL, and without
  one inside the buffer the read runs off its end.
\<close>

definition string_at :: "nat \<Rightarrow> u8 list \<Rightarrow> cstring res" where
  "string_at off buf = (if 0 \<in> set (drop off buf) then Inr (cstr (drop off buf)) else Inl Undefined)"

text \<open>\<open>strncpy(dst, arg, n - 1); dst[n - 1] = 0\<close> on an array of \<open>n\<close> bytes.\<close>

definition copy_arg :: "nat \<Rightarrow> cstring \<Rightarrow> u8 list" where
  "copy_arg n arg = strncpy_bytes (n - 1) arg @ [0]"

lemma length_copy_arg [simp]: "0 < n \<Longrightarrow> length (copy_arg n arg) = n"
  by (simp add: copy_arg_def)

lemma strncpy_bytes_short: "length s \<le> n \<Longrightarrow> strncpy_bytes n s = s @ replicate (n - length s) 0"
  by (simp add: strncpy_bytes_def)

lemma strncpy_bytes_long: "n \<le> length s \<Longrightarrow> strncpy_bytes n s = take n s"
  by (simp add: strncpy_bytes_def)

lemma is_cstring_take [simp]: "is_cstring s \<Longrightarrow> is_cstring (take n s)"
  by (auto simp: is_cstring_def dest: in_set_takeD)

text \<open>What the array holds as a string is the argument cut at \<open>n - 1\<close> bytes.\<close>

lemma cstr_copy_arg:
  assumes "is_cstring arg"
  shows "cstr (copy_arg n arg @ ys) = take (n - 1) arg"
proof (cases "length arg < n - 1")
  case True
  have "replicate (n - 1 - length arg) (0 :: u8) = 0 # replicate (n - 1 - Suc (length arg)) 0"
    using True by (metis Suc_diff_Suc replicate_Suc)
  then have "copy_arg n arg @ ys = arg @ 0 # (replicate (n - 1 - Suc (length arg)) 0 @ [0] @ ys)"
    using True by (simp add: copy_arg_def strncpy_bytes_short)
  then show ?thesis using cstr_append_zero [OF assms] True by simp
next
  case False
  then have "copy_arg n arg @ ys = take (n - 1) arg @ 0 # ys" by (simp add: copy_arg_def strncpy_bytes_long)
  then show ?thesis using cstr_append_zero [OF is_cstring_take [OF assms]] by simp
qed

section \<open>Requests\<close>

text \<open>
  A request that names a box: an operation code, the client's pipe and the box, in arrays of
  256 and 32 bytes. A request to list has no box.
\<close>

definition register_message :: "u8 \<Rightarrow> u8 list \<Rightarrow> u8 list \<Rightarrow> u8 list" where
  "register_message code pipe_name box_name =
     (let m = replicate REGISTRY_BUFFER_SIZE 0;
          m = m[0 := code];
          m = patch 1 (take PIPE_LEN pipe_name) m
      in patch (PIPE_LEN + 1) (take BOX_LEN box_name) m)"

definition list_message :: "u8 \<Rightarrow> u8 list \<Rightarrow> u8 list" where
  "list_message code pipe_name =
     (let m = replicate MANAGER_LIST_REQUEST_BUFFER_SIZE 0; m = m[0 := code] in patch 1 (take PIPE_LEN pipe_name) m)"

lemma register_message_eq:
  "length pipe = 256 \<Longrightarrow> length box = 32 \<Longrightarrow> register_message code pipe box = code # pipe @ box"
  by (simp add: register_message_def patch_def numeral_eq_Suc Let_def)

lemma list_message_eq: "length pipe = 256 \<Longrightarrow> list_message code pipe = code # pipe"
  by (simp add: list_message_def patch_def numeral_eq_Suc Let_def)

text \<open>
  \<open>main\<close> of the broker clears a buffer of 1029 bytes and reads one request into it; the bytes
  are those \<open>read\<close> finds in the pipe.
\<close>

definition receive_request :: "u8 list \<Rightarrow> u8 list" where
  "receive_request bytes = patch 0 (take MAIN_BUFFER_SIZE bytes) (replicate MAIN_BUFFER_SIZE 0)"

lemma receive_request_short:
  "length bytes \<le> 1029 \<Longrightarrow> receive_request bytes = bytes @ replicate (1029 - length bytes) 0"
  by (simp add: receive_request_def patch_def)

section \<open>Responses\<close>

definition text_bytes :: "string \<Rightarrow> u8 list" where "text_bytes = map of_char"

text \<open>
  The response to create and remove: code, return code, and the array of 1024 bytes that
  \<open>strcpy\<close> put the text of the error into.
\<close>

definition manager_response :: "u8 \<Rightarrow> int \<Rightarrow> string \<Rightarrow> u8 list" where
  "manager_response response_type return_code msg =
     (let error_msg = replicate MESSAGE_LEN 0;
          error_msg = patch 0 (text_bytes msg @ [0]) error_msg;
          response = replicate MANAGER_RESPONSE_BUFFER_SIZE 0;
          response = patch 0 [response_type] response;
          response = patch 1 (int32_bytes return_code) response
      in patch 5 error_msg response)"

text \<open>The response that announces that there is no box: everything else is 0.\<close>

definition empty_list_response :: "u8 \<Rightarrow> u8 list" where
  "empty_list_response response_type = (replicate MANAGER_LIST_RESPONSE_BUFFER_SIZE 0)[0 := response_type, 1 := 1]"

text \<open>
  One box in the list. The 32 bytes of \<open>file_name\<close> are those \<open>box_add\<close> leaves: its
  \<open>memset\<close> clears them, its \<open>strcpy\<close> puts the name and its NUL in front.
\<close>

definition name_bytes :: "box_t \<Rightarrow> u8 list" where
  "name_bytes x = patch 0 (file_name x @ [0]) (replicate BOX_LEN 0)"

definition list_response :: "u8 \<Rightarrow> box_t \<Rightarrow> u8 list" where
  "list_response is_last x =
     (let response = replicate MANAGER_LIST_RESPONSE_BUFFER_SIZE 0;
          response = response[0 := 8, 1 := is_last];
          response = patch 2 (take BOX_LEN (name_bytes x)) response;
          response = patch (2 + BOX_LEN) (u64_bytes (box_size x)) response;
          response = patch (10 + BOX_LEN) (u64_bytes (pub_num x)) response
      in patch (18 + BOX_LEN) (u64_bytes (sub_num x)) response)"

lemma length_name_bytes: "length (file_name x) < 32 \<Longrightarrow> length (name_bytes x) = 32"
  by (simp add: name_bytes_def patch_def)

lemma list_response_eq:
  "length (file_name x) < 32 \<Longrightarrow> list_response is_last x =
     [8, is_last] @ name_bytes x @ u64_bytes (box_size x) @ u64_bytes (pub_num x) @ u64_bytes (sub_num x)"
  by (simp add: list_response_def patch_def numeral_eq_Suc Let_def length_name_bytes)

end
