(* ===== verification/Pcq.thy ===== *)
theory Pcq
  imports Simulation
begin

text \<open>
  The bounded queue of \<open>producer-consumer.c\<close>. Each call is three critical sections: wait
  for room (or for an element) under \<open>pcq_current_size_lock\<close>, move the element under
  \<open>pcq_head_lock\<close> or \<open>pcq_tail_lock\<close>, adjust \<open>pcq_current_size\<close> under its lock again. The
  sections are one definition each; this theory runs them without interruption, and
  \<open>Pcq_Conc\<close> interleaves them. Elements are pointers, of any type here.
\<close>

section \<open>The queue\<close>

record 'e pcq =
  pcq_buffer :: "'e list option"
  pcq_capacity :: size_t
  pcq_current_size :: size_t
  pcq_head :: size_t
  pcq_tail :: size_t

text \<open>\<open>buffer\<close> is what \<open>malloc\<close> returns, with whatever it holds.\<close>

definition pcq_create :: "'e list option \<Rightarrow> size_t \<Rightarrow> 'e pcq \<Rightarrow> int \<times> 'e pcq" where
  "pcq_create buffer capacity queue =
     (let queue = queue\<lparr>pcq_buffer := buffer\<rparr> in
      if pcq_buffer queue = None then (-1, queue)
      else (0, queue\<lparr>pcq_capacity := capacity, pcq_current_size := 0, pcq_head := 0, pcq_tail := 0\<rparr>))"

text \<open>\<open>pcq_destroy\<close> frees the buffer and leaves the pointer to it dangling.\<close>

definition pcq_destroy :: "'e pcq \<Rightarrow> int \<times> 'e pcq" where
  "pcq_destroy queue = (0, queue\<lparr>pcq_buffer := None\<rparr>)"

section \<open>The critical sections\<close>

definition enqueue_sleeps :: "'e pcq \<Rightarrow> bool" where
  "enqueue_sleeps queue \<longleftrightarrow> pcq_current_size queue = pcq_capacity queue"

definition enqueue_store :: "'e \<Rightarrow> 'e pcq \<Rightarrow> 'e pcq res" where
  "enqueue_store x queue =
     bindE (aset (pcq_buffer queue) (unat (pcq_head queue)) x) (\<lambda>buffer.
     if pcq_capacity queue = 0 then Inl Undefined
     else Inr (queue\<lparr>pcq_buffer := buffer, pcq_head := (pcq_head queue + 1) mod pcq_capacity queue\<rparr>))"

definition enqueue_count :: "'e pcq \<Rightarrow> 'e pcq" where
  "enqueue_count queue = queue\<lparr>pcq_current_size := pcq_current_size queue + 1\<rparr>"

definition dequeue_sleeps :: "'e pcq \<Rightarrow> bool" where
  "dequeue_sleeps queue \<longleftrightarrow> pcq_current_size queue = 0"

definition dequeue_take :: "'e pcq \<Rightarrow> ('e \<times> 'e pcq) res" where
  "dequeue_take queue =
     bindE (aget (pcq_buffer queue) (unat (pcq_tail queue))) (\<lambda>x.
     if pcq_capacity queue = 0 then Inl Undefined
     else Inr (x, queue\<lparr>pcq_tail := (pcq_tail queue + 1) mod pcq_capacity queue\<rparr>))"

definition dequeue_count :: "'e pcq \<Rightarrow> 'e pcq" where
  "dequeue_count queue = queue\<lparr>pcq_current_size := pcq_current_size queue - 1\<rparr>"

text \<open>
  A call with no other thread around. When it has to sleep nobody wakes it, which is the
  value \<open>None\<close>; the queue is then unchanged.
\<close>

definition pcq_enqueue :: "'e \<Rightarrow> 'e pcq \<Rightarrow> (int option \<times> 'e pcq) res" where
  "pcq_enqueue x queue =
     (if enqueue_sleeps queue then Inr (None, queue)
      else bindE (enqueue_store x queue) (\<lambda>queue. Inr (Some 0, enqueue_count queue)))"

definition pcq_dequeue :: "'e pcq \<Rightarrow> ('e option \<times> 'e pcq) res" where
  "pcq_dequeue queue =
     (if dequeue_sleeps queue then Inr (None, queue)
      else bindE (dequeue_take queue) (\<lambda>(x, queue). Inr (Some x, dequeue_count queue)))"

section \<open>The elements of the queue\<close>

abbreviation pcq_limit :: "'e pcq \<Rightarrow> nat" where
  "pcq_limit queue \<equiv> unat (pcq_capacity queue)"

definition pcq_inv :: "'e pcq \<Rightarrow> bool" where
  "pcq_inv queue \<longleftrightarrow> pcq_buffer queue \<noteq> None \<and> length (the (pcq_buffer queue)) = pcq_limit queue
     \<and> unat (pcq_current_size queue) \<le> pcq_limit queue
     \<and> (0 < pcq_limit queue \<longrightarrow> unat (pcq_head queue) < pcq_limit queue \<and> unat (pcq_tail queue) < pcq_limit queue)
     \<and> (0 < pcq_limit queue \<longrightarrow>
          unat (pcq_head queue) = (unat (pcq_tail queue) + unat (pcq_current_size queue)) mod pcq_limit queue)"

definition pcq_contents :: "'e pcq \<Rightarrow> 'e list" where
  "pcq_contents queue =
     map (\<lambda>k. the (pcq_buffer queue) ! ((unat (pcq_tail queue) + k) mod pcq_limit queue))
       [0..<unat (pcq_current_size queue)]"

lemma unat_inc:
  fixes i c :: size_t
  assumes "unat i < unat c"
  shows "unat (i + 1) = unat i + 1"
proof -
  have "unat c < 2 ^ 64" using unsigned_less [where 'a = nat, of c] by simp
  then show ?thesis using assms by (simp add: unat_word_ariths)
qed

lemma unat_next:
  assumes "unat i < unat (c :: size_t)"
  shows "unat ((i + 1) mod c) = (unat i + 1) mod unat c"
proof -
  show ?thesis using unat_inc [OF assms] by (simp add: unat_mod)
qed

lemma unat_dec: "0 < unat (i :: size_t) \<Longrightarrow> unat (i - 1) = unat i - 1"
  by (intro unat_minus_one) (auto simp: unat_eq_0)

lemma mod_shift_neq:
  assumes "a < (n::nat)" and "j < m" and "m < n"
  shows "(a + j) mod n \<noteq> (a + m) mod n"
proof
  assume "(a + j) mod n = (a + m) mod n"
  then have "n dvd (a + m) - (a + j)" using assms(2) by (metis add_le_mono le_refl less_imp_le mod_eq_dvd_iff_nat)
  then have "n dvd m - j" by simp
  then show False using assms(2,3) by (metis dvd_imp_le less_imp_diff_less not_le zero_less_diff)
qed

lemma pcq_enqueue_eq:
  assumes inv: "pcq_inv queue"
  shows "\<exists>queue'. pcq_enqueue x queue =
      Inr (if length (pcq_contents queue) = pcq_limit queue then None else Some 0, queue')
    \<and> pcq_inv queue' \<and> pcq_limit queue' = pcq_limit queue
    \<and> pcq_contents queue' = (if length (pcq_contents queue) = pcq_limit queue then pcq_contents queue
        else pcq_contents queue @ [x])"
proof (cases "enqueue_sleeps queue")
  case True
  then show ?thesis using inv by (simp add: pcq_enqueue_def enqueue_sleeps_def pcq_contents_def)
next
  case False
  let ?n = "pcq_limit queue" and ?m = "unat (pcq_current_size queue)" and ?h = "unat (pcq_head queue)"
    and ?t = "unat (pcq_tail queue)"
  obtain b where b: "pcq_buffer queue = Some b" "length b = ?n" using inv by (auto simp: pcq_inv_def)
  have "pcq_current_size queue \<noteq> pcq_capacity queue" using False by (simp add: enqueue_sleeps_def)
  then have "?m \<noteq> ?n" by (metis unsigned_word_eqI)
  then have m: "?m < ?n" using inv by (simp add: pcq_inv_def)
  then have ht: "?h < ?n" "?t < ?n" "?h = (?t + ?m) mod ?n" using inv by (auto simp: pcq_inv_def)
  have n0: "pcq_capacity queue \<noteq> 0" using m by (auto simp: unat_eq_0)
  let ?q = "queue\<lparr>pcq_buffer := Some (b[?h := x]), pcq_head := (pcq_head queue + 1) mod pcq_capacity queue,
     pcq_current_size := pcq_current_size queue + 1\<rparr>"
  have run: "pcq_enqueue x queue = Inr (Some 0, ?q)"
    using False n0 b ht(1) by (simp add: pcq_enqueue_def enqueue_store_def enqueue_count_def)
  have inv': "pcq_inv ?q"
    using b m ht unat_inc [OF m] unat_next [OF ht(1)] by (simp add: pcq_inv_def mod_simps mod_Suc_eq)
  have "pcq_contents ?q = pcq_contents queue @ [x]"
  proof -
    have other: "(?t + k) mod ?n \<noteq> ?h" if "k < ?m" for k using mod_shift_neq [OF ht(2) that m] ht(3) by simp
    have "b[?h := x] ! ((?t + k) mod ?n) = b ! ((?t + k) mod ?n)" if "k < ?m" for k
      using other [OF that] by (metis nth_list_update_neq)
    then have "map (\<lambda>k. b[?h := x] ! ((?t + k) mod ?n)) [0..<?m] = map (\<lambda>k. b ! ((?t + k) mod ?n)) [0..<?m]"
      by simp
    moreover have "b[?h := x] ! ((?t + ?m) mod ?n) = x" using ht b by simp
    ultimately show ?thesis unfolding pcq_contents_def using b unat_inc [OF m] by simp
  qed
  then show ?thesis using run inv' m by (simp add: pcq_contents_def)
qed

lemma pcq_dequeue_eq:
  assumes inv: "pcq_inv queue"
  shows "\<exists>queue'. pcq_dequeue queue =
      Inr (case pcq_contents queue of [] \<Rightarrow> None | x # _ \<Rightarrow> Some x, queue')
    \<and> pcq_inv queue' \<and> pcq_limit queue' = pcq_limit queue \<and> pcq_contents queue' = tl (pcq_contents queue)"
proof (cases "dequeue_sleeps queue")
  case True
  then show ?thesis using inv by (simp add: pcq_dequeue_def dequeue_sleeps_def pcq_contents_def)
next
  case False
  let ?n = "pcq_limit queue" and ?m = "unat (pcq_current_size queue)" and ?h = "unat (pcq_head queue)"
    and ?t = "unat (pcq_tail queue)"
  obtain b where b: "pcq_buffer queue = Some b" "length b = ?n" using inv by (auto simp: pcq_inv_def)
  have m: "0 < ?m" "?m \<le> ?n" using False inv by (auto simp: dequeue_sleeps_def pcq_inv_def unat_gt_0)
  then have ht: "?h < ?n" "?t < ?n" "?h = (?t + ?m) mod ?n" using inv by (auto simp: pcq_inv_def)
  have n0: "pcq_capacity queue \<noteq> 0" using m by auto
  let ?q = "queue\<lparr>pcq_tail := (pcq_tail queue + 1) mod pcq_capacity queue,
     pcq_current_size := pcq_current_size queue - 1\<rparr>"
  have run: "pcq_dequeue queue = Inr (Some (b ! ?t), ?q)"
    using False n0 b ht(2) by (simp add: pcq_dequeue_def dequeue_take_def dequeue_count_def)
  have sm: "((?t + 1) mod ?n + (?m - 1)) mod ?n = (?t + ?m) mod ?n"
  proof -
    have "((?t + 1) mod ?n + (?m - 1)) mod ?n = (?t + 1 + (?m - 1)) mod ?n" by (rule mod_add_left_eq)
    then show ?thesis using m(1) by simp
  qed
  have inv': "pcq_inv ?q"
    using b m ht unat_dec [OF m(1)] unat_next [OF ht(2)] sm by (simp add: pcq_inv_def)
  have split: "[0..<?m] = 0 # map Suc [0..<?m - 1]"
    using m(1) by (simp add: map_Suc_upt upt_conv_Cons del: upt_Suc)
  have "pcq_contents queue = b ! ?t # map (\<lambda>k. b ! ((?t + Suc k) mod ?n)) [0..<?m - 1]"
    unfolding pcq_contents_def split using b ht(2) by simp
  moreover have "pcq_contents ?q = map (\<lambda>k. b ! ((?t + Suc k) mod ?n)) [0..<?m - 1]"
    unfolding pcq_contents_def using b unat_dec [OF m(1)] unat_next [OF ht(2)] by (simp add: mod_simps)
  ultimately show ?thesis using run inv' by simp
qed

section \<open>The queue implements a bounded list\<close>

datatype 'e pcq_request = Enqueue 'e | Dequeue

fun pcq_step :: "'e pcq_request \<Rightarrow> 'e pcq \<Rightarrow> ('e option option \<times> 'e pcq) res" where
  "pcq_step (Enqueue x) queue =
     bindE (pcq_enqueue x queue) (\<lambda>(r, queue). Inr (case r of None \<Rightarrow> None | Some _ \<Rightarrow> Some None, queue))"
| "pcq_step Dequeue queue =
     bindE (pcq_dequeue queue) (\<lambda>(r, queue). Inr (case r of None \<Rightarrow> None | Some x \<Rightarrow> Some (Some x), queue))"

text \<open>The specification: the capacity and the elements, oldest first; \<open>None\<close> means that the call sleeps.\<close>

fun fifo_step :: "'e pcq_request \<Rightarrow> nat \<times> 'e list \<Rightarrow> 'e option option \<times> nat \<times> 'e list" where
  "fifo_step (Enqueue x) (n, xs) = (if length xs = n then (None, n, xs) else (Some None, n, xs @ [x]))"
| "fifo_step Dequeue (n, xs) = (case xs of [] \<Rightarrow> (None, n, xs) | x # xs' \<Rightarrow> (Some (Some x), n, xs'))"

definition pcq_abs :: "'e pcq \<Rightarrow> nat \<times> 'e list" where
  "pcq_abs queue = (pcq_limit queue, pcq_contents queue)"

lemma pcq_step_simulates:
  assumes "pcq_inv queue"
  shows "\<exists>x queue'. pcq_step req queue = Inr (x, queue') \<and> pcq_inv queue'
    \<and> fifo_step req (pcq_abs queue) = (x, pcq_abs queue')"
proof (cases req)
  case (Enqueue x)
  then show ?thesis using pcq_enqueue_eq [OF assms, of x] by (auto simp: pcq_abs_def split: if_splits)
next
  case Dequeue
  then show ?thesis using pcq_dequeue_eq [OF assms] by (auto simp: pcq_abs_def split: list.splits)
qed

interpretation pcq: simulation pcq_inv pcq_abs "\<lambda>_ _. True" pcq_step fifo_step
  by unfold_locales (rule pcq_step_simulates)

lemma pcq_create_inv:
  assumes "length buffer = unat capacity"
  shows "pcq_create (Some buffer) capacity queue = (0, snd (pcq_create (Some buffer) capacity queue))"
    and "pcq_inv (snd (pcq_create (Some buffer) capacity queue))"
    and "pcq_abs (snd (pcq_create (Some buffer) capacity queue)) = (unat capacity, [])"
  using assms by (simp_all add: pcq_create_def pcq_inv_def pcq_abs_def pcq_contents_def)

end
