(* ===== verification/Broker.thy ===== *)
theory Broker
  imports Wire Pcq
begin

text \<open>
  The broker (\<open>mbroker/mbroker.c\<close>): its start, one function for each kind of request, and
  the dispatch of a request. The state is the file system and the table of boxes; a handler
  returns where it has got (\<open>handler\<close>: it is over, with the value it returns, or it waits in
  its loop), the messages it wrote to the client's pipe, and the next state. What system
  calls and the calls on mutexes return is the environment, an argument.
\<close>

section \<open>State and environment\<close>

record broker =
  b_fs :: fs
  b_table :: box_table

text \<open>
  The \<open>k\<close>-th write to the client gives \<open>e_write e k\<close>; the \<open>k\<close>-th call of a file system
  operation, of an operation on the table and on a box's mutex meet the mutex results
  \<open>e_tfs e k\<close>, \<open>e_table e k\<close> and \<open>e_box e k\<close>.
\<close>

record env =
  e_open :: "cstring \<Rightarrow> int"
  e_write :: "nat \<Rightarrow> int"
  e_tfs :: "nat \<Rightarrow> mutex_rc"
  e_table :: "nat \<Rightarrow> mutex_rc"
  e_box :: "nat \<Rightarrow> mutex_rc"
  e_signal_fails :: bool
  e_malloc :: "addr option"
  e_realloc :: "addr option list option"

text \<open>No system call fails.\<close>

definition calm :: "env \<Rightarrow> bool" where
  "calm e \<longleftrightarrow> (\<forall>p. e_open e p \<noteq> -1) \<and> (\<forall>k. 0 \<le> e_write e k) \<and> (\<forall>k. e_tfs e k = mutex_ok)
     \<and> (\<forall>k. e_table e k = mutex_ok) \<and> (\<forall>k. e_box e k = mutex_ok) \<and> \<not> e_signal_fails e"

text \<open>\<open>name[0] = '/'; strcpy(name + 1, box)\<close> on an array of 33 bytes.\<close>

definition box_path :: "cstring \<Rightarrow> cstring res" where
  "box_path box = (if length box \<ge> BOX_LEN then Inl Undefined else Inr (47 # box))"

text \<open>
  Where a handler is: over with the value it returned, or at the top of the loop of
  \<open>publisher_register\<close> or \<open>subscriber_register\<close>, with the local variables the loop uses. A
  handler that is in a loop keeps its thread until the loop is left; it goes on when its
  client sends something, or when its box has a message it has not sent yet.
\<close>

datatype handler =
    Over int
  | Publishing addr int "u8 list"
  | Subscribing cstring addr int "u8 list"

type_synonym outcome = "handler \<times> sent \<times> broker"

section \<open>Manager: create, remove\<close>

definition manager_create_box :: "env \<Rightarrow> u8 list \<Rightarrow> broker \<Rightarrow> (int \<times> sent \<times> broker) res" where
  "manager_create_box e request b =
     bindE (string_at 1 request) (\<lambda>tx.
     if e_open e tx = -1 then Inr (-1, [], b)
     else
       bindE (string_at 257 request) (\<lambda>box_name.
       bindE (box_find (e_table e 0) box_name (b_table b)) (\<lambda>r.
       if r \<noteq> None then
         Inr (-1, [(tx, manager_response 4 (-1) ''box_find error: there's a box with that name already.'')], b)
       else
         bindE (box_path box_name) (\<lambda>name.
         bindE (tfs_open (e_tfs e 0) (Some name) TFS_O_CREAT (b_fs b)) (\<lambda>(fd, s).
         let b = b\<lparr>b_fs := s\<rparr> in
         bindE (if fd = -1 then Inr (-1, ''tfs_open error: could not open the box file.'', b)
                else
                  bindE (tfs_close (e_tfs e 1) fd (b_fs b)) (\<lambda>(r, s).
                  let b = b\<lparr>b_fs := s\<rparr> in
                  if r = -1 then Inr (-1, ''tfs_close error: couldn't close the box file.'', b)
                  else
                    bindE (box_add (e_table e 1) (e_malloc e) (e_realloc e) (tl name) (b_table b)) (\<lambda>(r, t).
                    let b = b\<lparr>b_table := t\<rparr> in
                    if r = -1 then Inr (-1, ''box_add error: could not add the box.'', b)
                    else Inr (0, '''', b))))
           (\<lambda>(return_code, error_msg, b).
           Inr (if e_write e 0 < 0 then -1 else return_code, [(tx, manager_response 4 return_code error_msg)], b)))))))"

definition manager_remove_box :: "env \<Rightarrow> u8 list \<Rightarrow> broker \<Rightarrow> (int \<times> sent \<times> broker) res" where
  "manager_remove_box e request b =
     bindE (string_at 1 request) (\<lambda>tx.
     if e_open e tx = -1 then Inr (-1, [], b)
     else
       let respond = (\<lambda>(return_code, error_msg, b).
         Inr (if e_write e 0 < 0 then -1 else return_code, [(tx, manager_response 6 return_code error_msg)], b))
       in
       bindE (string_at 257 request) (\<lambda>box_name.
       bindE (box_path box_name) (\<lambda>name.
       bindE (box_find (e_table e 0) box_name (b_table b)) (\<lambda>r.
       case r of
         None \<Rightarrow> respond (-1, ''box_find error: box does not exist.'', b)
       | Some p \<Rightarrow>
           bindE (deref p (b_table b)) (\<lambda>box.
           if lock_rc (e_box e 0) \<noteq> 0 then Inr (-1, [], b)
           else if pub_num box > 0 \<or> sub_num box > 0 then
             Inr (if unlock_rc (e_box e 0) \<noteq> 0 then -1 else 0, [], b)
           else if unlock_rc (e_box e 0) \<noteq> 0 then Inr (-1, [], b)
           else
             bindE (tfs_unlink (e_tfs e 0) (Some name) (b_fs b)) (\<lambda>(r, s).
             let b = b\<lparr>b_fs := s\<rparr> in
             if r = -1 then respond (-1, ''tfs_unlink error: could not delete the box file.'', b)
             else
               bindE (box_remove (e_table e 1) (tl name) (b_table b)) (\<lambda>(r, t).
               let b = b\<lparr>b_table := t\<rparr> in
               if r = -1 then respond (-1, ''box_remove error: could not remove the box.'', b)
               else respond (0, '''', b))))))))"

section \<open>Manager: lists\<close>

text \<open>
  The loop over the slots \<open>i\<close> to \<open>n - 1\<close>; \<open>is_last\<close> is the flag as the slots before have left
  it and \<open>k\<close> the number of messages sent.
\<close>

function list_loop :: "env \<Rightarrow> cstring \<Rightarrow> nat \<Rightarrow> nat \<Rightarrow> u8 \<Rightarrow> nat \<Rightarrow> box_table \<Rightarrow> (int \<times> sent) res" where
  "list_loop e tx i n is_last k t =
     (if i < n then
        bindE (aget (boxes t) i) (\<lambda>b.
        case b of
          None \<Rightarrow> list_loop e tx (Suc i) n is_last k t
        | Some p \<Rightarrow>
            let is_last = (if i = n - 1 then 1 else is_last) in
            bindE (deref p t) (\<lambda>box.
            if lock_rc (e_box e k) \<noteq> 0 then Inr (-1, [])
            else
              let response = list_response is_last box in
              if unlock_rc (e_box e k) \<noteq> 0 then Inr (-1, [])
              else if e_write e k < 0 then Inr (-1, [(tx, response)])
              else
                bindE (list_loop e tx (Suc i) n is_last (Suc k) t) (\<lambda>(r, ws).
                Inr (r, (tx, response) # ws))))
      else Inr (if unlock_rc (e_table e 0) \<noteq> 0 then -1 else 0, []))"
  by pat_completeness auto
termination by (relation "measure (\<lambda>(e, tx, i, n, l, k, t). n - i)") auto

declare list_loop.simps [simp del]

definition manager_list_box :: "env \<Rightarrow> u8 list \<Rightarrow> broker \<Rightarrow> (int \<times> sent \<times> broker) res" where
  "manager_list_box e request b =
     bindE (string_at 1 request) (\<lambda>tx.
     if e_open e tx = -1 then Inr (-1, [], b)
     else if lock_rc (e_table e 0) \<noteq> 0 then Inr (-1, [], b)
     else if num_elem (b_table b) = 0 then
       Inr (if e_write e 0 < 0 \<or> unlock_rc (e_table e 0) \<noteq> 0 then -1 else 0, [(tx, empty_list_response 8)], b)
     else
       bindE (list_loop e tx 0 (unat (bt_size (b_table b))) 0 0 (b_table b)) (\<lambda>(r, ws). Inr (r, ws, b)))"

text \<open>
  With boxes in the table \<open>manager_list_subs\<close> runs off its end with the table's mutex held:
  it has no value, and its caller uses it.
\<close>

definition manager_list_subs :: "env \<Rightarrow> u8 list \<Rightarrow> broker \<Rightarrow> (int \<times> sent \<times> broker) res" where
  "manager_list_subs e request b =
     bindE (string_at 1 request) (\<lambda>tx.
     if e_open e tx = -1 then Inr (-1, [], b)
     else if lock_rc (e_table e 0) \<noteq> 0 then Inr (-1, [], b)
     else if num_elem (b_table b) = 0 then
       Inr (if e_write e 0 < 0 \<or> unlock_rc (e_table e 0) \<noteq> 0 then -1 else 0, [(tx, empty_list_response 12)], b)
     else Inl Undefined)"

section \<open>Publishers\<close>

text \<open>
  \<open>publisher_register\<close> up to its loop: the box and the handle of the publisher, or \<open>None\<close>
  when it has returned \<open>-1\<close>. After a failed \<open>tfs_open\<close> it closes the handle \<open>-1\<close>.
\<close>

definition publisher_start :: "env \<Rightarrow> u8 list \<Rightarrow> broker \<Rightarrow> ((addr \<times> int) option \<times> broker) res" where
  "publisher_start e request b =
     (if e_signal_fails e then Inl Exit_failure
      else
        bindE (string_at 1 request) (\<lambda>rx.
        if e_open e rx = -1 then Inr (None, b)
        else
          bindE (string_at 257 request) (\<lambda>box_name.
          bindE (box_register_pub (e_table e 0) (e_box e 0) box_name (b_table b)) (\<lambda>(box, t).
          let b = b\<lparr>b_table := t\<rparr> in
          case box of
            None \<Rightarrow> Inr (None, b)
          | Some p \<Rightarrow>
              bindE (box_path box_name) (\<lambda>nome.
              bindE (tfs_open (e_tfs e 0) (Some nome) TFS_O_APPEND (b_fs b)) (\<lambda>(fd, s).
              let b = b\<lparr>b_fs := s\<rparr> in
              if fd = -1 then bindE (tfs_close (e_tfs e 1) fd (b_fs b)) (\<lambda>(r, s). Inr (None, b\<lparr>b_fs := s\<rparr>))
              else Inr (Some (p, fd), b)))))))"

text \<open>The error exits of the loop: close the file, return \<open>-1\<close>.\<close>

definition publisher_fail :: "env \<Rightarrow> nat \<Rightarrow> int \<Rightarrow> broker \<Rightarrow> (handler \<times> broker) res" where
  "publisher_fail e c fd b = bindE (tfs_close (e_tfs e c) fd (b_fs b)) (\<lambda>(r, s). Inr (Over (-1), b\<lparr>b_fs := s\<rparr>))"

text \<open>After the end of the stream: unregister, close.\<close>

definition publisher_end :: "env \<Rightarrow> nat \<Rightarrow> addr \<Rightarrow> int \<Rightarrow> broker \<Rightarrow> (handler \<times> broker) res" where
  "publisher_end e c p fd b =
     bindE (box_unregister_pub (e_box e c) (Some p) (b_table b)) (\<lambda>(r, t).
     let b = b\<lparr>b_table := t\<rparr> in
     if r = -1 then Inr (Over (-1), b)
     else
       bindE (tfs_close (e_tfs e (Suc c)) fd (b_fs b)) (\<lambda>(r, s).
       Inr (Over (if r = -1 then -1 else 0), b\<lparr>b_fs := s\<rparr>)))"

text \<open>One message: the write to the file and, unless it failed, the count of its bytes.\<close>

definition publisher_store :: "env \<Rightarrow> nat \<Rightarrow> addr \<Rightarrow> int \<Rightarrow> u8 list \<Rightarrow> broker \<Rightarrow> (bool \<times> broker) res" where
  "publisher_store e c p fd message b =
     bindE (tfs_write (e_tfs e c) fd message (of_nat MESSAGE_LEN) (b_fs b)) (\<lambda>(wrote, s).
     let b = b\<lparr>b_fs := s\<rparr> in
     if wrote < 0 then Inr (False, b)
     else
       bindE (deref p (b_table b)) (\<lambda>box.
       if lock_rc (e_box e c) \<noteq> 0 then Inl Exit_failure
       else
         let t = b_table b;
             t = t\<lparr>heap := (heap t)(p \<mapsto> box\<lparr>box_size := box_size box + of_int wrote\<rparr>)\<rparr> in
         if unlock_rc (e_box e c) \<noteq> 0 then Inl Exit_failure else Inr (True, b\<lparr>b_table := t\<rparr>)))"

text \<open>
  The loop, on the results of \<open>read\<close>. \<open>c\<close> counts the calls so far. When the results are
  used up, the publisher is connected and the handler waits for it.
\<close>

fun publisher_loop :: "env \<Rightarrow> nat \<Rightarrow> addr \<Rightarrow> int \<Rightarrow> u8 list \<Rightarrow> read_results \<Rightarrow> broker \<Rightarrow> (handler \<times> broker) res" where
  "publisher_loop e c p fd buffer [] b = Inr (Publishing p fd buffer, b)"
| "publisher_loop e c p fd buffer (r # rs) b =
     (let bytes = take PUBLISHER_BUFFER_SIZE (case r of None \<Rightarrow> [] | Some bs \<Rightarrow> bs);
          buffer = patch 0 bytes buffer
      in
      if r \<noteq> None \<and> bytes = [] then publisher_end e c p fd b
      else if buffer ! 0 \<noteq> 9 then publisher_fail e (Suc c) fd b
      else if length bytes = 1 then publisher_loop e c p fd buffer rs b
      else if r = None then publisher_fail e (Suc c) fd b
      else
        bindE (publisher_store e c p fd (drop 1 buffer) b) (\<lambda>(stored, b).
        if stored then publisher_loop e (Suc c) p fd (patch 1 (replicate MESSAGE_LEN 0) buffer) rs b
        else publisher_fail e (Suc c) fd b))"

definition publisher_register :: "env \<Rightarrow> u8 list \<Rightarrow> read_results \<Rightarrow> broker \<Rightarrow> (handler \<times> broker) res" where
  "publisher_register e request reads b =
     bindE (publisher_start e request b) (\<lambda>(session, b).
     case session of
       None \<Rightarrow> Inr (Over (-1), b)
     | Some (p, fd) \<Rightarrow> publisher_loop e 1 p fd (replicate PUBLISHER_BUFFER_SIZE 0) reads b)"

section \<open>Subscribers\<close>

definition subscriber_start :: "env \<Rightarrow> u8 list \<Rightarrow> broker \<Rightarrow> ((cstring \<times> addr \<times> int) option \<times> broker) res" where
  "subscriber_start e request b =
     bindE (string_at 1 request) (\<lambda>tx.
     if e_open e tx = -1 then Inr (None, b)
     else
       bindE (string_at 257 request) (\<lambda>box_name.
       bindE (box_register_sub (e_table e 0) (e_box e 0) box_name (b_table b)) (\<lambda>(box, t).
       let b = b\<lparr>b_table := t\<rparr> in
       case box of
         None \<Rightarrow> Inr (None, b)
       | Some p \<Rightarrow>
           bindE (string_at 0 (47 # region 257 BOX_LEN request)) (\<lambda>name.
           bindE (tfs_open (e_tfs e 0) (Some name) 0 (b_fs b)) (\<lambda>(fd, s).
           let b = b\<lparr>b_fs := s\<rparr> in
           if fd = -1 then bindE (tfs_close (e_tfs e 1) fd (b_fs b)) (\<lambda>(r, s). Inr (None, b\<lparr>b_fs := s\<rparr>))
           else Inr (Some (tx, p, fd), b))))))"

text \<open>
  The loop, on the results of \<open>write\<close> and whether \<open>errno\<close> is \<open>EPIPE\<close>. The handler waits
  when the file has nothing to read, which is \<open>pthread_cond_wait\<close> with the mutex of the box
  given back, and it is at the top of the loop when the results are used up. \<open>response\<close> is
  the buffer of 1025 bytes that begins with 10.
\<close>

fun subscriber_loop ::
    "env \<Rightarrow> nat \<Rightarrow> cstring \<Rightarrow> addr \<Rightarrow> int \<Rightarrow> u8 list \<Rightarrow> (int \<times> bool) list \<Rightarrow> broker \<Rightarrow> outcome res" where
  "subscriber_loop e c tx p fd response [] b = Inr (Subscribing tx p fd response, [], b)"
| "subscriber_loop e c tx p fd response ((wrote, epipe) # ws) b =
     bindE (deref p (b_table b)) (\<lambda>_.
     if lock_rc (e_box e c) \<noteq> 0 then Inr (Over (-1), [], b)
     else
       bindE (tfs_read (e_tfs e c) fd (of_nat MESSAGE_LEN) (drop 1 response, b_fs b)) (\<lambda>(readd, buffer, s).
       let b = b\<lparr>b_fs := s\<rparr>; response = take 1 response @ buffer in
       if readd = 0 then Inr (Subscribing tx p fd response, [], b)
       else if unlock_rc (e_box e c) \<noteq> 0 then Inr (Over (-1), [], b)
       else if readd = -1 then
         bindE (tfs_close (e_tfs e (Suc c)) fd (b_fs b)) (\<lambda>(r, s). Inr (Over (-1), [], b\<lparr>b_fs := s\<rparr>))
       else if wrote \<le> 0 then
         if epipe then
           bindE (box_unregister_sub (e_box e (Suc c)) (Some p) (b_table b)) (\<lambda>(r, t).
           Inr (Over (if r = -1 then -1 else 0), [(tx, response)], b\<lparr>b_table := t\<rparr>))
         else
           bindE (tfs_close (e_tfs e (Suc c)) fd (b_fs b)) (\<lambda>(r, s). Inr (Over (-1), [(tx, response)], b\<lparr>b_fs := s\<rparr>))
       else
         bindE (subscriber_loop e (Suc c) tx p fd (patch 1 (replicate MESSAGE_LEN 0) response) ws b) (\<lambda>(r, out, b).
         Inr (r, (tx, response) # out, b))))"

definition subscriber_register :: "env \<Rightarrow> u8 list \<Rightarrow> (int \<times> bool) list \<Rightarrow> broker \<Rightarrow> outcome res" where
  "subscriber_register e request ws b =
     bindE (subscriber_start e request b) (\<lambda>(session, b).
     case session of
       None \<Rightarrow> Inr (Over (-1), [], b)
     | Some (tx, p, fd) \<Rightarrow> subscriber_loop e 1 tx p fd ((replicate SUBSCRIBER_BUFFER_SIZE 0)[0 := 10]) ws b)"

section \<open>Dispatch\<close>

text \<open>
  The body of the loop of \<open>handle_request\<close>, on a request taken from the queue. What a
  handler returns goes to the log only; a request of an unknown type is dropped.
\<close>

definition handle_request ::
    "env \<Rightarrow> read_results \<Rightarrow> (int \<times> bool) list \<Rightarrow> u8 list \<Rightarrow> broker \<Rightarrow> outcome res" where
  "handle_request e reads writes buffer b =
     (let code = buffer ! 0;
          manager = (\<lambda>res. bindE res (\<lambda>(r, ws, b). Inr (Over r, ws, b)))
      in
      if code = 1 then bindE (publisher_register e buffer reads b) (\<lambda>(h, b). Inr (h, [], b))
      else if code = 2 then subscriber_register e buffer writes b
      else if code = 3 then manager (manager_create_box e buffer b)
      else if code = 5 then manager (manager_remove_box e buffer b)
      else if code = 7 then manager (manager_list_box e buffer b)
      else if code = 11 then manager (manager_list_subs e buffer b)
      else Inr (Over 0, [], b))"

text \<open>
  A handler goes on where it was. A subscriber's handler wakes up with the mutex of the box
  taken again, which is what the first lock of its loop stands for then.
\<close>

definition resume ::
    "env \<Rightarrow> read_results \<Rightarrow> (int \<times> bool) list \<Rightarrow> handler \<Rightarrow> broker \<Rightarrow> outcome res" where
  "resume e reads writes w b =
     (case w of
        Over v \<Rightarrow> Inr (w, [], b)
      | Publishing p fd buffer \<Rightarrow> bindE (publisher_loop e 0 p fd buffer reads b) (\<lambda>(h, b). Inr (h, [], b))
      | Subscribing tx p fd response \<Rightarrow> subscriber_loop e 0 tx p fd response writes b)"

end
