(* ===== verification/Live.thy ===== *)
theory Live
  imports Broker
begin

text \<open>
  The sessions of \<open>mbroker.c\<close> cut into the steps between which other worker threads run: a
  session is registered with its box and opens the file; a publisher reads a message and
  writes it to the file, broadcasts, counts the bytes; a subscriber reads the file with the
  mutex of its box held and falls asleep or lets go of the mutex and writes to its pipe; a
  session is unregistered, or fails, and closes the file. The same is done for removing a
  box. Each step is a function on the state of the broker; \<open>live_step\<close> interleaves the steps
  of any number of sessions.
\<close>

section \<open>Where a session stands\<close>

text \<open>
  \<open>Pub_Open\<close> and \<open>Sub_Open\<close> carry the request, the points of a loop the buffer of the handler,
  \<open>Closing\<close> what the handler returns if the file can be closed. \<open>Sub_Wait\<close> is the one point
  between two steps at which the mutex of the box is held: \<open>tfs_read\<close> has found nothing and
  \<open>pthread_cond_wait\<close> is about to let go of it.
\<close>

datatype point =
    Pub_Open "u8 list"
  | Sub_Open "u8 list"
  | Pub_Read "u8 list"
  | Pub_Broadcast int "u8 list"
  | Pub_Count int "u8 list"
  | Sub_Read "u8 list"
  | Sub_Wait "u8 list"
  | Sub_Asleep "u8 list"
  | Sub_Send "u8 list"
  | Closing int
  | Returned int

section \<open>The steps of a publisher\<close>

text \<open>Up to the registration with the box: the box, or \<open>None\<close> when the handler returns \<open>-1\<close>.\<close>

definition pub_enter :: "env \<Rightarrow> u8 list \<Rightarrow> broker \<Rightarrow> (addr option \<times> broker) res" where
  "pub_enter e request b =
     (if e_signal_fails e then Inl Exit_failure
      else
        bindE (string_at 1 request) (\<lambda>rx.
        if e_open e rx = -1 then Inr (None, b)
        else
          bindE (string_at 257 request) (\<lambda>box_name.
          bindE (box_register_pub (e_table e 0) (e_box e 0) box_name (b_table b)) (\<lambda>(box, t).
          Inr (box, b\<lparr>b_table := t\<rparr>)))))"

text \<open>
  The opening of the file: the handle and where the session goes on. Closing the handle \<open>-1\<close>
  after a failure reads and changes nothing that is shared, so it is part of the step.
\<close>

definition pub_open :: "env \<Rightarrow> u8 list \<Rightarrow> broker \<Rightarrow> (int \<times> point \<times> broker) res" where
  "pub_open e request b =
     bindE (string_at 257 request) (\<lambda>box_name.
     bindE (box_path box_name) (\<lambda>nome.
     bindE (tfs_open (e_tfs e 0) (Some nome) TFS_O_APPEND (b_fs b)) (\<lambda>(fd, s).
     let b = b\<lparr>b_fs := s\<rparr> in
     if fd = -1 then bindE (tfs_close (e_tfs e 1) fd (b_fs b)) (\<lambda>(r, s). Inr (fd, Returned (-1), b\<lparr>b_fs := s\<rparr>))
     else Inr (fd, Pub_Read (replicate PUBLISHER_BUFFER_SIZE 0), b))))"

text \<open>
  From one \<open>read\<close> to the write into the file. At the end of the stream the publisher is
  unregistered; then, and after an error, the file remains to be closed.
\<close>

definition pub_receive :: "env \<Rightarrow> nat \<Rightarrow> addr \<Rightarrow> int \<Rightarrow> u8 list option \<Rightarrow> u8 list \<Rightarrow> broker \<Rightarrow> (point \<times> broker) res" where
  "pub_receive e c p fd r buffer b =
     (let bytes = take PUBLISHER_BUFFER_SIZE (case r of None \<Rightarrow> [] | Some bs \<Rightarrow> bs);
          buffer = patch 0 bytes buffer
      in
      if r \<noteq> None \<and> bytes = [] then
        bindE (box_unregister_pub (e_box e c) (Some p) (b_table b)) (\<lambda>(r, t).
        Inr (if r = -1 then Returned (-1) else Closing 0, b\<lparr>b_table := t\<rparr>))
      else if buffer ! 0 \<noteq> 9 then Inr (Closing (-1), b)
      else if length bytes = 1 then Inr (Pub_Read buffer, b)
      else if r = None then Inr (Closing (-1), b)
      else
        bindE (tfs_write (e_tfs e c) fd (drop 1 buffer) (of_nat MESSAGE_LEN) (b_fs b)) (\<lambda>(wrote, s).
        Inr (if wrote < 0 then Closing (-1) else Pub_Broadcast wrote buffer, b\<lparr>b_fs := s\<rparr>)))"

text \<open>The critical section that adds to the size of the box; then the buffer is cleared.\<close>

definition pub_count :: "env \<Rightarrow> nat \<Rightarrow> addr \<Rightarrow> int \<Rightarrow> u8 list \<Rightarrow> broker \<Rightarrow> (point \<times> broker) res" where
  "pub_count e c p wrote buffer b =
     bindE (deref p (b_table b)) (\<lambda>box.
     if lock_rc (e_box e c) \<noteq> 0 then Inl Exit_failure
     else
       let t = b_table b;
           t = t\<lparr>heap := (heap t)(p \<mapsto> box\<lparr>box_size := box_size box + of_int wrote\<rparr>)\<rparr>
       in if unlock_rc (e_box e c) \<noteq> 0 then Inl Exit_failure
          else Inr (Pub_Read (patch 1 (replicate MESSAGE_LEN 0) buffer), b\<lparr>b_table := t\<rparr>))"

text \<open>The close with which a session of either kind ends.\<close>

definition session_close :: "env \<Rightarrow> nat \<Rightarrow> int \<Rightarrow> int \<Rightarrow> broker \<Rightarrow> (point \<times> broker) res" where
  "session_close e c fd v b =
     bindE (tfs_close (e_tfs e c) fd (b_fs b)) (\<lambda>(r, s).
     Inr (Returned (if r = -1 then -1 else v), b\<lparr>b_fs := s\<rparr>))"

section \<open>The steps of a subscriber\<close>

text \<open>The pipe and the box, or \<open>None\<close> when the handler returns \<open>-1\<close>; then the opening of the file.\<close>

definition sub_enter :: "env \<Rightarrow> u8 list \<Rightarrow> broker \<Rightarrow> ((cstring \<times> addr) option \<times> broker) res" where
  "sub_enter e request b =
     bindE (string_at 1 request) (\<lambda>tx.
     if e_open e tx = -1 then Inr (None, b)
     else
       bindE (string_at 257 request) (\<lambda>box_name.
       bindE (box_register_sub (e_table e 0) (e_box e 0) box_name (b_table b)) (\<lambda>(box, t).
       Inr (map_option (Pair tx) box, b\<lparr>b_table := t\<rparr>))))"

definition sub_open :: "env \<Rightarrow> u8 list \<Rightarrow> broker \<Rightarrow> (int \<times> point \<times> broker) res" where
  "sub_open e request b =
     bindE (string_at 0 (47 # region 257 BOX_LEN request)) (\<lambda>name.
     bindE (tfs_open (e_tfs e 0) (Some name) 0 (b_fs b)) (\<lambda>(fd, s).
     let b = b\<lparr>b_fs := s\<rparr> in
     if fd = -1 then bindE (tfs_close (e_tfs e 1) fd (b_fs b)) (\<lambda>(r, s). Inr (fd, Returned (-1), b\<lparr>b_fs := s\<rparr>))
     else Inr (fd, Sub_Read ((replicate SUBSCRIBER_BUFFER_SIZE 0)[0 := 10]), b)))"

text \<open>
  Taking the mutex and reading. With nothing to read the mutex stays held; otherwise it is let
  go of in the same step, since no other thread can tell.
\<close>

definition sub_try :: "env \<Rightarrow> nat \<Rightarrow> addr \<Rightarrow> int \<Rightarrow> u8 list \<Rightarrow> broker \<Rightarrow> (point \<times> broker) res" where
  "sub_try e c p fd response b =
     bindE (deref p (b_table b)) (\<lambda>_.
     if lock_rc (e_box e c) \<noteq> 0 then Inr (Returned (-1), b)
     else
       bindE (tfs_read (e_tfs e c) fd (of_nat MESSAGE_LEN) (drop 1 response, b_fs b)) (\<lambda>(readd, buffer, s).
       let b = b\<lparr>b_fs := s\<rparr>; response = take 1 response @ buffer in
       if readd = 0 then Inr (Sub_Wait response, b)
       else if unlock_rc (e_box e c) \<noteq> 0 then Inr (Returned (-1), b)
       else Inr (if readd = -1 then Closing (-1) else Sub_Send response, b)))"

text \<open>The write to the client, given its result and whether \<open>errno\<close> is \<open>EPIPE\<close>.\<close>

definition sub_send :: "env \<Rightarrow> nat \<Rightarrow> addr \<Rightarrow> int \<times> bool \<Rightarrow> u8 list \<Rightarrow> broker \<Rightarrow> (point \<times> broker) res" where
  "sub_send e c p w response b =
     (let (wrote, epipe) = w in
      if wrote \<le> 0 then
        if epipe then
          bindE (box_unregister_sub (e_box e (Suc c)) (Some p) (b_table b)) (\<lambda>(r, t).
          Inr (Returned (if r = -1 then -1 else 0), b\<lparr>b_table := t\<rparr>))
        else Inr (Closing (-1), b)
      else Inr (Sub_Read (patch 1 (replicate MESSAGE_LEN 0) response), b))"

section \<open>Removing a box in two steps\<close>

text \<open>
  Up to the unlocking of the box's mutex: \<open>None\<close> when the handler goes on to remove the box,
  otherwise its result and what it wrote.
\<close>

definition remove_check :: "env \<Rightarrow> u8 list \<Rightarrow> broker \<Rightarrow> (int \<times> sent) option res" where
  "remove_check e request b =
     bindE (string_at 1 request) (\<lambda>tx.
     if e_open e tx = -1 then Inr (Some (-1, []))
     else
       bindE (string_at 257 request) (\<lambda>box_name.
       bindE (box_path box_name) (\<lambda>name.
       bindE (box_find (e_table e 0) box_name (b_table b)) (\<lambda>r.
       case r of
         None \<Rightarrow> Inr (Some (-1, [(tx, manager_response 6 (-1) ''box_find error: box does not exist.'')]))
       | Some p \<Rightarrow>
           bindE (deref p (b_table b)) (\<lambda>box.
           if lock_rc (e_box e 0) \<noteq> 0 then Inr (Some (-1, []))
           else if pub_num box > 0 \<or> sub_num box > 0 then
             Inr (Some (if unlock_rc (e_box e 0) \<noteq> 0 then -1 else 0, []))
           else if unlock_rc (e_box e 0) \<noteq> 0 then Inr (Some (-1, []))
           else Inr None)))))"

definition remove_finish :: "env \<Rightarrow> u8 list \<Rightarrow> broker \<Rightarrow> (int \<times> sent \<times> broker) res" where
  "remove_finish e request b =
     bindE (string_at 1 request) (\<lambda>tx.
     bindE (string_at 257 request) (\<lambda>box_name.
     bindE (box_path box_name) (\<lambda>name.
     let respond = (\<lambda>(return_code, error_msg, b).
         Inr (if e_write e 0 < 0 then -1 else return_code, [(tx, manager_response 6 return_code error_msg)], b))
     in
     bindE (tfs_unlink (e_tfs e 0) (Some name) (b_fs b)) (\<lambda>(r, s).
     let b = b\<lparr>b_fs := s\<rparr> in
     if r = -1 then respond (-1, ''tfs_unlink error: could not delete the box file.'', b)
     else
       bindE (box_remove (e_table e 1) (tl name) (b_table b)) (\<lambda>(r, t).
       let b = b\<lparr>b_table := t\<rparr> in
       if r = -1 then respond (-1, ''box_remove error: could not remove the box.'', b)
       else respond (0, '''', b))))))"

section \<open>The handlers, section by section\<close>

text \<open>A thread that is not interrupted: its sections one after the other, on the results of the calls.\<close>

fun publisher_run :: "env \<Rightarrow> nat \<Rightarrow> addr \<Rightarrow> int \<Rightarrow> u8 list \<Rightarrow> read_results \<Rightarrow> broker \<Rightarrow> (handler \<times> broker) res" where
  "publisher_run e c p fd buffer [] b = Inr (Publishing p fd buffer, b)"
| "publisher_run e c p fd buffer (r # rs) b =
     bindE (pub_receive e c p fd r buffer b) (\<lambda>(y, b).
     case y of
       Pub_Read buffer \<Rightarrow> publisher_run e c p fd buffer rs b
     | Pub_Broadcast wrote buffer \<Rightarrow>
         bindE (pub_count e c p wrote buffer b) (\<lambda>(y, b).
         case y of Pub_Read buffer \<Rightarrow> publisher_run e (Suc c) p fd buffer rs b | _ \<Rightarrow> Inl Undefined)
     | Closing v \<Rightarrow>
         bindE (session_close e (Suc c) fd v b) (\<lambda>(y, b). case y of Returned v \<Rightarrow> Inr (Over v, b) | _ \<Rightarrow> Inl Undefined)
     | Returned v \<Rightarrow> Inr (Over v, b)
     | _ \<Rightarrow> Inl Undefined)"

definition publisher_session_run :: "env \<Rightarrow> u8 list \<Rightarrow> read_results \<Rightarrow> broker \<Rightarrow> (handler \<times> broker) res" where
  "publisher_session_run e request reads b =
     bindE (pub_enter e request b) (\<lambda>(box, b).
     case box of
       None \<Rightarrow> Inr (Over (-1), b)
     | Some p \<Rightarrow>
         bindE (pub_open e request b) (\<lambda>(fd, y, b).
         case y of
           Pub_Read buffer \<Rightarrow> publisher_run e 1 p fd buffer reads b
         | Returned v \<Rightarrow> Inr (Over v, b)
         | _ \<Rightarrow> Inl Undefined))"

fun subscriber_run ::
    "env \<Rightarrow> nat \<Rightarrow> cstring \<Rightarrow> addr \<Rightarrow> int \<Rightarrow> u8 list \<Rightarrow> (int \<times> bool) list \<Rightarrow> broker \<Rightarrow> outcome res" where
  "subscriber_run e c tx p fd response [] b = Inr (Subscribing tx p fd response, [], b)"
| "subscriber_run e c tx p fd response (w # ws) b =
     bindE (sub_try e c p fd response b) (\<lambda>(y, b).
     case y of
       Sub_Wait response \<Rightarrow> Inr (Subscribing tx p fd response, [], b)
     | Sub_Send response \<Rightarrow>
         bindE (sub_send e c p w response b) (\<lambda>(y, b).
         case y of
           Sub_Read next \<Rightarrow>
             bindE (subscriber_run e (Suc c) tx p fd next ws b) (\<lambda>(r, out, b). Inr (r, (tx, response) # out, b))
         | Closing v \<Rightarrow>
             bindE (session_close e (Suc c) fd v b) (\<lambda>(y, b).
             case y of Returned v \<Rightarrow> Inr (Over v, [(tx, response)], b) | _ \<Rightarrow> Inl Undefined)
         | Returned v \<Rightarrow> Inr (Over v, [(tx, response)], b)
         | _ \<Rightarrow> Inl Undefined)
     | Closing v \<Rightarrow>
         bindE (session_close e (Suc c) fd v b) (\<lambda>(y, b). case y of Returned v \<Rightarrow> Inr (Over v, [], b) | _ \<Rightarrow> Inl Undefined)
     | Returned v \<Rightarrow> Inr (Over v, [], b)
     | _ \<Rightarrow> Inl Undefined)"

definition subscriber_session_run :: "env \<Rightarrow> u8 list \<Rightarrow> (int \<times> bool) list \<Rightarrow> broker \<Rightarrow> outcome res" where
  "subscriber_session_run e request ws b =
     bindE (sub_enter e request b) (\<lambda>(box, b).
     case box of
       None \<Rightarrow> Inr (Over (-1), [], b)
     | Some (tx, p) \<Rightarrow>
         bindE (sub_open e request b) (\<lambda>(fd, y, b).
         case y of
           Sub_Read response \<Rightarrow> subscriber_run e 1 tx p fd response ws b
         | Returned v \<Rightarrow> Inr (Over v, [], b)
         | _ \<Rightarrow> Inl Undefined))"

definition remove_run :: "env \<Rightarrow> u8 list \<Rightarrow> broker \<Rightarrow> (int \<times> sent \<times> broker) res" where
  "remove_run e request b =
     bindE (remove_check e request b) (\<lambda>r.
     case r of None \<Rightarrow> remove_finish e request b | Some (v, ws) \<Rightarrow> Inr (v, ws, b))"

section \<open>Interleaving\<close>

text \<open>A session: its box, its handle, the client's pipe, where it stands, and what it has written.\<close>

record session =
  ss_box :: addr
  ss_fd :: int
  ss_pipe :: cstring
  ss_point :: point
  ss_sent :: "u8 list list"

text \<open>\<open>l_stored p\<close> records the messages publishers have written to the file of box \<open>p\<close>.\<close>

record interleaved =
  l_broker :: broker
  l_sessions :: "nat \<Rightarrow> session option"
  l_stored :: "addr \<Rightarrow> u8 list list"

definition held :: "addr \<Rightarrow> interleaved \<Rightarrow> bool" where
  "held p s \<longleftrightarrow> (\<exists>t x response. l_sessions s t = Some x \<and> ss_box x = p \<and> ss_point x = Sub_Wait response)"

fun woken :: "addr \<Rightarrow> session \<Rightarrow> session" where
  "woken p x = (case ss_point x of Sub_Asleep response \<Rightarrow> if ss_box x = p then x\<lparr>ss_point := Sub_Read response\<rparr> else x | _ \<Rightarrow> x)"

definition goes :: "nat \<Rightarrow> session \<Rightarrow> point \<Rightarrow> broker \<Rightarrow> interleaved \<Rightarrow> interleaved" where
  "goes t x y b s = s\<lparr>l_broker := b, l_sessions := (l_sessions s)(t \<mapsto> x\<lparr>ss_point := y\<rparr>)\<rparr>"

text \<open>The message a publisher has just stored, if it has.\<close>

definition recorded :: "addr \<Rightarrow> point \<Rightarrow> interleaved \<Rightarrow> interleaved" where
  "recorded p y s = (case y of
      Pub_Broadcast wrote buffer \<Rightarrow> s\<lparr>l_stored := (l_stored s)(p := l_stored s p @ [drop 1 buffer])\<rparr> | _ \<Rightarrow> s)"

text \<open>
  One step of one session. A step that takes the mutex of a box needs it free. A broadcast
  wakes every session asleep on the box; a session asleep may also wake by itself, as POSIX
  allows. A session begins when its registration succeeds; until its file is open its handle
  is \<open>-1\<close>.
\<close>

inductive live_step :: "env \<Rightarrow> interleaved \<Rightarrow> interleaved \<Rightarrow> bool" for e where
  pub_joins: "l_sessions s t = None \<Longrightarrow> pub_enter e request (l_broker s) = Inr (Some p, b) \<Longrightarrow> \<not> held p s \<Longrightarrow>
    x = \<lparr>ss_box = p, ss_fd = -1, ss_pipe = [], ss_point = Pub_Open request, ss_sent = []\<rparr> \<Longrightarrow>
    live_step e s (s\<lparr>l_broker := b, l_sessions := (l_sessions s)(t \<mapsto> x)\<rparr>)"
| sub_joins: "l_sessions s t = None \<Longrightarrow> sub_enter e request (l_broker s) = Inr (Some (tx, p), b) \<Longrightarrow> \<not> held p s \<Longrightarrow>
    x = \<lparr>ss_box = p, ss_fd = -1, ss_pipe = tx, ss_point = Sub_Open request, ss_sent = []\<rparr> \<Longrightarrow>
    live_step e s (s\<lparr>l_broker := b, l_sessions := (l_sessions s)(t \<mapsto> x)\<rparr>)"
| pub_opens: "l_sessions s t = Some x \<Longrightarrow> ss_point x = Pub_Open request \<Longrightarrow>
    pub_open e request (l_broker s) = Inr (fd, y, b) \<Longrightarrow> live_step e s (goes t (x\<lparr>ss_fd := fd\<rparr>) y b s)"
| sub_opens: "l_sessions s t = Some x \<Longrightarrow> ss_point x = Sub_Open request \<Longrightarrow>
    sub_open e request (l_broker s) = Inr (fd, y, b) \<Longrightarrow> live_step e s (goes t (x\<lparr>ss_fd := fd\<rparr>) y b s)"
| pub_reads: "l_sessions s t = Some x \<Longrightarrow> ss_point x = Pub_Read buffer \<Longrightarrow> r = Some [] \<longrightarrow> \<not> held (ss_box x) s \<Longrightarrow>
    pub_receive e c (ss_box x) (ss_fd x) r buffer (l_broker s) = Inr (y, b) \<Longrightarrow>
    live_step e s (recorded (ss_box x) y (goes t x y b s))"
| pub_wakes: "l_sessions s t = Some x \<Longrightarrow> ss_point x = Pub_Broadcast wrote buffer \<Longrightarrow>
    s' = goes t x (Pub_Count wrote buffer) (l_broker s) s \<Longrightarrow>
    live_step e s (s'\<lparr>l_sessions := (\<lambda>u. map_option (woken (ss_box x)) (l_sessions s' u))\<rparr>)"
| pub_counts: "l_sessions s t = Some x \<Longrightarrow> ss_point x = Pub_Count wrote buffer \<Longrightarrow> \<not> held (ss_box x) s \<Longrightarrow>
    pub_count e c (ss_box x) wrote buffer (l_broker s) = Inr (y, b) \<Longrightarrow> live_step e s (goes t x y b s)"
| sub_tries: "l_sessions s t = Some x \<Longrightarrow> ss_point x = Sub_Read response \<Longrightarrow> \<not> held (ss_box x) s \<Longrightarrow>
    sub_try e c (ss_box x) (ss_fd x) response (l_broker s) = Inr (y, b) \<Longrightarrow> live_step e s (goes t x y b s)"
| sub_sleeps: "l_sessions s t = Some x \<Longrightarrow> ss_point x = Sub_Wait response \<Longrightarrow>
    live_step e s (goes t x (Sub_Asleep response) (l_broker s) s)"
| sub_wakes: "l_sessions s t = Some x \<Longrightarrow> ss_point x = Sub_Asleep response \<Longrightarrow>
    live_step e s (goes t x (Sub_Read response) (l_broker s) s)"
| sub_sends: "l_sessions s t = Some x \<Longrightarrow> ss_point x = Sub_Send response \<Longrightarrow> snd w \<and> fst w \<le> 0 \<longrightarrow> \<not> held (ss_box x) s \<Longrightarrow>
    sub_send e c (ss_box x) w response (l_broker s) = Inr (y, b) \<Longrightarrow>
    live_step e s (goes t (x\<lparr>ss_sent := (if 0 < fst w then ss_sent x @ [response] else ss_sent x)\<rparr>) y b s)"
| closes: "l_sessions s t = Some x \<Longrightarrow> ss_point x = Closing v \<Longrightarrow>
    session_close e c (ss_fd x) v (l_broker s) = Inr (y, b) \<Longrightarrow> live_step e s (goes t x y b s)"

text \<open>What the next step of a session gives, a fault included.\<close>

definition next_section :: "env \<Rightarrow> nat \<Rightarrow> u8 list option \<Rightarrow> int \<times> bool \<Rightarrow> session \<Rightarrow> broker \<Rightarrow> (point \<times> broker) res" where
  "next_section e c r w x b =
     (case ss_point x of
        Pub_Open request \<Rightarrow> bindE (pub_open e request b) (\<lambda>(fd, y, b). Inr (y, b))
      | Sub_Open request \<Rightarrow> bindE (sub_open e request b) (\<lambda>(fd, y, b). Inr (y, b))
      | Pub_Read buffer \<Rightarrow> pub_receive e c (ss_box x) (ss_fd x) r buffer b
      | Pub_Broadcast wrote buffer \<Rightarrow> Inr (Pub_Count wrote buffer, b)
      | Pub_Count wrote buffer \<Rightarrow> pub_count e c (ss_box x) wrote buffer b
      | Sub_Read response \<Rightarrow> sub_try e c (ss_box x) (ss_fd x) response b
      | Sub_Wait response \<Rightarrow> Inr (Sub_Asleep response, b)
      | Sub_Asleep response \<Rightarrow> Inr (Sub_Read response, b)
      | Sub_Send response \<Rightarrow> sub_send e c (ss_box x) w response b
      | Closing v \<Rightarrow> session_close e c (ss_fd x) v b
      | Returned v \<Rightarrow> Inr (Returned v, b))"

definition live_reachable :: "env \<Rightarrow> interleaved \<Rightarrow> interleaved \<Rightarrow> bool" where
  "live_reachable e = (live_step e)\<^sup>*\<^sup>*"

inductive_cases live_stepE: "live_step e s s'"

end
