(* ===== verification/Boxes_Inv.thy ===== *)
theory Boxes_Inv
  imports Boxes
begin

text \<open>
  The invariant of the table of boxes and the effect of each function of \<open>boxes.c\<close> on it.
  The table is a partial map from names to boxes, stated as an interface (\<open>named_table\<close>)
  and interpreted on the code's functions.
\<close>

section \<open>The interface\<close>

locale named_table =
  fixes inv :: "'s \<Rightarrow> bool"
    and lookup :: "'n \<Rightarrow> 's \<Rightarrow> 'p option"
    and usable :: "'n \<Rightarrow> 'p \<Rightarrow> 's \<Rightarrow> bool"
    and insert :: "'n \<Rightarrow> 'p \<Rightarrow> 's \<Rightarrow> (int \<times> 's) res"
    and remove :: "'n \<Rightarrow> 's \<Rightarrow> (int \<times> 's) res"
  assumes insert_new: "inv s \<Longrightarrow> lookup n s = None \<Longrightarrow> usable n p s \<Longrightarrow>
      \<exists>t. insert n p s = Inr (0, t) \<and> inv t \<and> (\<forall>m. lookup m t = (if m = n then Some p else lookup m s))"
    and remove_old: "inv s \<Longrightarrow> lookup n s = Some p \<Longrightarrow>
      \<exists>t. remove n s = Inr (0, t) \<and> inv t \<and> (\<forall>m. lookup m t = (if m = n then None else lookup m s))"
    and remove_none: "inv s \<Longrightarrow> lookup n s = None \<Longrightarrow> remove n s = Inr (-1, s)"
begin

text \<open>Removing what was inserted gives the old table back, as far as names go.\<close>

lemma insert_remove:
  assumes "inv s" and "lookup n s = None" and "usable n p s"
  shows "\<exists>t u. insert n p s = Inr (0, t) \<and> lookup n t = Some p \<and> remove n t = Inr (0, u) \<and> inv u
    \<and> (\<forall>m. lookup m u = lookup m s)"
proof -
  from insert_new [OF assms] obtain t where t: "insert n p s = Inr (0, t)" "inv t"
    "\<forall>m. lookup m t = (if m = n then Some p else lookup m s)" by blast
  then have "lookup n t = Some p" by simp
  from remove_old [OF t(2) this] obtain u where "remove n t = Inr (0, u)" "inv u"
    "\<forall>m. lookup m u = (if m = n then None else lookup m t)" by blast
  then show ?thesis using t assms(2) \<open>lookup n t = Some p\<close> by auto
qed

lemma remove_twice:
  assumes "inv s" and "remove n s = Inr (0, t)"
  shows "remove n t = Inr (-1, t)"
proof (cases "lookup n s")
  case None
  then show ?thesis using remove_none [OF assms(1) None] assms(2) by simp
next
  case (Some p)
  from remove_old [OF assms(1) Some] obtain u where u: "remove n s = Inr (0, u)" "inv u"
    "\<forall>m. lookup m u = (if m = n then None else lookup m s)" by blast
  then have "u = t" using assms(2) by simp
  then show ?thesis using remove_none [of t n] u by simp
qed

end

section \<open>The slots as a list\<close>

definition count_boxes :: "addr option list \<Rightarrow> nat" where
  "count_boxes bs = length (filter (\<lambda>b. b \<noteq> None) bs)"

lemma count_boxes_simps [simp]:
  "count_boxes [] = 0" "count_boxes (b # bs) = (if b = None then count_boxes bs else Suc (count_boxes bs))"
  "count_boxes (bs @ cs) = count_boxes bs + count_boxes cs"
  by (simp_all add: count_boxes_def)

lemma count_boxes_none: "(\<And>i. i < length bs \<Longrightarrow> bs ! i = None) \<Longrightarrow> count_boxes bs = 0"
  unfolding count_boxes_def by (simp add: filter_empty_conv) (metis in_set_conv_nth)

lemma count_boxes_put:
  "i < length bs \<Longrightarrow> bs ! i = None \<Longrightarrow> count_boxes (bs[i := Some p]) = Suc (count_boxes bs)"
proof (induction bs arbitrary: i)
  case (Cons b bs)
  then show ?case by (cases i) auto
qed simp

lemma count_boxes_clear:
  "i < length bs \<Longrightarrow> bs ! i = Some p \<Longrightarrow> Suc (count_boxes (bs[i := None])) = count_boxes bs"
proof (induction bs arbitrary: i)
  case (Cons b bs)
  then show ?case by (cases i) auto
qed simp

lemma count_boxes_le: "count_boxes bs \<le> length bs"
  by (simp add: count_boxes_def)

lemma count_boxes_full: "count_boxes bs = length bs \<Longrightarrow> i < length bs \<Longrightarrow> bs ! i \<noteq> None"
proof (induction bs arbitrary: i)
  case (Cons b bs)
  have "b \<noteq> None"
  proof
    assume "b = None"
    then show False using Cons.prems(1) count_boxes_le [of bs] by simp
  qed
  then show ?case using Cons by (cases i) auto
qed simp

fun first_named :: "(addr \<Rightarrow> box_t option) \<Rightarrow> cstring \<Rightarrow> addr option list \<Rightarrow> (nat \<times> addr) option" where
  "first_named h name [] = None"
| "first_named h name (b # bs) =
     (if b \<noteq> None \<and> file_name (the (h (the b))) = name then Some (0, the b)
      else map_option (apfst Suc) (first_named h name bs))"

lemma first_named_SomeD:
  "first_named h name bs = Some (i, p) \<Longrightarrow> i < length bs \<and> bs ! i = Some p \<and> file_name (the (h p)) = name"
proof (induction bs arbitrary: i)
  case (Cons b bs)
  show ?case
  proof (cases "b \<noteq> None \<and> file_name (the (h (the b))) = name")
    case True
    then show ?thesis using Cons.prems by auto
  next
    case False
    then obtain k where "first_named h name bs = Some (k, p)" "i = Suc k"
      using Cons.prems by (auto split: if_splits)
    then show ?thesis using Cons.IH by simp
  qed
qed simp

lemma first_named_None:
  "first_named h name bs = None \<longleftrightarrow> (\<forall>i<length bs. \<forall>p. bs ! i = Some p \<longrightarrow> file_name (the (h p)) \<noteq> name)"
proof (induction bs)
  case (Cons b bs)
  have "(\<forall>i<length (b # bs). \<forall>p. (b # bs) ! i = Some p \<longrightarrow> file_name (the (h p)) \<noteq> name) \<longleftrightarrow>
      (\<forall>p. b = Some p \<longrightarrow> file_name (the (h p)) \<noteq> name)
      \<and> (\<forall>i<length bs. \<forall>p. bs ! i = Some p \<longrightarrow> file_name (the (h p)) \<noteq> name)"
    by (auto simp: less_Suc_eq_0_disj)
  then show ?case using Cons.IH by (cases b) auto
qed simp

section \<open>The invariant\<close>

abbreviation slots :: "box_table \<Rightarrow> addr option list" where "slots t \<equiv> the (boxes t)"

definition name_of :: "box_table \<Rightarrow> addr \<Rightarrow> cstring" where
  "name_of t p = file_name (the (heap t p))"

text \<open>
  The slots in use hold distinct allocated boxes of distinct names, the slots from \<open>size\<close> on
  are NULL, and \<open>num_elem\<close> counts the boxes.
\<close>

definition boxes_inv :: "box_table \<Rightarrow> bool" where
  "boxes_inv t \<longleftrightarrow> boxes t \<noteq> None \<and> length (slots t) = unat (capacity t) \<and> unat (bt_size t) \<le> unat (capacity t)
     \<and> unat (num_elem t) = count_boxes (slots t)
     \<and> (\<forall>i<unat (capacity t). unat (bt_size t) \<le> i \<longrightarrow> slots t ! i = None)
     \<and> (\<forall>i<unat (capacity t). \<forall>p. slots t ! i = Some p \<longrightarrow> heap t p \<noteq> None)
     \<and> (\<forall>i<unat (capacity t). \<forall>j<unat (capacity t). \<forall>p q. i \<noteq> j \<longrightarrow> slots t ! i = Some p \<longrightarrow> slots t ! j = Some q \<longrightarrow>
          p \<noteq> q \<and> name_of t p \<noteq> name_of t q)"

lemma boxes_invD:
  assumes "boxes_inv t"
  shows "boxes t = Some (slots t)" "length (slots t) = unat (capacity t)" "unat (bt_size t) \<le> unat (capacity t)"
    "unat (num_elem t) = count_boxes (slots t)"
    and "i < unat (capacity t) \<Longrightarrow> unat (bt_size t) \<le> i \<Longrightarrow> slots t ! i = None"
    and "i < unat (capacity t) \<Longrightarrow> slots t ! i = Some p \<Longrightarrow> i < unat (bt_size t) \<and> (\<exists>x. heap t p = Some x)"
    and "i < unat (capacity t) \<Longrightarrow> j < unat (capacity t) \<Longrightarrow> i \<noteq> j \<Longrightarrow> slots t ! i = Some p \<Longrightarrow> slots t ! j = Some q \<Longrightarrow>
      p \<noteq> q \<and> name_of t p \<noteq> name_of t q"
proof -
  have "boxes t \<noteq> None" using assms unfolding boxes_inv_def by blast
  then show "boxes t = Some (slots t)" by auto
  show "i < unat (capacity t) \<Longrightarrow> slots t ! i = Some p \<Longrightarrow> i < unat (bt_size t) \<and> (\<exists>x. heap t p = Some x)"
    using assms unfolding boxes_inv_def by (metis not_le option.distinct(1) option.exhaust)
qed (use assms in \<open>unfold boxes_inv_def; blast\<close>)+

definition box_lookup :: "cstring \<Rightarrow> box_table \<Rightarrow> addr option" where
  "box_lookup name t = map_option snd (first_named (heap t) name (slots t))"

lemma box_lookup_None:
  assumes "boxes_inv t"
  shows "box_lookup name t = None \<longleftrightarrow> (\<forall>i<unat (capacity t). \<forall>p. slots t ! i = Some p \<longrightarrow> name_of t p \<noteq> name)"
  using first_named_None [of "heap t" name "slots t"] boxes_invD(2) [OF assms]
  by (auto simp: box_lookup_def name_of_def)

lemma box_lookup_Some:
  assumes "boxes_inv t"
  shows "box_lookup name t = Some p \<longleftrightarrow> (\<exists>i<unat (capacity t). slots t ! i = Some p \<and> name_of t p = name)"
proof
  assume "box_lookup name t = Some p"
  then obtain i where "first_named (heap t) name (slots t) = Some (i, p)" by (auto simp: box_lookup_def)
  from first_named_SomeD [OF this] show "\<exists>i<unat (capacity t). slots t ! i = Some p \<and> name_of t p = name"
    using boxes_invD(2) [OF assms] by (auto simp: name_of_def)
next
  assume "\<exists>i<unat (capacity t). slots t ! i = Some p \<and> name_of t p = name"
  then obtain i where i: "i < unat (capacity t)" "slots t ! i = Some p" "name_of t p = name" by blast
  then have "box_lookup name t \<noteq> None" using box_lookup_None [OF assms] by blast
  then obtain j q where q: "first_named (heap t) name (slots t) = Some (j, q)" by (auto simp: box_lookup_def)
  note d = first_named_SomeD [OF q]
  have "j = i" using boxes_invD(7) [OF assms, of i j p q] i d boxes_invD(2) [OF assms] by (auto simp: name_of_def)
  then show "box_lookup name t = Some p" using q d i(2) by (simp add: box_lookup_def)
qed

section \<open>The loops\<close>

lemma box_scan_eq:
  assumes "boxes t = Some bs" and "n \<le> length bs"
    and "\<And>i p. i < n \<Longrightarrow> bs ! i = Some p \<Longrightarrow> \<exists>x. heap t p = Some x"
  shows "i \<le> n \<Longrightarrow> box_scan i n name t =
    Inr (map_option (apfst (\<lambda>k. i + k)) (first_named (heap t) name (drop i (take n bs))))"
proof (induction "n - i" arbitrary: i)
  case 0
  then show ?case by (subst box_scan.simps) simp
next
  case (Suc k)
  then have i: "i < n" by simp
  then have d: "drop i (take n bs) = bs ! i # drop (Suc i) (take n bs)"
    using assms(2) by (metis Cons_nth_drop_Suc length_take min.absorb2 nth_take)
  have IH: "box_scan (Suc i) n name t =
      Inr (map_option (apfst (\<lambda>k. Suc i + k)) (first_named (heap t) name (drop (Suc i) (take n bs))))"
    using Suc by (intro Suc.hyps(1)) auto
  have shift: "map_option (apfst (\<lambda>k. Suc i + k)) r = map_option (apfst (\<lambda>k. i + k)) (map_option (apfst Suc) r)"
    for r :: "(nat \<times> addr) option"
    by (cases r) (auto simp: apfst_def)
  show ?case
  proof (cases "bs ! i")
    case None
    then show ?thesis using i assms(1,2) IH shift by (subst box_scan.simps) (simp add: d)
  next
    case (Some p)
    then obtain x where "heap t p = Some x" using assms(3) i by blast
    then show ?thesis using Some i assms(1,2) IH shift
      by (subst box_scan.simps) (simp add: d deref_def)
  qed
qed

text \<open>From \<open>size\<close> on there is nothing to find.\<close>

lemma first_named_take:
  "(\<And>i. i < length bs \<Longrightarrow> n \<le> i \<Longrightarrow> bs ! i = None) \<Longrightarrow> first_named h name (take n bs) = first_named h name bs"
proof (induction bs arbitrary: n)
  case (Cons b bs)
  show ?case
  proof (cases n)
    case 0
    have "first_named h name (b # bs) = None"
      unfolding first_named_None using Cons.prems 0 by auto
    then show ?thesis using 0 by simp
  next
    case (Suc m)
    have "first_named h name (take m bs) = first_named h name bs"
    proof (rule Cons.IH)
      fix i assume "i < length bs" "m \<le> i"
      then show "bs ! i = None" using Cons.prems [of "Suc i"] Suc by simp
    qed
    then show ?thesis using Suc by simp
  qed
qed simp

lemma box_scan_inv:
  assumes "boxes_inv t"
  shows "box_scan 0 (unat (bt_size t)) name t = Inr (first_named (heap t) name (slots t))"
proof -
  have "box_scan 0 (unat (bt_size t)) name t =
      Inr (map_option (apfst (\<lambda>k. 0 + k)) (first_named (heap t) name (drop 0 (take (unat (bt_size t)) (slots t)))))"
  proof (rule box_scan_eq [OF boxes_invD(1) [OF assms]])
    show "unat (bt_size t) \<le> length (slots t)" using boxes_invD(2,3) [OF assms] by simp
    show "\<exists>x. heap t p = Some x" if "i < unat (bt_size t)" "slots t ! i = Some p" for i p
      using boxes_invD(6) [OF assms _ that(2)] boxes_invD(3) [OF assms] that(1) by simp
  qed simp
  moreover have "first_named (heap t) name (take (unat (bt_size t)) (slots t)) = first_named (heap t) name (slots t)"
    using boxes_invD(2,5) [OF assms] by (intro first_named_take) simp
  moreover have "map_option (apfst (\<lambda>k. 0 + k)) r = r" for r :: "(nat \<times> addr) option"
    by (cases r) (auto simp: apfst_def)
  ultimately show ?thesis by simp
qed

lemma null_scan_eq:
  assumes "n \<le> length bs"
  shows "i \<le> n \<Longrightarrow> (\<exists>k. i \<le> k \<and> k < n \<and> bs ! k = None) \<Longrightarrow>
    \<exists>k. null_scan i n (Some bs) = Inr (Some k) \<and> k < n \<and> bs ! k = None"
proof (induction "n - i" arbitrary: i)
  case 0
  then show ?case by auto
next
  case (Suc d)
  then have i: "i < n" by simp
  show ?case
  proof (cases "bs ! i")
    case None
    then show ?thesis using i assms by (subst null_scan.simps) auto
  next
    case (Some p)
    obtain k where "i \<le> k" "k < n" "bs ! k = None" using Suc.prems(2) by blast
    then have "Suc i \<le> k" using Some by (metis not_less_eq_eq le_antisym option.distinct(1))
    then have "\<exists>k. null_scan (Suc i) n (Some bs) = Inr (Some k) \<and> k < n \<and> bs ! k = None"
      using Suc.hyps(2) i \<open>k < n\<close> \<open>bs ! k = None\<close> by (intro Suc.hyps(1)) auto
    then show ?thesis using Some i assms by (subst null_scan.simps) simp
  qed
qed

lemma clear_slots_eq:
  "i \<le> n \<Longrightarrow> n = length bs \<Longrightarrow> clear_slots i n (Some bs) = Inr (Some (take i bs @ replicate (n - i) None))"
proof (induction "n - i" arbitrary: i bs)
  case 0
  then show ?case by (subst clear_slots.simps) simp
next
  case (Suc k)
  then have i: "i < n" by simp
  have "clear_slots (Suc i) n (Some (bs[i := None])) = Inr (Some (take (Suc i) (bs[i := None]) @ replicate (n - Suc i) None))"
    using Suc.hyps(2) Suc.prems i by (intro Suc.hyps(1)) auto
  moreover have "take (Suc i) (bs[i := None]) @ replicate (n - Suc i) None = take i bs @ replicate (n - i) None"
    using i Suc.prems by (simp add: take_Suc_conv_app_nth Suc_diff_Suc flip: replicate_Suc)
  ultimately show ?case using i Suc.prems by (subst clear_slots.simps) simp
qed

section \<open>The table after each update\<close>

lemma heap_irrelevant:
  assumes inv: "boxes_inv t" and p: "heap t p = None"
  shows "boxes_inv (t\<lparr>heap := (heap t)(p \<mapsto> x)\<rparr>)"
    and "box_lookup name (t\<lparr>heap := (heap t)(p \<mapsto> x)\<rparr>) = box_lookup name t"
    and "i < unat (capacity t) \<Longrightarrow> slots t ! i \<noteq> Some p"
proof -
  show fresh: "slots t ! i \<noteq> Some p" if "i < unat (capacity t)" for i
    using boxes_invD(6) [OF inv that, of p] p by auto
  let ?t = "t\<lparr>heap := (heap t)(p \<mapsto> x)\<rparr>"
  have nm: "name_of ?t q = name_of t q" if "i < unat (capacity t)" "slots t ! i = Some q" for i q
    using fresh [OF that(1)] that(2) by (auto simp: name_of_def)
  have sel: "boxes ?t = boxes t" "capacity ?t = capacity t" "bt_size ?t = bt_size t" "num_elem ?t = num_elem t"
    by simp_all
  show inv': "boxes_inv ?t"
    unfolding boxes_inv_def sel
  proof (intro conjI allI impI)
    show "boxes t \<noteq> None" using inv unfolding boxes_inv_def by blast
    show "heap ?t q \<noteq> None" if "i < unat (capacity t)" "slots t ! i = Some q" for i q
      using boxes_invD(6) [OF inv that] by auto
    show "q \<noteq> r" "name_of ?t q \<noteq> name_of ?t r"
      if "i < unat (capacity t)" "j < unat (capacity t)" "i \<noteq> j" "slots t ! i = Some q" "slots t ! j = Some r" for i j q r
      using boxes_invD(7) [OF inv that] nm [OF that(1,4)] nm [OF that(2,5)] by simp_all
  qed (use boxes_invD(2-5) [OF inv] in auto)
  have "box_lookup name ?t = Some q \<longleftrightarrow> box_lookup name t = Some q" for q
    using nm unfolding box_lookup_Some [OF inv] box_lookup_Some [OF inv'] by auto
  then show "box_lookup name ?t = box_lookup name t" by (metis not_Some_eq)
qed

text \<open>A table twice as large, whose new slots are NULL.\<close>

definition grown :: "box_table \<Rightarrow> box_table" where
  "grown t = t\<lparr>capacity := capacity t * 2, boxes := Some (slots t @ replicate (unat (capacity t)) None)\<rparr>"

lemma expand_table_eq:
  assumes inv: "boxes_inv t" and e: "extra = Some e" "length e = unat (capacity t)"
    and small: "unat (capacity t) < 2 ^ 62"
  shows "expand_table extra t = Inr (0, grown t)" and "unat (capacity (grown t)) = 2 * unat (capacity t)"
    and "boxes_inv (grown t)" and "box_lookup name (grown t) = box_lookup name t"
proof -
  note b = boxes_invD(1,2) [OF inv]
  have c2: "unat (capacity t * 2) = 2 * unat (capacity t)" using small by (simp add: unat_word_ariths)
  then show cap: "unat (capacity (grown t)) = 2 * unat (capacity t)" by (simp add: grown_def)
  have "unat (capacity t * 2 div 2) = unat (capacity t)" by (simp add: unat_div c2)
  moreover have "clear_slots (unat (capacity t)) (2 * unat (capacity t)) (Some (slots t @ e))
      = Inr (Some (slots t @ replicate (unat (capacity t)) None))"
    using b(2) e(2) by (simp add: clear_slots_eq)
  moreover obtain bs where "boxes t = Some bs" using b(1) by blast
  ultimately show "expand_table extra t = Inr (0, grown t)"
    using e(1) c2 by (simp add: expand_table_def grown_def)
  let ?t = "grown t"
  have sl: "slots ?t = slots t @ replicate (unat (capacity t)) None" and hp: "heap ?t = heap t"
    and sz: "bt_size ?t = bt_size t" "num_elem ?t = num_elem t" "boxes ?t \<noteq> None" by (simp_all add: grown_def)
  have nth: "slots ?t ! i = (if i < unat (capacity t) then slots t ! i else None)" if "i < 2 * unat (capacity t)" for i
    using that b(2) by (auto simp: sl nth_append)
  have nm: "name_of ?t q = name_of t q" for q by (simp add: name_of_def hp)
  have cnt: "count_boxes (slots ?t) = count_boxes (slots t)"
    using count_boxes_none [of "replicate (unat (capacity t)) None"] by (simp add: sl)
  show inv': "boxes_inv ?t"
    unfolding boxes_inv_def cap cnt sz hp nm
  proof (intro conjI allI impI)
    show "length (slots ?t) = 2 * unat (capacity t)" using b(2) by (simp add: sl)
    show "unat (bt_size t) \<le> 2 * unat (capacity t)" using boxes_invD(3) [OF inv] by simp
    show "unat (num_elem t) = count_boxes (slots t)" by (rule boxes_invD(4) [OF inv])
    show "slots ?t ! i = None" if "i < 2 * unat (capacity t)" "unat (bt_size t) \<le> i" for i
      using nth [OF that(1)] boxes_invD(5) [OF inv _ that(2)] by simp
    show "heap t p \<noteq> None" if "i < 2 * unat (capacity t)" "slots ?t ! i = Some p" for i p
      using nth [OF that(1)] that(2) boxes_invD(6) [OF inv, of i p] by (auto split: if_splits)
    show "p \<noteq> q" "name_of t p \<noteq> name_of t q"
      if "i < 2 * unat (capacity t)" "j < 2 * unat (capacity t)" "i \<noteq> j" "slots ?t ! i = Some p" "slots ?t ! j = Some q"
      for i j p q
      using nth [OF that(1)] nth [OF that(2)] that(3-5) boxes_invD(7) [OF inv, of i j p q] by (auto split: if_splits)
  qed (use sz in auto)
  have "box_lookup name ?t = Some q \<longleftrightarrow> box_lookup name t = Some q" for q
    unfolding box_lookup_Some [OF inv] box_lookup_Some [OF inv'] cap nm
    using nth by (metis (no_types, lifting) add_lessD1 mult_2 option.distinct(1) trans_less_add1)
  then show "box_lookup name ?t = box_lookup name t" by (metis not_Some_eq)
qed

text \<open>A box put into a slot that is NULL.\<close>

definition put_box :: "nat \<Rightarrow> addr \<Rightarrow> box_t \<Rightarrow> size_t \<Rightarrow> box_table \<Rightarrow> box_table" where
  "put_box i p x sz t = t\<lparr>heap := (heap t)(p \<mapsto> x), boxes := Some ((slots t)[i := Some p]), bt_size := sz,
     num_elem := num_elem t + 1\<rparr>"

lemma put_box_inv:
  assumes inv: "boxes_inv t" and i: "i < unat (capacity t)" "slots t ! i = None" and p: "heap t p = None"
    and new: "box_lookup (file_name x) t = None" and sz: "unat sz = max (unat (bt_size t)) (Suc i)"
  shows "boxes_inv (put_box i p x sz t)"
    and "box_lookup name (put_box i p x sz t) = (if name = file_name x then Some p else box_lookup name t)"
proof -
  let ?t = "put_box i p x sz t"
  have sl: "slots ?t = (slots t)[i := Some p]" and cap: "capacity ?t = capacity t" and szq: "bt_size ?t = sz"
    and num: "num_elem ?t = num_elem t + 1" and some: "boxes ?t \<noteq> None" by (simp_all add: put_box_def)
  note b = boxes_invD(2) [OF inv]
  have nth: "slots ?t ! k = (if k = i then Some p else slots t ! k)" for k using i(1) b by (simp add: sl nth_list_update)
  have fresh: "slots t ! k \<noteq> Some p" if "k < unat (capacity t)" for k using heap_irrelevant(3) [OF inv p that] .
  have nm: "name_of ?t q = name_of t q" if "k < unat (capacity t)" "slots t ! k = Some q" for k q
    using fresh [OF that(1)] that(2) by (auto simp: name_of_def put_box_def)
  have np: "name_of ?t p = file_name x" by (simp add: name_of_def put_box_def)
  have other: "name_of t q \<noteq> file_name x" if "k < unat (capacity t)" "slots t ! k = Some q" for k q
    using new that unfolding box_lookup_None [OF inv] by blast
  have cnt: "count_boxes (slots ?t) = Suc (count_boxes (slots t))"
    using count_boxes_put [of i "slots t" p] i b by (simp add: sl)
  have "Suc (count_boxes (slots t)) \<le> unat (capacity t)" using cnt count_boxes_le [of "slots ?t"] b by (simp add: sl)
  moreover have "unat (capacity t) < 2 ^ 64" using unsigned_less [where 'a = nat, of "capacity t"] by simp
  ultimately have "Suc (unat (num_elem t)) < 2 ^ 64" using boxes_invD(4) [OF inv] by linarith
  then have "unat (num_elem t + 1) = Suc (unat (num_elem t))" by (simp add: unat_word_ariths)
  then have num': "unat (num_elem ?t) = count_boxes (slots ?t)" using boxes_invD(4) [OF inv] cnt num by simp
  show inv': "boxes_inv ?t"
    unfolding boxes_inv_def cap szq
  proof (intro conjI allI impI)
    show "length (slots ?t) = unat (capacity t)" using b by (simp add: sl)
    show "unat sz \<le> unat (capacity t)" using sz i(1) boxes_invD(3) [OF inv] by simp
    show "slots ?t ! k = None" if "k < unat (capacity t)" "unat sz \<le> k" for k
      using that sz nth boxes_invD(5) [OF inv, of k] by simp
    show "heap ?t q \<noteq> None" if "k < unat (capacity t)" "slots ?t ! k = Some q" for k q
      using that nth boxes_invD(6) [OF inv, of k q] by (auto simp: put_box_def split: if_splits)
    fix k l q r assume kl: "k < unat (capacity t)" "l < unat (capacity t)" "k \<noteq> l" "slots ?t ! k = Some q" "slots ?t ! l = Some r"
    have "q \<noteq> r \<and> name_of ?t q \<noteq> name_of ?t r"
    proof (cases "k = i \<or> l = i")
      case True
      then show ?thesis using kl nth nm np other fresh by (metis option.sel)
    next
      case False
      then show ?thesis using kl nth nm boxes_invD(7) [OF inv kl(1-3)] by metis
    qed
    then show "q \<noteq> r" "name_of ?t q \<noteq> name_of ?t r" by blast+
  qed (use some num' in auto)
  have "box_lookup name ?t = Some q \<longleftrightarrow> (if name = file_name x then Some p else box_lookup name t) = Some q" for q
  proof (cases "name = file_name x")
    case True
    have "box_lookup name ?t = Some q \<longleftrightarrow> q = p"
      unfolding box_lookup_Some [OF inv'] cap using True nth nm np other i(1) by (metis option.sel)
    then show ?thesis using True by auto
  next
    case False
    have "box_lookup name ?t = Some q \<longleftrightarrow> box_lookup name t = Some q"
      unfolding box_lookup_Some [OF inv'] box_lookup_Some [OF inv] cap using False nth nm np i(2)
      by (metis option.distinct(1) option.sel)
    then show ?thesis using False by simp
  qed
  then show "box_lookup name ?t = (if name = file_name x then Some p else box_lookup name t)"
    by (metis not_Some_eq)
qed

text \<open>A box freed and its slot cleared.\<close>

definition drop_box :: "nat \<Rightarrow> addr \<Rightarrow> size_t \<Rightarrow> box_table \<Rightarrow> box_table" where
  "drop_box i p sz t = t\<lparr>heap := (heap t)(p := None), boxes := Some ((slots t)[i := None]), bt_size := sz,
     num_elem := num_elem t - 1\<rparr>"

lemma drop_box_inv:
  assumes inv: "boxes_inv t" and i: "i < unat (capacity t)" "slots t ! i = Some p"
    and sz: "unat sz \<le> unat (bt_size t)" "\<And>k. k < unat (bt_size t) \<Longrightarrow> unat sz \<le> k \<Longrightarrow> k = i"
  shows "boxes_inv (drop_box i p sz t)"
    and "box_lookup name (drop_box i p sz t) = (if name = name_of t p then None else box_lookup name t)"
proof -
  let ?t = "drop_box i p sz t"
  have sl: "slots ?t = (slots t)[i := None]" and cap: "capacity ?t = capacity t" and szq: "bt_size ?t = sz"
    and num: "num_elem ?t = num_elem t - 1" and some: "boxes ?t \<noteq> None" by (simp_all add: drop_box_def)
  note b = boxes_invD(2) [OF inv]
  have nth: "slots ?t ! k = (if k = i then None else slots t ! k)" for k using i(1) b by (simp add: sl nth_list_update)
  have dist: "q \<noteq> p \<and> name_of t q \<noteq> name_of t p" if "k < unat (capacity t)" "k \<noteq> i" "slots t ! k = Some q" for k q
    using boxes_invD(7) [OF inv that(1) i(1) that(2,3) i(2)] .
  have hp: "heap ?t q = heap t q" "name_of ?t q = name_of t q" if "k < unat (capacity t)" "k \<noteq> i" "slots t ! k = Some q" for k q
    using dist [OF that] by (simp_all add: name_of_def drop_box_def)
  have cnt: "Suc (count_boxes (slots ?t)) = count_boxes (slots t)"
    using count_boxes_clear [of i "slots t" p] i b by (simp add: sl)
  then have pos: "unat (num_elem t) = Suc (count_boxes (slots ?t))" using boxes_invD(4) [OF inv] by simp
  then have "unat (num_elem t - 1) = unat (num_elem t) - 1" by (intro unat_minus_one) auto
  then have num': "unat (num_elem ?t) = count_boxes (slots ?t)" using pos num by simp
  show inv': "boxes_inv ?t"
    unfolding boxes_inv_def cap szq
  proof (intro conjI allI impI)
    show "length (slots ?t) = unat (capacity t)" using b by (simp add: sl)
    show "unat sz \<le> unat (capacity t)" using sz(1) boxes_invD(3) [OF inv] by simp
    show "slots ?t ! k = None" if "k < unat (capacity t)" "unat sz \<le> k" for k
      using that sz(2) nth boxes_invD(5) [OF inv, of k] by (cases "k < unat (bt_size t)") auto
    show "heap ?t q \<noteq> None" if "k < unat (capacity t)" "slots ?t ! k = Some q" for k q
      using that nth hp(1) [of k q] boxes_invD(6) [OF inv, of k q] by (auto split: if_splits)
    fix k l q r assume kl: "k < unat (capacity t)" "l < unat (capacity t)" "k \<noteq> l" "slots ?t ! k = Some q" "slots ?t ! l = Some r"
    have "k \<noteq> i" "l \<noteq> i" using kl(4,5) nth by auto
    then show "q \<noteq> r" "name_of ?t q \<noteq> name_of ?t r"
      using kl nth hp(2) boxes_invD(7) [OF inv kl(1-3), of q r] by auto
  qed (use some num' in auto)
  have "box_lookup name ?t = Some q \<longleftrightarrow> name \<noteq> name_of t p \<and> box_lookup name t = Some q" for q
    unfolding box_lookup_Some [OF inv'] box_lookup_Some [OF inv] cap using nth hp(2) dist i
    by (metis option.distinct(1) option.sel)
  then show "box_lookup name ?t = (if name = name_of t p then None else box_lookup name t)"
    by (metis not_Some_eq)
qed

end
