(* ===== verification/Boxes_Props.thy ===== *)
theory Boxes_Props
  imports Boxes_Inv Simulation
begin

text \<open>
  The functions of \<open>boxes.c\<close> on a table that satisfies the invariant, the table as an
  interpretation of the map interface, and the properties of the table and of the counts
  of publishers and subscribers.
\<close>

section \<open>Adding\<close>

text \<open>When the table is full, \<open>realloc\<close> finds room for one of twice the size.\<close>

definition table_room :: "addr option list option \<Rightarrow> box_table \<Rightarrow> bool" where
  "table_room extra t \<longleftrightarrow> (bt_size t = capacity t \<longrightarrow> 0 < unat (capacity t) \<and> unat (capacity t) < 2 ^ 62
     \<and> (\<exists>e. extra = Some e \<and> length e = unat (capacity t)))"

lemma count_boxes_all: "(\<And>i. i < length bs \<Longrightarrow> bs ! i \<noteq> None) \<Longrightarrow> count_boxes bs = length bs"
proof (induction bs)
  case (Cons b bs)
  have "bs ! i \<noteq> None" if "i < length bs" for i using Cons.prems [of "Suc i"] that by simp
  moreover have "b \<noteq> None" using Cons.prems [of 0] by simp
  ultimately show ?case using Cons.IH by simp
qed simp

lemma free_slot:
  assumes inv: "boxes_inv t" and ne: "bt_size t \<noteq> num_elem t"
  shows "\<exists>k<unat (bt_size t). slots t ! k = None"
proof (rule ccontr)
  assume all: "\<not> (\<exists>k<unat (bt_size t). slots t ! k = None)"
  let ?n = "unat (bt_size t)"
  note b = boxes_invD(2,3) [OF inv]
  have "count_boxes (take ?n (slots t)) = length (take ?n (slots t))"
    using all b by (intro count_boxes_all) simp
  moreover have "count_boxes (drop ?n (slots t)) = 0"
    using b boxes_invD(5) [OF inv] by (intro count_boxes_none) simp
  moreover have "count_boxes (slots t) = count_boxes (take ?n (slots t)) + count_boxes (drop ?n (slots t))"
    by (metis append_take_drop_id count_boxes_simps(3))
  ultimately have "unat (num_elem t) = ?n" using boxes_invD(4) [OF inv] b by simp
  then show False using ne by (metis unsigned_word_eqI)
qed

text \<open>The two ways \<open>box_add\<close> fills a slot, on a table with room.\<close>

lemma box_fill:
  assumes inv: "boxes_inv u" and lt: "bt_size u \<noteq> capacity u" and p: "heap u p = None"
    and new: "box_lookup (file_name x) u = None"
  shows "\<exists>t'. (if bt_size u = num_elem u then
        bindE (aset (boxes u) (unat (bt_size u)) (Some p)) (\<lambda>b. Inr (0 :: int, u\<lparr>heap := (heap u)(p \<mapsto> x), boxes := b,
          bt_size := bt_size u + 1, num_elem := num_elem u + 1\<rparr>))
      else bindE (null_scan 0 (unat (bt_size u)) (boxes u)) (\<lambda>r. case r of
          Some i \<Rightarrow> bindE (aset (boxes u) i (Some p)) (\<lambda>b. Inr (0, u\<lparr>heap := (heap u)(p \<mapsto> x), boxes := b,
            num_elem := num_elem u + 1\<rparr>))
        | None \<Rightarrow> Inr (-1, u))) = Inr (0, t')
    \<and> boxes_inv t' \<and> heap t' = (heap u)(p \<mapsto> x)
    \<and> (\<forall>name. box_lookup name t' = (if name = file_name x then Some p else box_lookup name u))"
proof -
  let ?n = "unat (bt_size u)"
  note b = boxes_invD(1-3) [OF inv]
  have "?n \<noteq> unat (capacity u)" using lt by (metis unsigned_word_eqI)
  then have n: "?n < unat (capacity u)" using b(3) by simp
  show ?thesis
  proof (cases "bt_size u = num_elem u")
    case True
    have "unat (capacity u) < 2 ^ 64" using unsigned_less [where 'a = nat, of "capacity u"] by simp
    then have sz: "unat (bt_size u + 1) = max ?n (Suc ?n)" using n by (simp add: unat_word_ariths)
    have none: "slots u ! ?n = None" using boxes_invD(5) [OF inv n] by simp
    note w = put_box_inv [OF inv n none p new sz]
    have "aset (boxes u) ?n (Some p) = Inr (Some ((slots u)[?n := Some p]))"
      using b n by (metis aset.simps(2))
    then show ?thesis using True w by (intro exI [of _ "put_box ?n p x (bt_size u + 1) u"]) (simp add: put_box_def)
  next
    case False
    obtain k0 where k0: "k0 < ?n" "slots u ! k0 = None" using free_slot [OF inv False] by blast
    obtain k where k: "null_scan 0 ?n (Some (slots u)) = Inr (Some k)" "k < ?n" "slots u ! k = None"
      using null_scan_eq [of ?n "slots u" 0] b k0 by auto
    have sz: "unat (bt_size u) = max ?n (Suc k)" and kc: "k < unat (capacity u)" using k(2) n by simp_all
    note w = put_box_inv [OF inv kc k(3) p new sz]
    have "aset (boxes u) k (Some p) = Inr (Some ((slots u)[k := Some p]))"
      using b kc by (metis aset.simps(2))
    then show ?thesis using False w k(1) b(1)
      by (intro exI [of _ "put_box k p x (bt_size u) u"]) (simp add: put_box_def)
  qed
qed

lemma box_add_new:
  assumes inv: "boxes_inv t" and name: "length name < 32" "box_lookup name t = None" and p: "heap t p = None"
    and room: "table_room extra t"
  shows "\<exists>t'. box_add mutex_ok (Some p) extra name t = Inr (0, t') \<and> boxes_inv t'
    \<and> heap t' = (heap t)(p \<mapsto> new_box name)
    \<and> (\<forall>m. box_lookup m t' = (if m = name then Some p else box_lookup m t))"
proof -
  let ?x = "new_box name" and ?t1 = "t\<lparr>heap := (heap t)(p \<mapsto> new_box name)\<rparr>"
  note h = heap_irrelevant(1) [OF inv p, of ?x]
  define u where "u = (if bt_size t = capacity t then grown t else t)"
  have fn: "file_name ?x = name" by (simp add: new_box_def)
  have grow: "boxes_inv u \<and> (\<forall>m. box_lookup m u = box_lookup m t) \<and> heap u = heap t \<and> bt_size u \<noteq> capacity u
    \<and> (if bt_size t = capacity t then expand_table extra ?t1 else Inr (0, ?t1)) = Inr (0, u\<lparr>heap := (heap t)(p \<mapsto> ?x)\<rparr>)"
  proof (cases "bt_size t = capacity t")
    case True
    then obtain e where e: "extra = Some e" "length e = unat (capacity t)" "unat (capacity t) < 2 ^ 62" "0 < unat (capacity t)"
      using room by (auto simp: table_room_def)
    note g = expand_table_eq [OF inv e(1-3)]
    have "expand_table extra ?t1 = Inr (0, grown ?t1)" using expand_table_eq(1) [OF h e(1)] e by simp
    moreover have "grown ?t1 = (grown t)\<lparr>heap := (heap t)(p \<mapsto> ?x)\<rparr>" by (simp add: grown_def)
    moreover have "bt_size t \<noteq> capacity (grown t)"
    proof
      assume "bt_size t = capacity (grown t)"
      then have "unat (capacity t) = 2 * unat (capacity t)" using g(2) True by simp
      then show False using e(4) by simp
    qed
    ultimately show ?thesis using True g(3,4) by (simp add: u_def) (simp add: grown_def)
  next
    case False
    then show ?thesis using inv by (simp add: u_def)
  qed
  have pu: "heap u p = None" and nu: "box_lookup (file_name ?x) u = None" using grow p name(2) fn by simp_all
  have hu: "heap u = heap t" using grow by simp
  obtain t' where t': "(if bt_size u = num_elem u then
        bindE (aset (boxes u) (unat (bt_size u)) (Some p)) (\<lambda>b. Inr (0 :: int, u\<lparr>heap := (heap u)(p \<mapsto> ?x), boxes := b,
          bt_size := bt_size u + 1, num_elem := num_elem u + 1\<rparr>))
      else bindE (null_scan 0 (unat (bt_size u)) (boxes u)) (\<lambda>r. case r of
          Some i \<Rightarrow> bindE (aset (boxes u) i (Some p)) (\<lambda>b. Inr (0, u\<lparr>heap := (heap u)(p \<mapsto> ?x), boxes := b,
            num_elem := num_elem u + 1\<rparr>))
        | None \<Rightarrow> Inr (-1, u))) = Inr (0, t')" "boxes_inv t'" "heap t' = (heap u)(p \<mapsto> ?x)"
    "\<forall>name. box_lookup name t' = (if name = file_name ?x then Some p else box_lookup name u)"
    using box_fill [OF _ _ pu nu] grow by blast
  have "box_add mutex_ok (Some p) extra name t = Inr (0, t')"
  proof (cases "bt_size u = num_elem u")
    case True
    then show ?thesis using t'(1) grow name(1) hu
      by (simp add: box_add_def mutex_ok_def Let_def)
  next
    case False
    then show ?thesis using t'(1) grow name(1) hu False
      by (auto simp: box_add_def mutex_ok_def Let_def bindE_Inr_iff split: option.splits)
  qed
  then show ?thesis using t'(2-4) grow fn by simp
qed

text \<open>
  How the range in use grows: by one when it has no hole, and the table doubles only when the
  range fills it.
\<close>

lemma box_add_sizes:
  assumes "box_add mutex_ok (Some p) extra name t = Inr (0, t')"
  shows "capacity t' = (if bt_size t = capacity t then capacity t * 2 else capacity t)"
    and "bt_size t' = (if bt_size t = num_elem t then bt_size t + 1 else bt_size t)"
  using assms
  by (auto simp: box_add_def expand_table_def mutex_ok_def Let_def bindE_Inr_iff split: if_splits option.splits)

lemma box_remove_sizes:
  assumes "box_remove mutex_ok name t = Inr (r, t')"
  shows "capacity t' = capacity t" and "bt_size t' = bt_size t \<or> bt_size t \<noteq> 0 \<and> bt_size t' = bt_size t - 1"
  using assms
  by (auto simp: box_remove_def mutex_ok_def Let_def bindE_Inr_iff split: if_splits option.splits)

section \<open>Removing and finding\<close>

lemma box_find_eq:
  assumes "boxes_inv t"
  shows "box_find mutex_ok name t = Inr (box_lookup name t)"
  by (simp add: box_find_def mutex_ok_def box_scan_inv [OF assms] box_lookup_def)

lemma box_remove_eq:
  assumes inv: "boxes_inv t"
  shows "box_lookup name t = None \<Longrightarrow> box_remove mutex_ok name t = Inr (-1, t)"
    and "box_lookup name t = Some p \<Longrightarrow> \<exists>t'. box_remove mutex_ok name t = Inr (0, t') \<and> boxes_inv t'
      \<and> heap t' = (heap t)(p := None) \<and> (\<forall>m. box_lookup m t' = (if m = name then None else box_lookup m t))"
proof -
  show "box_remove mutex_ok name t = Inr (-1, t)" if "box_lookup name t = None"
    using that by (simp add: box_remove_def mutex_ok_def box_scan_inv [OF inv] box_lookup_def)
  assume "box_lookup name t = Some p"
  then obtain i where f: "first_named (heap t) name (slots t) = Some (i, p)" by (auto simp: box_lookup_def)
  note b = boxes_invD(1-3) [OF inv]
  have i: "i < unat (capacity t)" "slots t ! i = Some p" "name_of t p = name"
    using first_named_SomeD [OF f] b(2) by (simp_all add: name_of_def)
  have isz: "i < unat (bt_size t)" using boxes_invD(6) [OF inv i(1,2)] by blast
  define sz where "sz = (if unat (bt_size t) = i + 1 then bt_size t - 1 else bt_size t)"
  have "unat (bt_size t - 1) = unat (bt_size t) - 1" using isz by (intro unat_minus_one) auto
  then have sz: "unat sz \<le> unat (bt_size t)" "\<And>k. k < unat (bt_size t) \<Longrightarrow> unat sz \<le> k \<Longrightarrow> k = i"
    by (auto simp: sz_def split: if_splits)
  note w = drop_box_inv [OF inv i(1,2) sz]
  have "aset (boxes t) i None = Inr (Some ((slots t)[i := None]))" using b i(1) by (metis aset.simps(2))
  then have "box_remove mutex_ok name t = Inr (0, drop_box i p sz t)"
    by (simp add: box_remove_def mutex_ok_def box_scan_inv [OF inv] f Let_def sz_def drop_box_def)
  then show "\<exists>t'. box_remove mutex_ok name t = Inr (0, t') \<and> boxes_inv t'
      \<and> heap t' = (heap t)(p := None) \<and> (\<forall>m. box_lookup m t' = (if m = name then None else box_lookup m t))"
    using w i(3) by (simp add: drop_box_def)
qed

text \<open>The table as a map: \<open>malloc\<close> returns a fresh block, \<open>realloc\<close> does not fail.\<close>

definition box_insert :: "cstring \<Rightarrow> addr \<Rightarrow> box_table \<Rightarrow> (int \<times> box_table) res" where
  "box_insert name p t = box_add mutex_ok (Some p) (Some (replicate (unat (capacity t)) None)) name t"

definition box_usable :: "cstring \<Rightarrow> addr \<Rightarrow> box_table \<Rightarrow> bool" where
  "box_usable name p t \<longleftrightarrow> length name < 32 \<and> heap t p = None
     \<and> (bt_size t = capacity t \<longrightarrow> 0 < unat (capacity t) \<and> unat (capacity t) < 2 ^ 62)"

interpretation box_map: named_table boxes_inv box_lookup box_usable box_insert "box_remove mutex_ok"
proof unfold_locales
  fix t n p assume a: "boxes_inv t" "box_lookup n t = None" "box_usable n p t"
  then have u: "length n < 32" "heap t p = None" and room: "table_room (Some (replicate (unat (capacity t)) None)) t"
    by (auto simp: box_usable_def table_room_def)
  from box_add_new [OF a(1) u(1) a(2) u(2) room]
  show "\<exists>t'. box_insert n p t = Inr (0, t') \<and> boxes_inv t'
      \<and> (\<forall>m. box_lookup m t' = (if m = n then Some p else box_lookup m t))"
    unfolding box_insert_def by blast
next
  fix t n p assume "boxes_inv t" "box_lookup n t = Some p"
  then show "\<exists>t'. box_remove mutex_ok n t = Inr (0, t') \<and> boxes_inv t'
      \<and> (\<forall>m. box_lookup m t' = (if m = n then None else box_lookup m t))"
    using box_remove_eq(2) by blast
next
  fix t n assume "boxes_inv t" "box_lookup n t = None"
  then show "box_remove mutex_ok n t = Inr (-1, t)" by (rule box_remove_eq(1))
qed

section \<open>Properties of the table\<close>

text \<open>A table with the boxes \<open>a\<close> and \<open>b\<close>, and \<open>a\<close>'s slot empty again.\<close>

definition demo_box :: "cstring \<Rightarrow> box_t" where "demo_box name = new_box name"

definition demo_table :: box_table where
  "demo_table = \<lparr>boxes = Some [None, Some 11], subs = Some (replicate 8 None), capacity = 2, bt_size = 2, num_elem = 1,
     heap = (\<lambda>p. if p = 11 then Some (new_box [98]) else None)\<rparr>"

lemma demo_table_inv: "boxes_inv demo_table"
  by (auto simp: boxes_inv_def demo_table_def dest!: less_2_cases)

lemma demo_lookup: "box_lookup [97] demo_table = None" "box_lookup [98] demo_table = Some 11"
  by (simp_all add: box_lookup_def demo_table_def new_box_def)

text \<open>
  \<open>box_table_init\<close> gives a table of eight empty slots in which every name is unknown.
\<close>

theorem box_table_init_empty:
  assumes "length b = 8" and "length sb = 8"
  shows "\<exists>t'. box_table_init (Some b) (Some sb) t = Inr (0, t') \<and> boxes_inv t' \<and> capacity t' = 8
    \<and> (\<forall>name. box_find mutex_ok name t' = Inr None)"
proof -
  let ?t = "t\<lparr>boxes := Some (replicate 8 None), subs := Some (replicate 8 None), capacity := 8, bt_size := 0, num_elem := 0\<rparr>"
  have "box_table_init (Some b) (Some sb) t = Inr (0, ?t)"
    using clear_slots_eq [OF _ assms(1) [symmetric], of 0] clear_slots_eq [OF _ assms(2) [symmetric], of 0]
    by (simp add: box_table_init_def Let_def)
  moreover have "boxes_inv ?t"
  proof -
    have "count_boxes (replicate 8 None) = 0" by (rule count_boxes_none) simp
    then show ?thesis by (simp add: boxes_inv_def)
  qed
  moreover have "box_lookup name ?t = None" for name
    using box_lookup_None [OF \<open>boxes_inv ?t\<close>] by simp
  ultimately show ?thesis using box_find_eq by (intro exI [of _ ?t]) simp
qed

theorem box_table_init_empty_witness:
  "\<exists>t'. box_table_init (Some (replicate 8 (Some 3))) (Some (replicate 8 None)) demo_table = Inr (0, t') \<and> boxes_inv t'
    \<and> capacity t' = 8 \<and> (\<forall>name. box_find mutex_ok name t' = Inr None)"
  by (rule box_table_init_empty) simp_all

text \<open>
  C24. \<open>box_add\<close> of a new name of at most 31 bytes succeeds, growing the table when it is full
  and reusing a free slot when there is one: \<open>box_find\<close> finds the new box, with no publisher
  and no subscriber, and finds every other name as before.
\<close>

theorem box_add_then_find:
  assumes "boxes_inv t" and "length name < 32" and "box_find mutex_ok name t = Inr None" and "heap t p = None"
    and "table_room extra t"
  shows "\<exists>t'. box_add mutex_ok (Some p) extra name t = Inr (0, t') \<and> boxes_inv t'
    \<and> box_find mutex_ok name t' = Inr (Some p) \<and> heap t' = (heap t)(p \<mapsto> new_box name)
    \<and> (\<forall>m. m \<noteq> name \<longrightarrow> box_find mutex_ok m t' = box_find mutex_ok m t)"
proof -
  have "box_lookup name t = None" using assms(1,3) box_find_eq by simp
  from box_add_new [OF assms(1,2) this assms(4,5)] show ?thesis
    using box_find_eq assms(1) by (metis (no_types, lifting))
qed

theorem box_add_then_find_witness:
  "\<exists>t'. box_add mutex_ok (Some 5) (Some [None, None]) [97] demo_table = Inr (0, t') \<and> boxes_inv t'
    \<and> box_find mutex_ok [97] t' = Inr (Some 5) \<and> heap t' = (heap demo_table)(5 \<mapsto> new_box [97])
    \<and> (\<forall>m. m \<noteq> [97] \<longrightarrow> box_find mutex_ok m t' = box_find mutex_ok m demo_table)"
proof (rule box_add_then_find [OF demo_table_inv])
  show "box_find mutex_ok [97] demo_table = Inr None" using box_find_eq [OF demo_table_inv] demo_lookup by simp
qed (simp_all add: demo_table_def table_room_def)

text \<open>
  C25. \<open>box_remove\<close> frees exactly the box of that name and keeps every other; it returns \<open>-1\<close>
  with nothing changed when there is none, so that removing a name twice fails the second
  time.
\<close>

theorem box_remove_effect:
  assumes "boxes_inv t"
  shows "\<exists>r t'. box_remove mutex_ok name t = Inr (r, t') \<and> boxes_inv t'
    \<and> r = (if box_lookup name t = None then -1 else 0)
    \<and> heap t' = (case box_lookup name t of None \<Rightarrow> heap t | Some p \<Rightarrow> (heap t)(p := None))
    \<and> (\<forall>m. box_find mutex_ok m t' = (if m = name then Inr None else box_find mutex_ok m t))
    \<and> box_remove mutex_ok name t' = Inr (-1, t')"
proof (cases "box_lookup name t")
  case None
  then show ?thesis using box_remove_eq(1) [OF assms None] assms box_find_eq by simp
next
  case (Some p)
  obtain t' where t': "box_remove mutex_ok name t = Inr (0, t')" "boxes_inv t'" "heap t' = (heap t)(p := None)"
    "\<forall>m. box_lookup m t' = (if m = name then None else box_lookup m t)"
    using box_remove_eq(2) [OF assms Some] by blast
  then show ?thesis
    using Some box_map.remove_twice [OF assms t'(1)] box_find_eq assms by simp
qed

theorem box_remove_effect_witness:
  "\<exists>r t'. box_remove mutex_ok [98] demo_table = Inr (r, t') \<and> boxes_inv t'
    \<and> r = (if box_lookup [98] demo_table = None then -1 else 0)
    \<and> heap t' = (case box_lookup [98] demo_table of None \<Rightarrow> heap demo_table | Some p \<Rightarrow> (heap demo_table)(p := None))
    \<and> (\<forall>m. box_find mutex_ok m t' = (if m = [98] then Inr None else box_find mutex_ok m demo_table))
    \<and> box_remove mutex_ok [98] t' = Inr (-1, t')"
  by (rule box_remove_effect [OF demo_table_inv])

end
