(* ===== verification/Boxes_Counts.thy ===== *)
theory Boxes_Counts
  imports Boxes_Props
begin

text \<open>
  The counts of publishers and subscribers of a box: registering and unregistering changes
  one box of the heap and nothing else, and there is one publisher at a time.
\<close>

section \<open>Changing a box in place\<close>

definition set_box :: "addr \<Rightarrow> box_t \<Rightarrow> box_table \<Rightarrow> box_table" where
  "set_box p y t = t\<lparr>heap := (heap t)(p \<mapsto> y)\<rparr>"

lemma set_box_simps [simp]:
  "boxes (set_box p y t) = boxes t" "capacity (set_box p y t) = capacity t" "bt_size (set_box p y t) = bt_size t"
  "num_elem (set_box p y t) = num_elem t" "heap (set_box p y t) = (heap t)(p \<mapsto> y)"
  "set_box p z (set_box p y t) = set_box p z t"
  by (simp_all add: set_box_def)

lemma set_box_same: "heap t p = Some x \<Longrightarrow> set_box p x t = t"
  by (simp add: set_box_def fun_upd_idem)

lemma set_box_inv:
  assumes inv: "boxes_inv t" and x: "heap t p = Some x" "file_name y = file_name x"
  shows "boxes_inv (set_box p y t)" and "box_lookup name (set_box p y t) = box_lookup name t"
proof -
  have nm: "name_of (set_box p y t) q = name_of t q" for q
    using x by (simp add: name_of_def)
  show inv': "boxes_inv (set_box p y t)"
    unfolding boxes_inv_def nm set_box_simps
  proof (intro conjI allI impI)
    show "boxes t \<noteq> None" using boxes_invD(1) [OF inv] by (metis option.distinct(1))
    show "((heap t)(p \<mapsto> y)) q \<noteq> None" if "i < unat (capacity t)" "slots t ! i = Some q" for i q
      using boxes_invD(6) [OF inv that] by auto
  qed (use boxes_invD(2-5,7) [OF inv] in blast)+
  have "box_lookup name (set_box p y t) = Some q \<longleftrightarrow> box_lookup name t = Some q" for q
    unfolding box_lookup_Some [OF inv] box_lookup_Some [OF inv'] nm by simp
  then show "box_lookup name (set_box p y t) = box_lookup name t" by (metis not_Some_eq)
qed

section \<open>Registering and unregistering\<close>

lemma mutex_ok_rcs [simp]: "lock_rc mutex_ok = 0" "unlock_rc mutex_ok = 0"
  by (simp_all add: mutex_ok_def)

lemma box_register_pub_eq:
  assumes inv: "boxes_inv t"
  shows "box_lookup name t = None \<Longrightarrow> box_register_pub mutex_ok mutex_ok name t = Inr (None, t)"
    and "box_lookup name t = Some p \<Longrightarrow> heap t p = Some x \<Longrightarrow> box_register_pub mutex_ok mutex_ok name t =
      Inr (if pub_num x = 1 then (None, t) else (Some p, set_box p (x\<lparr>pub_num := pub_num x + 1\<rparr>) t))"
  by (simp_all add: box_register_pub_def box_find_eq [OF inv] deref_def set_box_def Let_def)

lemma box_unregister_pub_eq:
  assumes "heap t p = Some x"
  shows "box_unregister_pub mutex_ok (Some p) t =
    Inr (if pub_num x = 0 then (-1, t) else (0, set_box p (x\<lparr>pub_num := pub_num x - 1\<rparr>) t))"
  using assms by (simp add: box_unregister_pub_def deref_def set_box_def Let_def)

lemma box_register_sub_eq:
  assumes inv: "boxes_inv t"
  shows "box_lookup name t = None \<Longrightarrow> box_register_sub mutex_ok mutex_ok name t = Inr (None, t)"
    and "box_lookup name t = Some p \<Longrightarrow> heap t p = Some x \<Longrightarrow> box_register_sub mutex_ok mutex_ok name t =
      Inr (Some p, set_box p (x\<lparr>sub_num := sub_num x + 1\<rparr>) t)"
  by (simp_all add: box_register_sub_def box_find_eq [OF inv] deref_def set_box_def Let_def)

lemma box_unregister_sub_eq:
  assumes "heap t p = Some x"
  shows "box_unregister_sub mutex_ok (Some p) t =
    Inr (if sub_num x = 0 then (-1, t) else (0, set_box p (x\<lparr>sub_num := sub_num x - 1\<rparr>) t))"
  using assms by (simp add: box_unregister_sub_def deref_def set_box_def Let_def)

lemmas box_count_eqs = box_register_pub_eq box_unregister_pub_eq box_register_sub_eq box_unregister_sub_eq

text \<open>
  A box has one publisher at a time: the first registration is granted and counted, a
  second one is refused with nothing changed until the first is undone, which gives the
  table back as it was; undoing a registration that was not made fails.
\<close>

theorem one_publisher:
  assumes inv: "boxes_inv t" and p: "box_find mutex_ok name t = Inr (Some p)" "heap t p = Some x" "pub_num x = 0"
  shows "\<exists>t'. box_register_pub mutex_ok mutex_ok name t = Inr (Some p, t') \<and> boxes_inv t'
    \<and> heap t' = (heap t)(p \<mapsto> x\<lparr>pub_num := 1\<rparr>) \<and> (\<forall>m. box_find mutex_ok m t' = box_find mutex_ok m t)
    \<and> box_register_pub mutex_ok mutex_ok name t' = Inr (None, t')
    \<and> box_unregister_pub mutex_ok (Some p) t' = Inr (0, t)
    \<and> box_unregister_pub mutex_ok (Some p) t = Inr (-1, t)"
proof -
  let ?y = "x\<lparr>pub_num := 1\<rparr>" and ?t = "set_box p (x\<lparr>pub_num := 1\<rparr>) t"
  have l: "box_lookup name t = Some p" using p(1) box_find_eq [OF inv] by simp
  have fn: "file_name ?y = file_name x" by simp
  note s = set_box_inv [OF inv p(2) fn]
  have "x\<lparr>pub_num := 0\<rparr> = x" using p(3) by (cases x) simp
  then have "set_box p (x\<lparr>pub_num := 0\<rparr>) t = t" using set_box_same [OF p(2)] by simp
  then show ?thesis
    using box_count_eqs(2) [OF inv l p(2)] box_count_eqs(2) [OF s(1), of name p ?y] box_count_eqs(3) [of ?t p ?y]
      box_count_eqs(3) [OF p(2)] s l p(3) box_find_eq [OF inv] box_find_eq [OF s(1)]
    by (intro exI [of _ ?t]) simp
qed

theorem one_publisher_witness:
  "\<exists>t'. box_register_pub mutex_ok mutex_ok [98] demo_table = Inr (Some 11, t') \<and> boxes_inv t'
    \<and> heap t' = (heap demo_table)(11 \<mapsto> (new_box [98])\<lparr>pub_num := 1\<rparr>)
    \<and> (\<forall>m. box_find mutex_ok m t' = box_find mutex_ok m demo_table)
    \<and> box_register_pub mutex_ok mutex_ok [98] t' = Inr (None, t')
    \<and> box_unregister_pub mutex_ok (Some 11) t' = Inr (0, demo_table)
    \<and> box_unregister_pub mutex_ok (Some 11) demo_table = Inr (-1, demo_table)"
proof (rule one_publisher [OF demo_table_inv])
  show "box_find mutex_ok [98] demo_table = Inr (Some 11)" using box_find_eq [OF demo_table_inv] demo_lookup by simp
qed (simp_all add: demo_table_def new_box_def)

text \<open>
  Subscribers are counted without a limit: \<open>n\<close> registrations all succeed and leave a count
  \<open>n\<close> higher, and as many unregistrations undo them, as long as the count does not pass
  \<open>2 ^ 64\<close>.
\<close>

fun register_subs :: "nat \<Rightarrow> cstring \<Rightarrow> box_table \<Rightarrow> box_table res" where
  "register_subs 0 name t = Inr t"
| "register_subs (Suc n) name t =
     bindE (box_register_sub mutex_ok mutex_ok name t) (\<lambda>(box, t).
     if box = None then Inl Exit_failure else register_subs n name t)"

fun unregister_subs :: "nat \<Rightarrow> addr \<Rightarrow> box_table \<Rightarrow> box_table res" where
  "unregister_subs 0 p t = Inr t"
| "unregister_subs (Suc n) p t =
     bindE (box_unregister_sub mutex_ok (Some p) t) (\<lambda>(r, t).
     if r = -1 then Inl Exit_failure else unregister_subs n p t)"

lemma register_subs_eq:
  "boxes_inv t \<Longrightarrow> box_lookup name t = Some p \<Longrightarrow> heap t p = Some x \<Longrightarrow>
     register_subs n name t = Inr (set_box p (x\<lparr>sub_num := sub_num x + of_nat n\<rparr>) t)"
proof (induction n arbitrary: t x)
  case 0
  then show ?case by (simp add: set_box_same)
next
  case (Suc n)
  let ?y = "x\<lparr>sub_num := sub_num x + 1\<rparr>"
  have fn: "file_name ?y = file_name x" by simp
  note s = set_box_inv [OF Suc.prems(1,3) fn]
  have "register_subs n name (set_box p ?y t) = Inr (set_box p (?y\<lparr>sub_num := sub_num ?y + of_nat n\<rparr>) (set_box p ?y t))"
    using Suc.prems(2) s by (intro Suc.IH) simp_all
  then show ?case using box_count_eqs(5) [OF Suc.prems(1-3)] by (simp add: algebra_simps)
qed

lemma unregister_subs_eq:
  "heap t p = Some x \<Longrightarrow> n \<le> unat (sub_num x) \<Longrightarrow>
     unregister_subs n p t = Inr (set_box p (x\<lparr>sub_num := sub_num x - of_nat n\<rparr>) t)"
proof (induction n arbitrary: t x)
  case 0
  then show ?case by (simp add: set_box_same)
next
  case (Suc n)
  let ?y = "x\<lparr>sub_num := sub_num x - 1\<rparr>"
  have nz: "sub_num x \<noteq> 0" using Suc.prems(2) by auto
  then have "unat (sub_num x - 1) = unat (sub_num x) - 1" by (rule unat_minus_one)
  then have "unregister_subs n p (set_box p ?y t) = Inr (set_box p (?y\<lparr>sub_num := sub_num ?y - of_nat n\<rparr>) (set_box p ?y t))"
    using Suc.prems by (intro Suc.IH) simp_all
  then show ?case using box_count_eqs(6) [OF Suc.prems(1)] nz by (simp add: algebra_simps)
qed

theorem subscribers_counted:
  assumes inv: "boxes_inv t" and p: "box_find mutex_ok name t = Inr (Some p)" "heap t p = Some x"
    and n: "unat (sub_num x) + n < 2 ^ 64"
  shows "\<exists>t' y. register_subs n name t = Inr t' \<and> boxes_inv t' \<and> (\<forall>m. box_find mutex_ok m t' = box_find mutex_ok m t)
    \<and> heap t' = (heap t)(p \<mapsto> y) \<and> unat (sub_num y) = unat (sub_num x) + n \<and> pub_num y = pub_num x
    \<and> unregister_subs n p t' = Inr t"
proof -
  let ?y = "x\<lparr>sub_num := sub_num x + of_nat n\<rparr>"
  have l: "box_lookup name t = Some p" using p(1) box_find_eq [OF inv] by simp
  have fn: "file_name ?y = file_name x" by simp
  note s = set_box_inv [OF inv p(2) fn]
  have "unat (of_nat n :: 64 word) = n" using n by (simp add: unat_of_nat)
  then have u: "unat (sub_num x + of_nat n) = unat (sub_num x) + n" using n by (simp add: unat_word_ariths)
  have undone: "unregister_subs n p (set_box p ?y t) = Inr (set_box p (?y\<lparr>sub_num := sub_num ?y - of_nat n\<rparr>) (set_box p ?y t))"
    by (rule unregister_subs_eq) (simp_all add: u)
  have "x\<lparr>sub_num := sub_num x\<rparr> = x" by (cases x) simp
  then have "unregister_subs n p (set_box p ?y t) = Inr t" using undone set_box_same [OF p(2)] by simp
  then show ?thesis
    using register_subs_eq [OF inv l p(2)] s u box_find_eq [OF inv] box_find_eq [OF s(1)]
    by (intro exI [of _ "set_box p ?y t"] exI [of _ ?y]) simp
qed

theorem subscribers_counted_witness:
  "\<exists>t' y. register_subs 3 [98] demo_table = Inr t' \<and> boxes_inv t' \<and> (\<forall>m. box_find mutex_ok m t' = box_find mutex_ok m demo_table)
    \<and> heap t' = (heap demo_table)(11 \<mapsto> y) \<and> unat (sub_num y) = unat (sub_num (new_box [98])) + 3
    \<and> pub_num y = pub_num (new_box [98]) \<and> unregister_subs 3 11 t' = Inr demo_table"
proof (rule subscribers_counted [OF demo_table_inv])
  show "box_find mutex_ok [98] demo_table = Inr (Some 11)" using box_find_eq [OF demo_table_inv] demo_lookup by simp
qed (simp_all add: demo_table_def new_box_def)

end
