(* ===== verification/Broker_Main.thy ===== *)
theory Broker_Main
  imports Broker Tfs_Run Boxes_Counts
begin

text \<open>
  The start and the end of the broker: \<open>main\<close> up to the creation of its threads, the
  request it enqueues, the turn of a worker, which takes a request from the queue or goes on
  with the session it is serving, and \<open>close_server\<close>; and what a broker that has just started
  looks like.
\<close>

section \<open>Start\<close>

definition is_digit :: "u8 \<Rightarrow> bool" where "is_digit c \<longleftrightarrow> 48 \<le> c \<and> c \<le> 57"

text \<open>\<open>atoi\<close> of a string of digits, undefined when the number is not an \<open>int\<close>.\<close>

definition atoi :: "cstring \<Rightarrow> int res" where
  "atoi s = (let v = foldl (\<lambda>v c. v * 10 + (int (unat c) - 48)) 0 s in if v < 2 ^ 31 then Inr v else Inl Undefined)"

definition broker_params :: tfs_params where
  "broker_params = \<lparr>max_inode_count = 64, max_block_count = 1024, max_open_files_count = 16, block_size = 102400\<rparr>"

text \<open>What the allocations and the system calls of \<open>main\<close> return.\<close>

record 'e main_env =
  me_tfs :: mallocs
  me_boxes :: "addr option list option"
  me_subs :: "addr option list option"
  me_queue :: "'e list option"
  me_unlink :: int
  me_enoent :: bool
  me_mkfifo :: int

definition broker_main :: "'e main_env \<Rightarrow> cstring list \<Rightarrow> broker \<times> 'e pcq \<Rightarrow> (int \<times> broker \<times> 'e pcq) res" where
  "broker_main e argv state =
     (let (b, queue) = state in
      bindE (check_input_args (length argv) 3) (\<lambda>_.
      bindE (aget (Some argv) 1) (\<lambda>register_pipe_name.
      bindE (aget (Some argv) 2) (\<lambda>number.
      if \<not> list_all is_digit number then Inl Exit_failure
      else
        bindE (atoi number) (\<lambda>max_sessions.
        bindE (tfs_init (Some broker_params) (me_tfs e) (b_fs b)) (\<lambda>(r, s).
        if r = -1 then Inl Exit_failure
        else
          bindE (box_table_init (me_boxes e) (me_subs e) (b_table b)) (\<lambda>(r, t).
          if r = -1 then Inl Exit_failure
          else if start_fifo (me_unlink e) (me_enoent e) (me_mkfifo e) = -1 then Inl Exit_failure
          else
            (case pcq_create (me_queue e) (of_int max_sessions) queue of
               (r, queue) \<Rightarrow>
                 if r = -1 then Inl Exit_failure
                 else Inr (max_sessions, \<lparr>b_fs = s, b_table = t\<rparr>, queue)))))))))"

section \<open>End\<close>

text \<open>\<open>close_server\<close> ends the process; a value is \<open>exit(EXIT_SUCCESS)\<close>.\<close>

definition close_server :: "int \<Rightarrow> int \<Rightarrow> bool \<Rightarrow> broker \<times> 'e pcq \<Rightarrow> (broker \<times> 'e pcq) res" where
  "close_server closed unlinked enoent state =
     (let (b, queue) = state in
      if closed < 0 then Inl Exit_failure
      else if unlinked \<noteq> 0 \<and> \<not> enoent then Inl Exit_failure
      else
        bindE (tfs_destroy (b_fs b)) (\<lambda>(r, s).
        if r = -1 then Inl Exit_failure
        else
          bindE (box_table_destroy (b_table b)) (\<lambda>t.
          case pcq_destroy queue of (r, queue) \<Rightarrow> Inr (\<lparr>b_fs = s, b_table = t\<rparr>, queue))))"

section \<open>The two loops\<close>

text \<open>
  What one turn of the loop of \<open>main\<close> meets: whether \<open>malloc\<close> finds memory, what \<open>open\<close> and
  \<open>read\<close> return, and what the calls of \<open>close_server\<close> return if it comes to that.
\<close>

record recv_env =
  re_malloc :: bool
  re_open :: int
  re_read :: "u8 list option"
  re_close :: int
  re_unlink :: int
  re_enoent :: bool

text \<open>
  One turn: \<open>Some True\<close> when the request is in the queue and \<open>main\<close> goes on, \<open>None\<close> when it
  sleeps because the queue is full, \<open>Some False\<close> when the server was closed.
\<close>

definition receive_one :: "recv_env \<Rightarrow> broker \<times> u8 list pcq \<Rightarrow> (bool option \<times> broker \<times> u8 list pcq) res" where
  "receive_one e state =
     (let (b, queue) = state;
          stop = (\<lambda>state. bindE (close_server (re_close e) (re_unlink e) (re_enoent e) state) (\<lambda>state. Inr (Some False, state)))
      in
      if \<not> re_malloc e then stop (b, queue)
      else if re_open e = -1 then stop (b, queue)
      else
        (case re_read e of
           None \<Rightarrow> stop (b, queue)
         | Some bytes \<Rightarrow>
             bindE (pcq_enqueue (receive_request bytes) queue) (\<lambda>(r, queue).
             case r of
               None \<Rightarrow> Inr (None, b, queue)
             | Some r \<Rightarrow> if r = -1 then stop (b, queue) else Inr (Some True, b, queue))))"

text \<open>
  One turn of a worker, given where its handler is: a worker whose handler is over is at the
  top of the loop of \<open>handle_request\<close>, where it takes the oldest request and begins to
  serve it, or sleeps, which is the value \<open>None\<close>; a worker in a handler goes on with it.
\<close>

definition work_one ::
    "env \<Rightarrow> read_results \<Rightarrow> (int \<times> bool) list \<Rightarrow> handler \<Rightarrow> broker \<times> u8 list pcq
      \<Rightarrow> (handler \<times> sent option \<times> broker \<times> u8 list pcq) res" where
  "work_one e reads writes w state =
     (let (b, queue) = state;
          busy = (\<lambda>res queue. bindE res (\<lambda>(w, ws, b). Inr (w, Some ws, b, queue)))
      in
      case w of
        Over v \<Rightarrow>
          bindE (pcq_dequeue queue) (\<lambda>(r, queue).
          case r of
            None \<Rightarrow> Inr (w, None, b, queue)
          | Some buffer \<Rightarrow> busy (handle_request e reads writes buffer b) queue)
      | _ \<Rightarrow> busy (resume e reads writes w b) queue)"

end
