(* ===== verification/Clients.thy ===== *)
theory Clients
  imports Wire "HOL-Library.List_Lexorder"
begin

text \<open>
  The three client programs: \<open>publisher/pub.c\<close>, \<open>subscriber/sub.c\<close> and \<open>manager/manager.c\<close>.
  What the system calls answer is an argument; what a client does is the list of its writes
  to pipes, the lines it prints and the way it ends.
\<close>

text \<open>What the set-up calls of a client return; a client names pipes by their file names.\<close>

record client_env =
  ce_unlink :: int
  ce_enoent :: bool
  ce_mkfifo :: int
  ce_open :: "cstring \<Rightarrow> int"
  ce_write :: int

section \<open>Set-up\<close>

text \<open>Every system call of the set-up succeeds.\<close>

definition ready :: "client_env \<Rightarrow> bool" where
  "ready e \<longleftrightarrow> ce_unlink e = 0 \<and> ce_mkfifo e = 0 \<and> (\<forall>p. ce_open e p \<noteq> -1) \<and> 0 \<le> ce_write e"

text \<open>An entry of \<open>argv\<close>; the one after the last is NULL, which \<open>strncpy\<close> must not be given.\<close>

definition arg :: "cstring list \<Rightarrow> nat \<Rightarrow> cstring res" where
  "arg argv i = aget (Some argv) i"

text \<open>Opening the register pipe and writing one request to it.\<close>

definition send_request :: "client_env \<Rightarrow> u8 list \<Rightarrow> u8 list \<Rightarrow> sent \<times> unit res" where
  "send_request e register_pipe message =
     (if ce_open e (cstr register_pipe) = -1 then ([], Inl Exit_failure)
      else ([(cstr register_pipe, message)], if ce_write e < 0 then Inl Exit_failure else Inr ()))"

section \<open>The publisher\<close>

text \<open>
  \<open>fgets(input, n, stdin)\<close>: the bytes up to and with the next newline, but at most \<open>n - 1\<close>;
  NULL at the end of the stream.
\<close>

definition fgets_bytes :: "nat \<Rightarrow> u8 list \<Rightarrow> u8 list" where
  "fgets_bytes n stream =
     (let l = takeWhile (\<lambda>b. b \<noteq> 10) stream in
      take (n - 1) (if length l < length stream then l @ [10] else l))"

lemma fgets_bytes_ne: "stream \<noteq> [] \<Longrightarrow> 1 < n \<Longrightarrow> fgets_bytes n stream \<noteq> []"
  by (cases stream) (auto simp: fgets_bytes_def Let_def)

text \<open>
  The loop of \<open>post_request\<close>. \<open>input\<close> and \<open>request\<close> keep what earlier lines left in them.
  \<open>writes k\<close> is the result of the \<open>k\<close>-th write and \<open>epipe\<close> tells whether a failure is
  \<open>EPIPE\<close>. On a line that begins with a 0 byte \<open>input[len - 1]\<close> is outside the array.
\<close>

function post_loop :: "(nat \<Rightarrow> int) \<Rightarrow> bool \<Rightarrow> nat \<Rightarrow> u8 list \<Rightarrow> u8 list \<Rightarrow> u8 list \<Rightarrow> u8 list list \<times> int res" where
  "post_loop writes epipe k stream input request =
     (if stream = [] then ([], Inr 0)
      else
        let line = fgets_bytes MESSAGE_LEN stream;
            input = patch 0 (line @ [0]) input;
            len = length (cstr input)
        in
        if len = 0 then ([], Inl Undefined)
        else
          let input = (if input ! (len - 1) = 10 then input[len - 1 := 0] else input);
              request = patch 1 (take (MESSAGE_LEN - 1) input) request
          in
          if writes k < 0 then ([request], Inr (if epipe then 0 else -1))
          else
            (case post_loop writes epipe (Suc k) (drop (length line) stream) input request of
               (ms, r) \<Rightarrow> (request # ms, r)))"
  by pat_completeness auto
termination
  by (relation "measure (\<lambda>(w, e, k, stream, i, r). length stream)") (auto intro!: diff_less simp: fgets_bytes_ne)

declare post_loop.simps [simp del]

definition post_request :: "(nat \<Rightarrow> int) \<Rightarrow> bool \<Rightarrow> u8 list \<Rightarrow> u8 list list \<times> int res" where
  "post_request writes epipe stream =
     post_loop writes epipe 0 stream (replicate MESSAGE_LEN 0) ((replicate PUBLISHER_BUFFER_SIZE 0)[0 := 9])"

text \<open>
  \<open>main\<close> of the publisher ignores what \<open>post_request\<close> returns. The value of \<open>main\<close> is 0.
\<close>

definition publisher_main ::
    "client_env \<Rightarrow> (nat \<Rightarrow> int) \<Rightarrow> bool \<Rightarrow> cstring list \<Rightarrow> u8 list \<Rightarrow> sent \<times> int res" where
  "publisher_main e writes epipe argv stream =
     (case bindE (check_input_args (length argv) 4) (\<lambda>_.
           bindE (arg argv 1) (\<lambda>a1. bindE (arg argv 2) (\<lambda>a2. bindE (arg argv 3) (\<lambda>a3.
           Inr (copy_arg PIPE_LEN a1, copy_arg PIPE_LEN a2, copy_arg BOX_LEN a3))))) of
        Inl f \<Rightarrow> ([], Inl f)
      | Inr (register_pipe, pipe_name, box_name) \<Rightarrow>
          if start_fifo (ce_unlink e) (ce_enoent e) (ce_mkfifo e) = -1 then ([], Inl Exit_failure)
          else
            (case send_request e register_pipe (register_message 1 pipe_name box_name) of
               (ws, Inl f) \<Rightarrow> (ws, Inl f)
             | (ws, Inr _) \<Rightarrow>
                 if ce_open e (cstr pipe_name) = -1 then (ws, Inl Exit_failure)
                 else (case post_request writes epipe stream of
                     (ms, Inl f) \<Rightarrow> (ws @ map (Pair (cstr pipe_name)) ms, Inl f)
                   | (ms, Inr _) \<Rightarrow> (ws @ map (Pair (cstr pipe_name)) ms, Inr 0))))"

section \<open>The subscriber\<close>

text \<open>
  \<open>getResponse\<close> of \<open>sub.c\<close>: the lines printed and, unless it is waiting in \<open>read\<close>, its
  result. The buffer keeps what earlier messages left in it.
\<close>

fun sub_loop :: "u8 list \<Rightarrow> read_results \<Rightarrow> cstring list \<times> int option res" where
  "sub_loop buffer [] = ([], Inr None)"
| "sub_loop buffer (r # rs) =
     (let bytes = take SUBSCRIBER_BUFFER_SIZE (case r of None \<Rightarrow> [] | Some bs \<Rightarrow> bs);
          buffer = patch 0 bytes buffer
      in
      if r = None \<or> bytes = [] then ([], Inr (Some (-1)))
      else if buffer ! 0 \<noteq> 10 then ([], Inr (Some (-1)))
      else (case string_at 1 buffer of
          Inl f \<Rightarrow> ([], Inl f)
        | Inr s \<Rightarrow> (case sub_loop buffer rs of (out, x) \<Rightarrow> (s # out, x))))"

definition sub_getResponse :: "client_env \<Rightarrow> u8 list \<Rightarrow> read_results \<Rightarrow> cstring list \<times> int option res" where
  "sub_getResponse e pipename reads =
     (if ce_open e (cstr pipename) = -1 then ([], Inr (Some (-1)))
      else sub_loop (replicate SUBSCRIBER_BUFFER_SIZE 0) reads)"

definition subscriber_main ::
    "client_env \<Rightarrow> cstring list \<Rightarrow> read_results \<Rightarrow> sent \<times> cstring list \<times> int option res" where
  "subscriber_main e argv reads =
     (case bindE (check_input_args (length argv) 4) (\<lambda>_.
           bindE (arg argv 1) (\<lambda>a1. bindE (arg argv 2) (\<lambda>a2. bindE (arg argv 3) (\<lambda>a3.
           Inr (copy_arg PIPE_LEN a1, copy_arg PIPE_LEN a2, copy_arg BOX_LEN a3))))) of
        Inl f \<Rightarrow> ([], [], Inl f)
      | Inr (register_pipe, pipe_name, box_name) \<Rightarrow>
          if ce_mkfifo e \<noteq> 0 then ([], [], Inr (Some (-1)))
          else
            (case send_request e register_pipe (register_message 2 pipe_name box_name) of
               (ws, Inl f) \<Rightarrow> (ws, [], Inl f)
             | (ws, Inr _) \<Rightarrow>
                 (case sub_getResponse e pipe_name reads of
                    (out, Inr (Some _)) \<Rightarrow> (ws, out, Inr (Some 0))
                  | (out, x) \<Rightarrow> (ws, out, x))))"

text \<open>
  The handler of SIGINT: the results of closing and of unlinking the pipe; a value is the
  total it prints before \<open>exit(EXIT_SUCCESS)\<close>, the number of the lines printed so far.
\<close>

definition sub_sigint_handler :: "int \<Rightarrow> int \<Rightarrow> bool \<Rightarrow> cstring list \<Rightarrow> int res" where
  "sub_sigint_handler closed unlinked enoent printed =
     (if closed < 0 then Inl Exit_failure
      else if unlinked \<noteq> 0 \<and> \<not> enoent then Inl Exit_failure
      else Inr (int (length printed)))"

section \<open>The manager\<close>

datatype manager_output =
    Out_error cstring
  | Out_ok
  | Out_no_boxes
  | Out_box cstring "64 word" "64 word" "64 word"
  | Out_no_subs
  | Out_sub cstring

text \<open>
  \<open>getResponse\<close> of \<open>manager.c\<close>. The shift of an \<open>int32_t\<close> keeps 32 bits, as gcc documents (ISO C
  leaves a shift into the sign bit undefined); the byte added has nothing but zeros below it.
\<close>

fun return_code_loop :: "u8 list \<Rightarrow> nat \<Rightarrow> int \<Rightarrow> int" where
  "return_code_loop response 0 rc = rc"
| "return_code_loop response (Suc i) rc =
     return_code_loop response i (signed_take_bit 31 (rc * 256) + uint (response ! Suc i))"

definition manager_getResponse :: "u8 list \<Rightarrow> (manager_output list \<times> int) res" where
  "manager_getResponse response =
     (let return_code = return_code_loop response 4 0 in
      if return_code < 0 then bindE (string_at 5 response) (\<lambda>s. Inr ([Out_error s], -1))
      else Inr ([Out_ok], 0))"

text \<open>
  The receive loop for a list. The array of pointers has \<open>cap\<close> slots and doubles when
  \<open>list_size\<close> reaches \<open>cap - 1\<close>; \<open>mem k\<close> tells whether the \<open>k\<close>-th allocation of the program
  succeeds, which it does not check. The result is the list of the entries, or \<open>None\<close> while
  the loop is waiting for the next one.
\<close>

fun receive_loop ::
    "(nat \<Rightarrow> bool) \<Rightarrow> u8 \<Rightarrow> read_results \<Rightarrow> nat \<Rightarrow> nat \<Rightarrow> nat \<Rightarrow> nat \<Rightarrow> u8 list list \<Rightarrow> u8 list list option res" where
  "receive_loop mem op_code [] k i cap list_size entries = Inr None"
| "receive_loop mem op_code (r # rs) k i cap list_size entries =
     (if cap \<le> i \<or> \<not> mem k then Inl Undefined
      else
        let entry = replicate MANAGER_LIST_RESPONSE_BUFFER_SIZE 0;
            bytes = (case r of None \<Rightarrow> [] | Some bs \<Rightarrow> bs);
            entry = (if i = 0 then (patch 1 (take (MANAGER_LIST_RESPONSE_BUFFER_SIZE - 1) bytes) entry)[0 := op_code]
                     else patch 0 (take MANAGER_LIST_RESPONSE_BUFFER_SIZE bytes) entry);
            grow = (i \<noteq> 0 \<and> list_size = cap - 1)
        in
        if grow \<and> \<not> mem (Suc k) then Inl Undefined
        else if r = None then Inl Exit_failure
        else if entry ! 1 \<noteq> 0 then Inr (Some (entries @ [entry]))
        else receive_loop mem op_code rs (if grow then k + 2 else k + 1) (Suc i) (if grow then cap * 2 else cap)
               (Suc list_size) (entries @ [entry]))"

text \<open>Printing: the first entry with a set last flag and an empty name ends the program.\<close>

fun print_boxes :: "u8 list list \<Rightarrow> manager_output list \<times> int res" where
  "print_boxes [] = ([], Inr (-1))"
| "print_boxes (e # es) =
     (if e ! 1 = 1 \<and> e ! 2 = 0 then ([Out_no_boxes], Inl Exit_failure)
      else (case string_at 2 e of
          Inl f \<Rightarrow> ([], Inl f)
        | Inr s \<Rightarrow> (case print_boxes es of (out, x) \<Rightarrow>
            (Out_box s (bytes_u64 (region 34 8 e)) (bytes_u64 (region 42 8 e)) (bytes_u64 (region 50 8 e)) # out, x))))"

fun print_subs :: "u8 list list \<Rightarrow> manager_output list \<times> int res" where
  "print_subs [] = ([], Inr (-1))"
| "print_subs (e # es) =
     (if e ! 1 = 1 \<and> e ! 2 = 0 then ([Out_no_subs], Inl Exit_failure)
      else (case string_at 2 e of
          Inl f \<Rightarrow> ([], Inl f)
        | Inr s \<Rightarrow> (case print_subs es of (out, x) \<Rightarrow> (Out_sub s # out, x))))"

text \<open>
  The second half of \<open>main\<close>, from the opening of its own pipe on. \<open>qsort\<close> with
  \<open>compare_strings\<close> sorts by the bytes of the names. \<open>main\<close> returns \<open>-1\<close> in the end.
\<close>

definition compare_key :: "u8 list \<Rightarrow> cstring" where "compare_key e = cstr (drop 2 e)"

definition manager_receive ::
    "client_env \<Rightarrow> (nat \<Rightarrow> bool) \<Rightarrow> u8 list \<Rightarrow> read_results \<Rightarrow> manager_output list \<times> int option res" where
  "manager_receive e mem pipe_name reads =
     (if ce_open e (cstr pipe_name) = -1 then ([], Inl Exit_failure)
      else case reads of
        [] \<Rightarrow> ([], Inr None)
      | None # rs \<Rightarrow> ([], Inl Exit_failure)
      | Some bs # rs \<Rightarrow>
          let op_code = (if bs = [] then 0 else hd bs) in
          if op_code = 4 \<or> op_code = 6 then
            (case rs of
               [] \<Rightarrow> ([], Inr None)
             | None # _ \<Rightarrow> ([], Inl Exit_failure)
             | Some bs # _ \<Rightarrow>
                 let response = (replicate MANAGER_RESPONSE_BUFFER_SIZE 0)[0 := op_code];
                     response = patch 1 (take (MANAGER_RESPONSE_BUFFER_SIZE - 1) bs) response
                 in (case manager_getResponse response of
                       Inl f \<Rightarrow> ([], Inl f)
                     | Inr (out, r) \<Rightarrow> (out, if r = -1 then Inl Exit_failure else Inr (Some (-1)))))
          else if op_code = 8 then
            (case (if mem 0 then receive_loop mem 8 rs 1 0 8 0 [] else Inl Undefined) of
               Inl f \<Rightarrow> ([], Inl f)
             | Inr None \<Rightarrow> ([], Inr None)
             | Inr (Some es) \<Rightarrow> apsnd (map_sum id Some) (print_boxes (sort_key compare_key es)))
          else if op_code = 12 then
            (case (if mem 0 then receive_loop mem 12 rs 1 0 8 0 [] else Inl Undefined) of
               Inl f \<Rightarrow> ([], Inl f)
             | Inr None \<Rightarrow> ([], Inr None)
             | Inr (Some es) \<Rightarrow> apsnd (map_sum id Some) (print_subs es))
          else ([], Inr (Some (-1))))"

text \<open>
  The first half of \<open>main\<close>: the request of a command line, \<open>None\<close> for an unknown command.
  Only four arguments are checked for, but \<open>create\<close> and \<open>remove\<close> use a fifth.
\<close>

definition manager_request :: "cstring list \<Rightarrow> u8 list \<Rightarrow> u8 list option res" where
  "manager_request argv pipe_name =
     bindE (arg argv 3) (\<lambda>command.
     if command = text_bytes ''create'' then
       bindE (arg argv 4) (\<lambda>b. Inr (Some (register_message 3 pipe_name (copy_arg BOX_LEN b))))
     else if command = text_bytes ''remove'' then
       bindE (arg argv 4) (\<lambda>b. Inr (Some (register_message 5 pipe_name (copy_arg BOX_LEN b))))
     else if command = text_bytes ''list'' then Inr (Some (list_message 7 pipe_name))
     else if command = text_bytes ''subs'' then Inr (Some (list_message 11 pipe_name))
     else Inr None)"

definition manager_main ::
    "client_env \<Rightarrow> (nat \<Rightarrow> bool) \<Rightarrow> cstring list \<Rightarrow> read_results \<Rightarrow> sent \<times> manager_output list \<times> int option res" where
  "manager_main e mem argv reads =
     (case bindE (check_input_args (length argv) 4) (\<lambda>_.
           bindE (arg argv 1) (\<lambda>a1. bindE (arg argv 2) (\<lambda>a2.
           Inr (copy_arg PIPE_LEN a1, copy_arg PIPE_LEN a2)))) of
        Inl f \<Rightarrow> ([], [], Inl f)
      | Inr (register_pipe, pipe_name) \<Rightarrow>
          if start_fifo (ce_unlink e) (ce_enoent e) (ce_mkfifo e) = -1 then ([], [], Inr (Some (-1)))
          else
            (case manager_request argv pipe_name of
               Inl f \<Rightarrow> ([], [], Inl f)
             | Inr None \<Rightarrow> ([], [], Inr (Some (-1)))
             | Inr (Some m) \<Rightarrow>
                 (case send_request e register_pipe m of
                    (ws, Inl f) \<Rightarrow> (ws, [], Inl f)
                  | (ws, Inr _) \<Rightarrow> (case manager_receive e mem pipe_name reads of (out, x) \<Rightarrow> (ws, out, x)))))"

end
