(* ===== verification/Clients_Props.thy ===== *)
theory Clients_Props
  imports Clients
begin

text \<open>
  What the clients put on the pipes and what they make of what they get: requests arrive as
  they were meant, lines become messages, responses are read back.
\<close>

section \<open>Requests\<close>

text \<open>A request as the broker reads it: its type, the pipe to answer on, the box.\<close>

definition carries :: "u8 list \<Rightarrow> u8 \<Rightarrow> cstring \<Rightarrow> cstring \<Rightarrow> bool" where
  "carries request code pipe box \<longleftrightarrow> length request = 1029 \<and> request ! 0 = code \<and> string_at 1 request = Inr pipe
     \<and> string_at 257 request = Inr box"

lemma zero_in_copy_arg [simp]: "0 \<in> set (copy_arg n s)"
  by (simp add: copy_arg_def)

lemma register_carries:
  assumes "is_cstring pipe" and "is_cstring box"
  shows "carries (receive_request (register_message code (copy_arg 256 pipe) (copy_arg 32 box))) code (take 255 pipe) (take 31 box)"
proof -
  let ?p = "copy_arg 256 pipe" and ?b = "copy_arg 32 box"
  have r: "receive_request (register_message code ?p ?b) = code # ?p @ ?b @ replicate 740 0"
    by (simp add: register_message_eq receive_request_short)
  have "drop 257 (code # ?p @ ?b @ replicate 740 0) = ?b @ replicate 740 0"
    by (simp add: drop_Cons')
  then show ?thesis
    unfolding carries_def r using cstr_copy_arg [OF assms(1), of 256] cstr_copy_arg [OF assms(2), of 32]
    by (simp add: string_at_def)
qed

lemma list_carries:
  assumes "is_cstring pipe"
  shows "carries (receive_request (list_message code (copy_arg 256 pipe))) code (take 255 pipe) []"
proof -
  let ?p = "copy_arg 256 pipe"
  have r: "receive_request (list_message code ?p) = code # ?p @ replicate 772 0"
    by (simp add: list_message_eq receive_request_short)
  have "drop 257 (code # ?p @ replicate 772 0) = replicate 772 0"
    by (simp add: drop_Cons')
  then show ?thesis
    unfolding carries_def r using cstr_copy_arg [OF assms, of 256]
    by (simp add: string_at_def) (simp add: cstr_def numeral_eq_Suc)
qed

lemma cstr_copy_arg_full: "is_cstring s \<Longrightarrow> cstr (copy_arg n s) = take (n - 1) s"
  using cstr_copy_arg [of s n "[]"] by simp

lemma ready_send:
  "ready e \<Longrightarrow> send_request e reg m = ([(cstr reg, m)], Inr ())"
  "ready e \<Longrightarrow> start_fifo (ce_unlink e) (ce_enoent e) (ce_mkfifo e) = 0"
  by (simp_all add: ready_def send_request_def start_fifo_def)

definition requests :: "sent \<Rightarrow> cstring \<Rightarrow> u8 \<Rightarrow> cstring \<Rightarrow> cstring \<Rightarrow> bool" where
  "requests ws reg code pipe box \<longleftrightarrow>
     (\<exists>m rest. ws = (take 255 reg, m) # rest \<and> carries (receive_request m) code (take 255 pipe) (take 31 box))"

lemma publisher_requests:
  assumes "ready e" and "is_cstring reg" and "is_cstring pipe" and "is_cstring box"
  shows "requests (fst (publisher_main e writes epipe [prog, reg, pipe, box] stream)) reg 1 pipe box"
  using assms(1) register_carries [OF assms(3,4), of 1]
  by (auto simp: publisher_main_def check_input_args_def arg_def ready_send cstr_copy_arg_full assms(2) requests_def
      split: prod.splits sum.splits)

lemma subscriber_requests:
  assumes "ready e" and "is_cstring reg" and "is_cstring pipe" and "is_cstring box"
  shows "requests (fst (subscriber_main e [prog, reg, pipe, box] reads)) reg 2 pipe box"
  using assms(1) register_carries [OF assms(3,4), of 2]
  by (auto simp: subscriber_main_def check_input_args_def arg_def ready_send cstr_copy_arg_full assms(2) requests_def ready_def
      split: prod.splits sum.splits option.splits)

lemma manager_requests:
  assumes "ready e" and "is_cstring reg" and "is_cstring pipe" and "is_cstring box"
    and "manager_request argv (copy_arg 256 pipe) = Inr (Some m)" and "argv = prog # reg # pipe # command # others"
    and "carries (receive_request m) code (take 255 pipe) (take 31 box)"
  shows "requests (fst (manager_main e mem argv reads)) reg code pipe box"
  using assms(1,5-7)
  by (auto simp: manager_main_def check_input_args_def arg_def ready_send cstr_copy_arg_full assms(2) requests_def
      split: prod.splits)

text \<open>
  C26. Every client, given a register pipe, its own pipe and a box on its command line,
  writes first of all one message to the register pipe, and in the buffer of the broker's
  \<open>main\<close> that message has the type of the request and names the client's pipe, cut at 255
  bytes, and the box, cut at 31.
\<close>

theorem clients_requests_arrive:
  assumes "ready e" and "is_cstring reg" and "is_cstring pipe" and "is_cstring box"
  shows "requests (fst (publisher_main e writes epipe [prog, reg, pipe, box] stream)) reg 1 pipe box
    \<and> requests (fst (subscriber_main e [prog, reg, pipe, box] reads)) reg 2 pipe box
    \<and> requests (fst (manager_main e mem [prog, reg, pipe, text_bytes ''create'', box] reads)) reg 3 pipe box
    \<and> requests (fst (manager_main e mem [prog, reg, pipe, text_bytes ''remove'', box] reads)) reg 5 pipe box
    \<and> requests (fst (manager_main e mem [prog, reg, pipe, text_bytes ''list''] reads)) reg 7 pipe []"
proof -
  have ne: "text_bytes ''remove'' \<noteq> text_bytes ''create''" "text_bytes ''list'' \<noteq> text_bytes ''create''"
    "text_bytes ''list'' \<noteq> text_bytes ''remove''"
    by (simp_all add: text_bytes_def)
  have c: "carries (receive_request (list_message 7 (copy_arg 256 pipe))) 7 (take 255 pipe) (take 31 [])"
    using list_carries [OF assms(3)] by simp
  have "requests (fst (manager_main e mem [prog, reg, pipe, text_bytes ''list''] reads)) reg 7 pipe []"
    by (rule manager_requests [OF assms(1-3) _ _ _ c]) (simp_all add: manager_request_def arg_def is_cstring_def ne)
  moreover have "requests (fst (manager_main e mem [prog, reg, pipe, text_bytes ''create'', box] reads)) reg 3 pipe box"
    by (rule manager_requests [OF assms _ _ register_carries [OF assms(3,4)]]) (simp_all add: manager_request_def arg_def)
  moreover have "requests (fst (manager_main e mem [prog, reg, pipe, text_bytes ''remove'', box] reads)) reg 5 pipe box"
    by (rule manager_requests [OF assms _ _ register_carries [OF assms(3,4)]]) (simp_all add: manager_request_def arg_def ne)
  ultimately show ?thesis
    using publisher_requests [OF assms] subscriber_requests [OF assms] by blast
qed

definition demo_env :: client_env where
  "demo_env = \<lparr>ce_unlink = 0, ce_enoent = False, ce_mkfifo = 0, ce_open = (\<lambda>_. 3), ce_write = 289\<rparr>"

lemma demo_ready: "ready demo_env"
  by (simp add: ready_def demo_env_def)

theorem clients_requests_arrive_witness:
  "requests (fst (publisher_main demo_env (\<lambda>_. 1025) False [[112], [114], [99], [97]] [104, 105, 10])) [114] 1 [99] [97]
    \<and> requests (fst (subscriber_main demo_env [[112], [114], [99], [97]] [])) [114] 2 [99] [97]
    \<and> requests (fst (manager_main demo_env (\<lambda>_. True) [[112], [114], [99], text_bytes ''create'', [97]] [])) [114] 3 [99] [97]
    \<and> requests (fst (manager_main demo_env (\<lambda>_. True) [[112], [114], [99], text_bytes ''remove'', [97]] [])) [114] 5 [99] [97]
    \<and> requests (fst (manager_main demo_env (\<lambda>_. True) [[112], [114], [99], text_bytes ''list''] [])) [114] 7 [99] []"
  by (rule clients_requests_arrive [OF demo_ready]) (simp_all add: is_cstring_def)

section \<open>Lines\<close>

text \<open>A line \<open>fgets\<close> reads whole: no NUL, no newline inside, at most 1022 bytes before it.\<close>

definition plain_line :: "cstring \<Rightarrow> bool" where
  "plain_line l \<longleftrightarrow> is_cstring l \<and> 10 \<notin> set l \<and> length l \<le> 1022"

definition stream_of :: "cstring list \<Rightarrow> u8 list" where
  "stream_of ls = concat (map (\<lambda>l. l @ [10]) ls)"

text \<open>The message of a line.\<close>

definition says :: "cstring \<Rightarrow> u8 list \<Rightarrow> bool" where
  "says l m \<longleftrightarrow> length m = 1025 \<and> m ! 0 = 9 \<and> m ! 1024 = 0 \<and> string_at 1 m = Inr l"

text \<open>
  The messages of the lines, byte by byte: \<open>input\<close> is the array that \<open>fgets\<close> reads into, of
  which a line overwrites the beginning. The first 1023 bytes of it are sent, behind the type.
\<close>

fun line_messages :: "u8 list \<Rightarrow> cstring list \<Rightarrow> u8 list list" where
  "line_messages input [] = []"
| "line_messages input (l # ls) =
     (let input = l @ [0, 0] @ drop (length l + 2) input in (9 # take 1023 input @ [0]) # line_messages input ls)"

lemma fgets_line: "plain_line l \<Longrightarrow> fgets_bytes 1024 (l @ 10 # rest) = l @ [10]"
proof -
  assume l: "plain_line l"
  have "takeWhile (\<lambda>b. b \<noteq> 10) (l @ 10 # rest) = l" using l by (auto simp: plain_line_def takeWhile_append)
  moreover have "length (l @ [10]) \<le> 1023" using l by (simp add: plain_line_def)
  ultimately show ?thesis by (simp only: fgets_bytes_def Let_def) simp
qed

lemma post_step:
  assumes l: "plain_line l" and input: "length input = 1024" and request: "length request = 1025" "request ! 0 = 9" "request ! 1024 = 0"
    and writes: "0 \<le> writes k"
  shows "\<exists>input' request'. input' = l @ [0, 0] @ drop (length l + 2) input \<and> length input' = 1024
    \<and> request' = 9 # take 1023 input' @ [0] \<and> says l request'
    \<and> post_loop writes epipe k (l @ 10 # rest) input request
      = (case post_loop writes epipe (Suc k) rest input' request' of (ms, r) \<Rightarrow> (request' # ms, r))"
proof -
  have len: "length l \<le> 1022" and nz: "is_cstring l" using l by (simp_all add: plain_line_def)
  let ?in = "patch 0 (l @ [10, 0]) input"
  have in1: "length ?in = 1024" "?in = l @ 10 # 0 # drop (length l + 2) input"
    using input len by (simp_all add: patch_def)
  have c: "cstr ?in = l @ [10]"
  proof -
    have "is_cstring (l @ [10])" using nz by (simp add: is_cstring_def)
    from cstr_append_zero [OF this] show ?thesis unfolding in1(2) by simp
  qed
  define input' where "input' = ?in[length l := 0]"
  have i': "length input' = 1024" "input' = l @ 0 # 0 # drop (length l + 2) input"
    using in1(1) by (simp add: input'_def) (simp add: input'_def in1(2) list_update_append)
  define request' where "request' = patch 1 (take 1023 input') request"
  have lr: "length request' = 1025" using request(1) i'(1) by (simp add: request'_def)
  have first: "request' ! 0 = 9"
    unfolding request'_def using i'(1) request by (subst nth_patch) simp_all
  have last: "request' ! 1024 = 0"
    unfolding request'_def using i'(1) request by (subst nth_patch) simp_all
  have tail: "drop 1 request' = take 1023 input' @ drop 1024 request"
    using request(1) i'(1) by (simp add: request'_def patch_def)
  have "drop 1024 request = [0]" using request(1,3) Cons_nth_drop_Suc [of 1024 request] by simp
  moreover have "request' = request' ! 0 # drop 1 request'" using lr by (cases request') simp_all
  ultimately have whole: "request' = 9 # take 1023 input' @ [0]" unfolding first tail by simp
  note tail
  moreover have "take 1023 input' = l @ 0 # take (1022 - length l) (0 # drop (length l + 2) input)"
    using len by (simp add: i'(2) take_Cons')
  ultimately have d: "drop 1 request' = l @ 0 # (take (1022 - length l) (0 # drop (length l + 2) input) @ drop 1024 request)"
    by simp
  have "string_at 1 request' = Inr l"
    unfolding string_at_def d using cstr_append_zero [OF nz] by simp
  with lr first last have "says l request'" by (simp add: says_def)
  moreover have "post_loop writes epipe k (l @ 10 # rest) input request
      = (case post_loop writes epipe (Suc k) rest input' request' of (ms, r) \<Rightarrow> (request' # ms, r))"
  proof -
    have "?in ! length l = 10" unfolding in1(2) by (simp add: nth_append)
    then show ?thesis
      using c writes fgets_line [OF l, of rest]
      by (subst post_loop.simps) (simp add: Let_def input'_def [symmetric] request'_def [unfolded One_nat_def, symmetric])
  qed
  ultimately show ?thesis using i' whole by (intro exI [of _ input'] exI [of _ request']) simp
qed

lemma post_lines:
  assumes "\<forall>l\<in>set ls. plain_line l" and "\<And>k. 0 \<le> writes k"
  shows "length input = 1024 \<Longrightarrow> length request = 1025 \<Longrightarrow> request ! 0 = 9 \<Longrightarrow> request ! 1024 = 0 \<Longrightarrow>
    \<exists>ms. post_loop writes epipe k (stream_of ls) input request = (ms, Inr 0) \<and> list_all2 says ls ms \<and> ms = line_messages input ls"
  using assms(1)
proof (induction ls arbitrary: k input request)
  case Nil
  then show ?case by (subst post_loop.simps) (simp add: stream_of_def)
next
  case (Cons l ls)
  obtain input' request' where r: "length input' = 1024" "says l request'"
    "input' = l @ [0, 0] @ drop (length l + 2) input" "request' = 9 # take 1023 input' @ [0]"
    "post_loop writes epipe k (l @ 10 # stream_of ls) input request
      = (case post_loop writes epipe (Suc k) (stream_of ls) input' request' of (ms, r) \<Rightarrow> (request' # ms, r))"
    using post_step [of l input request writes k epipe "stream_of ls"] Cons.prems assms(2) by auto
  have s: "length request' = 1025" "request' ! 0 = 9" "request' ! 1024 = 0" using r(2) by (simp_all add: says_def)
  have "\<forall>l\<in>set ls. plain_line l" using Cons.prems(5) by simp
  then obtain ms where "post_loop writes epipe (Suc k) (stream_of ls) input' request' = (ms, Inr 0)" "list_all2 says ls ms" "ms = line_messages input' ls"
    using Cons.IH [OF r(1) s, of "Suc k"] by blast
  then have "post_loop writes epipe k (stream_of (l # ls)) input request = (request' # ms, Inr 0)" "list_all2 says (l # ls) (request' # ms)"
    using r(2,5) by (simp_all add: stream_of_def)
  moreover have "request' # ms = line_messages input (l # ls)"
    unfolding line_messages.simps Let_def r(3) [symmetric] r(4) [symmetric]
    using \<open>ms = line_messages input' ls\<close> by (rule arg_cong)
  ultimately show ?case by blast
qed

text \<open>
  C27. The publisher turns every line of at most 1022 bytes into one message of 1025 bytes, in
  the order of the lines: the type 9, the line as a string, and 0 as the last byte. Nothing is
  cleared between two lines: behind the two 0 bytes that end the line (\<open>fgets\<close> put one there,
  the other was the newline) a message holds what the lines before have left in the array,
  exactly as \<open>line_messages\<close> says.
\<close>

theorem lines_become_messages:
  assumes "\<forall>l\<in>set ls. plain_line l" and "\<forall>k. 0 \<le> writes k"
  shows "\<exists>ms. post_request writes epipe (stream_of ls) = (ms, Inr 0) \<and> list_all2 says ls ms
    \<and> ms = line_messages (replicate MESSAGE_LEN 0) ls"
  unfolding post_request_def by (rule post_lines) (use assms in simp_all)

theorem lines_become_messages_witness:
  "\<exists>ms. post_request (\<lambda>_. 1025) False (stream_of [[104, 111, 108, 97], [], [105]]) = (ms, Inr 0)
    \<and> list_all2 says [[104, 111, 108, 97], [], [105]] ms
    \<and> ms = line_messages (replicate MESSAGE_LEN 0) [[104, 111, 108, 97], [], [105]]"
  by (rule lines_become_messages) (simp_all add: plain_line_def is_cstring_def)

section \<open>Responses\<close>

lemma signed_small: "(0::int) \<le> v \<Longrightarrow> v < 2147483648 \<Longrightarrow> signed_take_bit 31 v = v"
  by (rule signed_take_bit_int_eq_self) simp_all

lemma two_bytes:
  fixes a c :: int
  assumes "0 \<le> a" "a < 256" "0 \<le> c" "c < 256"
  shows "0 \<le> (a * 256 + c) * 256" and "(a * 256 + c) * 256 < 2147483648"
  using assms by simp_all

lemma signed_large:
  "(2::int) ^ 31 \<le> v \<Longrightarrow> v < 2 ^ 32 \<Longrightarrow> signed_take_bit 31 v = v - 2 ^ 32"
proof -
  assume v: "(2::int) ^ 31 \<le> v" "v < 2 ^ 32"
  have "(v + 2 ^ 31) mod 2 ^ 32 = (v - 2 ^ 31 + 1 * 2 ^ 32) mod 2 ^ 32" by (simp add: add.commute)
  also have "\<dots> = v - 2 ^ 31" unfolding mod_mult_self1 using v by (intro mod_pos_pos_trivial) simp_all
  finally show ?thesis by (simp add: signed_take_bit_eq_take_bit_shift take_bit_eq_mod add.commute)
qed

lemma signed_add_byte:
  fixes x b :: int
  assumes "0 \<le> x" and "x < 2 ^ 24" and "0 \<le> b" and "b < 256"
  shows "signed_take_bit 31 (x * 256) + b = signed_take_bit 31 (x * 256 + b)"
proof (cases "x * 256 < 2 ^ 31")
  case True
  then have "x * 256 + b < 2 ^ 31" using assms by simp
  then show ?thesis using True assms by (simp add: signed_take_bit_int_eq_self)
next
  case False
  then show ?thesis using assms signed_large [of "x * 256"] signed_large [of "x * 256 + b"] by simp
qed

text \<open>The shifts of \<open>getResponse\<close> read the four bytes as the machine does.\<close>

lemma return_code_loop_eq:
  assumes "region 1 4 response = [b1, b2, b3, b4]"
  shows "return_code_loop response 4 0 = bytes_int32 (region 1 4 response)"
proof -
  have "length (region 1 4 response) = 4" unfolding assms by simp
  then have l: "5 \<le> length response" by simp
  have nth: "response ! Suc i = [b1, b2, b3, b4] ! i" if "i < 4" for i
    using nth_region [of i 4 1 response] that l unfolding assms by simp
  have r: "response ! 4 = b4" "response ! 3 = b3" "response ! 2 = b2" "response ! 1 = b1"
    using nth [of 3] nth [of 2] nth [of 1] nth [of 0] by (simp_all add: numeral_eq_Suc)
  have b: "0 \<le> uint c" "uint c < 256" for c :: u8 using uint_bounded [of c] by simp_all
  let ?x = "(uint b4 * 256 + uint b3) * 256 + uint b2"
  have x: "0 \<le> ?x" "?x < 2 ^ 24" using b [of b4] b [of b3] b [of b2] by simp_all
  have "signed_take_bit 31 (uint b4 * 256) = uint b4 * 256"
    by (rule signed_small) (use b [of b4] in linarith)+
  moreover have "signed_take_bit 31 ((uint b4 * 256 + uint b3) * 256) = (uint b4 * 256 + uint b3) * 256"
    using two_bytes [OF b [of b4] b [of b3]] by (intro signed_small) simp_all
  ultimately have 1: "signed_take_bit 31 (uint b4 * 256) = uint b4 * 256"
    "signed_take_bit 31 ((uint b4 * 256 + uint b3) * 256) = (uint b4 * 256 + uint b3) * 256" .
  have "return_code_loop response 4 0 = signed_take_bit 31 (?x * 256) + uint b1"
    using r 1 by (simp add: numeral_eq_Suc)
  also have "\<dots> = signed_take_bit 31 (?x * 256 + uint b1)" by (rule signed_add_byte [OF x b])
  also have "?x * 256 + uint b1 = le_value (region 1 4 response)" unfolding assms by (simp add: le_value_def algebra_simps)
  finally show ?thesis by (simp add: bytes_int32_def)
qed

lemma length_text_bytes [simp]: "length (text_bytes s) = length s"
  by (simp add: text_bytes_def)

definition plain_text :: "string \<Rightarrow> bool" where
  "plain_text s \<longleftrightarrow> length s < 1024 \<and> is_cstring (text_bytes s)"

lemma manager_response_eq:
  assumes "length msg < 1024"
  shows "manager_response rt rc msg = rt # int32_bytes rc @ text_bytes msg @ 0 # replicate (1023 - length msg) 0"
proof -
  have "patch 0 (text_bytes msg @ [0]) (replicate 1024 0) = text_bytes msg @ 0 # replicate (1023 - length msg) 0"
    using assms by (simp add: patch_def)
  moreover have "patch 1 (int32_bytes rc) (patch 0 [rt] (replicate 1029 0)) = rt # int32_bytes rc @ replicate 1024 0"
    by (simp add: patch_def numeral_eq_Suc)
  moreover have "patch 5 e (rt # int32_bytes rc @ replicate 1024 0) = rt # int32_bytes rc @ e" if "length e = 1024" for e
    using that by (simp add: patch_def numeral_eq_Suc int32_bytes_def)
  ultimately show ?thesis using assms by (simp add: manager_response_def)
qed

text \<open>
  C28. What the broker answers to create and remove, read from the pipe one byte first and
  the rest after, makes the manager print OK for a return code that is not negative, and
  otherwise the text of the error, and end with a failure.
\<close>

theorem manager_reads_response:
  assumes "ce_open e (cstr pipe) \<noteq> -1" and "rt = 4 \<or> rt = 6" and "- (2 ^ 31) \<le> rc" and "rc < 2 ^ 31" and "plain_text msg"
  shows "manager_receive e mem pipe [Some (take 1 (manager_response rt rc msg)), Some (drop 1 (manager_response rt rc msg))]
    = (if rc < 0 then ([Out_error (text_bytes msg)], Inl Exit_failure) else ([Out_ok], Inr (Some (-1))))"
proof -
  have len: "length msg < 1024" "is_cstring (text_bytes msg)" using assms(5) by (simp_all add: plain_text_def)
  let ?m = "manager_response rt rc msg"
  have m: "?m = rt # int32_bytes rc @ text_bytes msg @ 0 # replicate (1023 - length msg) 0"
    by (rule manager_response_eq [OF len(1)])
  have "length (drop 1 ?m) = 1028" unfolding m using len(1) by simp
  then have "patch 1 (take 1028 (drop 1 ?m)) ((replicate 1029 0)[0 := rt]) = rt # drop 1 ?m"
    by (simp add: patch_def numeral_eq_Suc)
  also have "\<dots> = ?m" unfolding m by simp
  finally have buf: "patch 1 (take 1028 (drop 1 ?m)) ((replicate 1029 0)[0 := rt]) = ?m" .
  have reg: "region 1 4 ?m = int32_bytes rc" unfolding m by (simp add: region_def)
  then have "return_code_loop ?m 4 0 = rc"
    using return_code_loop_eq [of ?m] bytes_int32_bytes [OF assms(3,4)] by (simp add: int32_bytes_def)
  moreover have "string_at 5 ?m = Inr (text_bytes msg)"
    unfolding string_at_def m using cstr_append_zero [OF len(2)] by (simp add: drop_Cons' int32_bytes_def)
  ultimately have "manager_getResponse ?m = Inr (if rc < 0 then ([Out_error (text_bytes msg)], -1) else ([Out_ok], 0))"
    by (simp add: manager_getResponse_def Let_def)
  moreover have "take 1 ?m = [rt]" unfolding m by simp
  ultimately show ?thesis using assms(1,2) buf by (auto simp: manager_receive_def Let_def)
qed

theorem manager_reads_response_witness:
  "manager_receive demo_env (\<lambda>_. True) [112, 0]
      [Some (take 1 (manager_response 6 (-1) ''box_find error: box does not exist.'')),
       Some (drop 1 (manager_response 6 (-1) ''box_find error: box does not exist.''))]
    = ([Out_error (text_bytes ''box_find error: box does not exist.'')], Inl Exit_failure)"
proof -
  have "plain_text ''box_find error: box does not exist.''" by (simp add: plain_text_def text_bytes_def is_cstring_def)
  from manager_reads_response [OF _ _ _ _ this, of demo_env "[112, 0]" 6 "-1" "\<lambda>_. True"]
  show ?thesis by (simp add: demo_env_def)
qed

end
