(* ===== verification/Lists.thy ===== *)
theory Lists
  imports Broker_Main Clients_Props Tfs_Files
begin

text \<open>
  The list of the boxes, from the table of the broker to the lines the manager prints: what
  \<open>manager_list_box\<close> sends, what the receive loop of the client makes of it, and the case
  in which the client never sees the end.
\<close>

section \<open>What the broker sends\<close>

text \<open>The boxes in the slots from \<open>i\<close> to \<open>n - 1\<close>, with their slots.\<close>

definition listed :: "nat \<Rightarrow> nat \<Rightarrow> box_table \<Rightarrow> (nat \<times> addr) list" where
  "listed i n t = [(j, p). j \<leftarrow> [i..<n], p \<leftarrow> (case slots t ! j of None \<Rightarrow> [] | Some p \<Rightarrow> [p])]"

lemma listed_simps:
  "i < n \<Longrightarrow> listed i n t = (case slots t ! i of None \<Rightarrow> [] | Some p \<Rightarrow> [(i, p)]) @ listed (Suc i) n t"
  "\<not> i < n \<Longrightarrow> listed i n t = []"
  by (simp_all add: listed_def upt_conv_Cons split: option.splits)

lemma set_listed: "set (listed i n t) = {(j, p). i \<le> j \<and> j < n \<and> slots t ! j = Some p}"
  by (auto simp: listed_def split: option.splits)

definition list_entry :: "nat \<Rightarrow> box_table \<Rightarrow> nat \<times> addr \<Rightarrow> u8 list" where
  "list_entry n t jp =
     (case jp of (j, p) \<Rightarrow> list_response (if j = n - 1 then 1 else 0) (the (heap t p)))"

lemma list_loop_calm:
  assumes "calm e" and inv: "boxes_inv t"
  shows "n \<le> unat (bt_size t) \<Longrightarrow> i \<le> n \<Longrightarrow>
    list_loop e tx i n 0 k t = Inr (0, map (\<lambda>jp. (tx, list_entry n t jp)) (listed i n t))"
proof (induction "n - i" arbitrary: i k)
  case 0
  then show ?case using assms(1) by (subst list_loop.simps) (simp add: listed_simps calm_def mutex_ok_def)
next
  case (Suc d)
  then have i: "i < n" by simp
  note b = boxes_invD(1-3) [OF inv]
  have get: "aget (boxes t) i = Inr (slots t ! i)" using b i Suc.prems(1) by (metis aget.simps(2) order_less_le_trans)
  have IH: "list_loop e tx (Suc i) n 0 k t = Inr (0, map (\<lambda>jp. (tx, list_entry n t jp)) (listed (Suc i) n t))" for k
    using Suc i by (intro Suc.hyps(1)) auto
  show ?case
  proof (cases "slots t ! i")
    case None
    then show ?thesis using i get IH by (subst list_loop.simps) (simp add: listed_simps)
  next
    case (Some p)
    have "i < unat (capacity t)" using i Suc.prems(1) b(3) by simp
    then obtain x where x: "heap t p = Some x" using boxes_invD(6) [OF inv _ Some] by blast
    show ?thesis
    proof (cases "i = n - 1")
      case True
      then have l: "listed (Suc i) n t = []" and e: "list_loop e tx (Suc i) n l k t = Inr (0, [])" for l k
        using i assms(1) by (simp add: listed_simps, subst list_loop.simps) (simp add: calm_def mutex_ok_def)
      show ?thesis using i get x Some True assms(1) l e
        by (subst list_loop.simps) (auto simp: listed_simps deref_def list_entry_def calm_def mutex_ok_def Let_def not_less)
    next
      case False
      then show ?thesis using i get x Some assms(1) IH
        by (subst list_loop.simps) (auto simp: listed_simps deref_def list_entry_def calm_def mutex_ok_def Let_def not_less)
    qed
  qed
qed

section \<open>What the client reads\<close>

definition box_names_ok :: "box_table \<Rightarrow> bool" where
  "box_names_ok t \<longleftrightarrow> (\<forall>i<unat (capacity t). \<forall>p. slots t ! i = Some p \<longrightarrow>
     is_cstring (name_of t p) \<and> name_of t p \<noteq> [] \<and> length (name_of t p) < 32)"

lemma list_response_views:
  assumes "is_cstring (file_name x)" and "file_name x \<noteq> []" and "length (file_name x) < 32"
  shows "length (list_response l x) = 58" and "list_response l x ! 0 = 8" and "list_response l x ! 1 = l"
    and "list_response l x ! 2 \<noteq> 0" and "string_at 2 (list_response l x) = Inr (file_name x)"
    and "region 34 8 (list_response l x) = u64_bytes (box_size x)"
    and "region 42 8 (list_response l x) = u64_bytes (pub_num x)"
    and "region 50 8 (list_response l x) = u64_bytes (sub_num x)"
proof -
  let ?r = "list_response l x"
  note e = list_response_eq [OF assms(3), of l] and n = length_name_bytes [OF assms(3)]
  show "length ?r = 58" "?r ! 0 = 8" "?r ! 1 = l" unfolding e using n by simp_all
  obtain ys where ys: "name_bytes x = file_name x @ 0 # ys"
    using assms(3) by (simp add: name_bytes_def patch_def)
  obtain c cs where c: "file_name x = c # cs" using assms(2) by (cases "file_name x") auto
  show "?r ! 2 \<noteq> 0" unfolding e ys using assms(1) c by (simp add: is_cstring_def)
  have d: "drop 2 ?r = file_name x @ 0 # (ys @ u64_bytes (box_size x) @ u64_bytes (pub_num x) @ u64_bytes (sub_num x))"
    unfolding e ys by simp
  show "string_at 2 ?r = Inr (file_name x)"
    unfolding string_at_def d using cstr_append_zero [OF assms(1)] by simp
  show "region 34 8 ?r = u64_bytes (box_size x)" "region 42 8 ?r = u64_bytes (pub_num x)"
    "region 50 8 ?r = u64_bytes (sub_num x)"
    unfolding region_def e using n by (simp_all add: drop_Cons')
qed

text \<open>The reads of a client of a sequence of entries: the first byte alone, then entry by entry.\<close>

definition entry_reads :: "u8 list list \<Rightarrow> read_results" where
  "entry_reads ms = Some (take 1 (hd ms)) # Some (drop 1 (hd ms)) # map Some (tl ms)"

lemma patch_whole: "length bs = length xs \<Longrightarrow> patch 0 bs xs = bs"
  by (simp add: patch_def)

lemma receive_step:
  assumes "length m = 58" and "0 < i" and "i < cap" and "\<And>k. mem k"
  shows "\<exists>k' cap'. Suc i < cap' \<and> receive_loop mem op (Some m # rs) k i cap i es =
    (if m ! 1 \<noteq> 0 then Inr (Some (es @ [m])) else receive_loop mem op rs k' (Suc i) cap' (Suc i) (es @ [m]))"
proof -
  have "patch 0 (take 58 m) (replicate 58 0) = m" using assms(1) by (simp add: patch_whole)
  then have "receive_loop mem op (Some m # rs) k i cap i es =
    (if m ! 1 \<noteq> 0 then Inr (Some (es @ [m]))
     else receive_loop mem op rs (if i = cap - 1 then k + 2 else k + 1) (Suc i) (if i = cap - 1 then cap * 2 else cap)
            (Suc i) (es @ [m]))"
    using assms(2-4) by (simp add: Let_def)
  moreover have "Suc i < (if i = cap - 1 then cap * 2 else cap)" using assms(2,3) by auto
  ultimately show ?thesis by blast
qed

lemma receive_all:
  assumes "\<And>k. mem k"
  shows "ms \<noteq> [] \<Longrightarrow> \<forall>m\<in>set ms. length m = 58 \<Longrightarrow> \<forall>m\<in>set (butlast ms). m ! 1 = 0 \<Longrightarrow> last ms ! 1 \<noteq> 0 \<Longrightarrow>
    0 < i \<Longrightarrow> i < cap \<Longrightarrow> receive_loop mem op (map Some ms) k i cap i es = Inr (Some (es @ ms))"
proof (induction ms arbitrary: k i cap es)
  case (Cons m ms)
  obtain k' cap' where s: "Suc i < cap'" "receive_loop mem op (Some m # map Some ms) k i cap i es =
    (if m ! 1 \<noteq> 0 then Inr (Some (es @ [m])) else receive_loop mem op (map Some ms) k' (Suc i) cap' (Suc i) (es @ [m]))"
    using receive_step [of m i cap mem op "map Some ms" k es] Cons.prems assms by auto
  show ?case
  proof (cases "ms = []")
    case True
    then show ?thesis using s Cons.prems(4) by simp
  next
    case False
    then have z: "m ! 1 = 0" "\<forall>m\<in>set ms. length m = 58" "\<forall>m\<in>set (butlast ms). m ! 1 = 0" "last ms ! 1 \<noteq> 0"
      using Cons.prems by simp_all
    have "receive_loop mem op (map Some ms) k' (Suc i) cap' (Suc i) (es @ [m]) = Inr (Some ((es @ [m]) @ ms))"
      by (rule Cons.IH [OF False z(2-4) _ s(1)]) simp
    then show ?thesis using s(2) z(1) by simp
  qed
qed simp

lemma receive_waits:
  assumes "\<And>k. mem k"
  shows "\<forall>m\<in>set ms. length m = 58 \<and> m ! 1 = 0 \<Longrightarrow> 0 < i \<Longrightarrow> i < cap \<Longrightarrow>
    receive_loop mem op (map Some ms @ replicate n (Some [])) k i cap i es = Inr None"
proof (induction ms arbitrary: k i cap es)
  case Nil
  then show ?case
  proof (induction n arbitrary: k i cap es)
    case (Suc n)
    have "(replicate 58 0 :: u8 list) ! 1 = 0" by simp
    then show ?case using Suc assms by (auto simp: Let_def patch_def)
  qed simp
next
  case (Cons m ms)
  obtain k' cap' where s: "Suc i < cap'" "receive_loop mem op (Some m # map Some ms @ replicate n (Some [])) k i cap i es =
    (if m ! 1 \<noteq> 0 then Inr (Some (es @ [m]))
     else receive_loop mem op (map Some ms @ replicate n (Some [])) k' (Suc i) cap' (Suc i) (es @ [m]))"
    using receive_step [of m i cap mem op "map Some ms @ replicate n (Some [])" k es] Cons.prems assms by auto
  have "receive_loop mem op (map Some ms @ replicate n (Some [])) k' (Suc i) cap' (Suc i) (es @ [m]) = Inr None"
    by (rule Cons.IH [OF _ _ s(1)]) (use Cons.prems in simp_all)
  then show ?case using s(2) Cons.prems by simp
qed

text \<open>The first entry arrives in two pieces.\<close>

lemma receive_first:
  assumes "length m = 58" and "m ! 0 = op" and "\<And>k. mem k"
  shows "receive_loop mem op (Some (drop 1 m) # rs) 1 0 8 0 [] =
    (if m ! 1 \<noteq> 0 then Inr (Some [m]) else receive_loop mem op rs 2 1 8 1 [m])"
proof -
  have "(patch 1 (take 57 (drop 1 m)) (replicate 58 0))[0 := op] = op # drop 1 m"
    using assms(1) by (simp add: patch_def numeral_eq_Suc)
  also have "\<dots> = m" using assms(1,2) by (cases m) auto
  finally have buf: "(patch 1 (take 57 (drop 1 m)) (replicate 58 0))[0 := op] = m" .
  then have "patch 1 (take 57 (drop 1 m)) (replicate 58 0) ! 1 = m ! 1" by (metis nth_list_update_neq zero_neq_one)
  with buf show ?thesis using assms(3) by (simp add: Let_def numeral_2_eq_2)
qed

section \<open>From the table to the screen\<close>

definition boxes_of :: "box_table \<Rightarrow> box_t list" where
  "boxes_of t = map (\<lambda>(j, p). the (heap t p)) (listed 0 (unat (bt_size t)) t)"

definition box_line :: "box_t \<Rightarrow> manager_output" where
  "box_line x = Out_box (file_name x) (box_size x) (pub_num x) (sub_num x)"

lemma sort_key_map: "sort_key k (map f xs) = map f (sort_key (\<lambda>x. k (f x)) xs)"
proof -
  have "insort_key k (f x) (map f ys) = map f (insort_key (\<lambda>x. k (f x)) x ys)" for x ys
    by (induction ys) simp_all
  then show ?thesis by (induction xs) simp_all
qed

lemma sort_key_same:
  assumes "\<forall>x\<in>set xs. f x = g x"
  shows "sort_key f xs = sort_key g xs"
proof -
  have ins: "insort_key f x ys = insort_key g x ys" if "f x = g x" "\<forall>y\<in>set ys. f y = g y" for x ys
    using that by (induction ys) simp_all
  from assms show ?thesis
  proof (induction xs)
    case (Cons x xs)
    then show ?case using ins [of x "sort_key g xs"] by simp
  qed simp
qed

lemma listed_last: "listed 0 (Suc n) t = listed 0 n t @ (case slots t ! n of None \<Rightarrow> [] | Some p \<Rightarrow> [(n, p)])"
  by (simp add: listed_def split: option.splits)

text \<open>A slot in use holds a box with a good name, and its entry is read back.\<close>

lemma list_entry_views:
  assumes "boxes_inv t" and "box_names_ok t" and "jp \<in> set (listed 0 (unat (bt_size t)) t)"
  shows "length (list_entry n t jp) = 58" and "list_entry n t jp ! 0 = 8"
    and "list_entry n t jp ! 1 = (if fst jp = n - 1 then 1 else 0)"
    and "compare_key (list_entry n t jp) = file_name (the (heap t (snd jp)))"
    and "print_boxes (list_entry n t jp # es) = (case print_boxes es of (out, x) \<Rightarrow> (box_line (the (heap t (snd jp))) # out, x))"
proof -
  obtain j p where jp: "jp = (j, p)" "j < unat (bt_size t)" "slots t ! j = Some p"
    using assms(3) by (auto simp: set_listed)
  then have "j < unat (capacity t)" using boxes_invD(3) [OF assms(1)] by simp
  then have nm: "is_cstring (file_name (the (heap t p)))" "file_name (the (heap t p)) \<noteq> []" "length (file_name (the (heap t p))) < 32"
    using assms(2) jp(3) by (simp_all add: box_names_ok_def name_of_def)
  note v = list_response_views [OF nm]
  have c: "cstr (drop 2 (list_response l (the (heap t p)))) = file_name (the (heap t p))" for l
    using v(5) [of l] by (simp add: string_at_def split: if_splits)
  show "length (list_entry n t jp) = 58" "list_entry n t jp ! 0 = 8"
    "list_entry n t jp ! 1 = (if fst jp = n - 1 then 1 else 0)"
    "compare_key (list_entry n t jp) = file_name (the (heap t (snd jp)))"
    using v(1-3) c by (simp_all add: jp(1) list_entry_def compare_key_def)
  show "print_boxes (list_entry n t jp # es) = (case print_boxes es of (out, x) \<Rightarrow> (box_line (the (heap t (snd jp))) # out, x))"
    using v(4-8) by (simp add: jp(1) list_entry_def box_line_def split: prod.splits)
qed

lemma print_listed:
  assumes "boxes_inv t" and "box_names_ok t"
  shows "set jps \<subseteq> set (listed 0 (unat (bt_size t)) t) \<Longrightarrow>
    print_boxes (map (list_entry n t) jps) = (map (\<lambda>jp. box_line (the (heap t (snd jp)))) jps, Inr (-1))"
proof (induction jps)
  case (Cons jp jps)
  then show ?case using list_entry_views(5) [OF assms, of jp] by simp
qed simp

lemma count_boxes_pos: "i < length bs \<Longrightarrow> bs ! i \<noteq> None \<Longrightarrow> 0 < count_boxes bs"
  by (force simp: count_boxes_def filter_empty_conv in_set_conv_nth)

lemma list_box_sends:
  assumes "boxes_inv (b_table b)" and "calm e" and "string_at 1 request = Inr tx" and "num_elem (b_table b) \<noteq> 0"
  shows "manager_list_box e request b = Inr (0, map (Pair tx) (map (list_entry (unat (bt_size (b_table b))) (b_table b))
    (listed 0 (unat (bt_size (b_table b))) (b_table b))), b)"
  using assms list_loop_calm [OF assms(2,1), of "unat (bt_size (b_table b))" 0 tx 0]
  by (simp add: manager_list_box_def calm_def mutex_ok_def)

text \<open>
  C15. The manager prints the table: when the last slot of the range in use holds a box, the
  entries \<open>manager_list_box\<close> sends, read by the client as they come, are printed one line a
  box with its name, size and counts, sorted by name, with none left out and none twice.
\<close>

theorem manager_prints_table:
  assumes inv: "boxes_inv (b_table b)" and names: "box_names_ok (b_table b)"
    and used: "bt_size (b_table b) \<noteq> 0" "slots (b_table b) ! (unat (bt_size (b_table b)) - 1) \<noteq> None"
    and calls: "calm e" "string_at 1 request = Inr tx" "ce_open ce (cstr pipe) \<noteq> -1" "\<forall>k. mem k"
  shows "\<exists>ms. manager_list_box e request b = Inr (0, map (Pair tx) ms, b)
    \<and> manager_receive ce mem pipe (entry_reads ms)
      = (map box_line (sort_key file_name (boxes_of (b_table b))), Inr (Some (-1)))"
proof -
  let ?t = "b_table b"
  obtain n where n: "unat (bt_size ?t) = Suc n" using used(1) by (metis not0_implies_Suc unat_eq_0)
  obtain p where p: "slots ?t ! n = Some p" using used(2) n by auto
  have "n < unat (capacity ?t)" using boxes_invD(3) [OF inv] n by simp
  then have "0 < count_boxes (slots ?t)" using count_boxes_pos [of n "slots ?t"] p boxes_invD(2) [OF inv] by simp
  then have "num_elem ?t \<noteq> 0" using boxes_invD(4) [OF inv] by auto
  note sends = list_box_sends [OF inv calls(1,2) this]
  define f where "f = list_entry (Suc n) ?t"
  let ?js = "listed 0 (Suc n) ?t"
  have js: "?js = listed 0 n ?t @ [(n, p)]" using p by (simp add: listed_last)
  note v = list_entry_views [OF inv names, unfolded n, where n = "Suc n", folded f_def]
  have len: "\<forall>m\<in>set (map f ?js). length m = 58" using v(1) by auto
  have nolast: "\<forall>m\<in>set (map f (listed 0 n ?t)). m ! 1 = 0"
    using v(3) by (auto simp: js set_listed)
  have end1: "f (n, p) ! 1 = 1" using v(3) [of "(n, p)"] by (simp add: js)
  have recv: "receive_loop mem 8 (tl (entry_reads (map f ?js))) 1 0 8 0 [] = Inr (Some (map f ?js))"
  proof (cases "listed 0 n ?t")
    case Nil
    have "length (f (n, p)) = 58" "f (n, p) ! 0 = 8" using v(1,2) [of "(n, p)"] by (simp_all add: js)
    from receive_first [OF this, of mem "[]"] show ?thesis using Nil end1 calls(4) by (simp add: js entry_reads_def)
  next
    case (Cons j l)
    have "length (f j) = 58" "f j ! 0 = 8" using v(1,2) [of j] by (simp_all add: js Cons)
    note first = receive_first [OF this, of mem "map Some (map f (l @ [(n, p)]))"]
    have "receive_loop mem 8 (map Some (map f (l @ [(n, p)]))) 2 1 8 1 [f j] = Inr (Some ([f j] @ map f (l @ [(n, p)])))"
      by (rule receive_all) (use calls(4) len nolast end1 Cons in \<open>auto simp: js butlast_append\<close>)
    then show ?thesis using first nolast calls(4) by (simp add: js Cons entry_reads_def)
  qed
  have "take 1 (hd (map f ?js)) = [8]"
  proof -
    obtain j l where jl: "?js = j # l" unfolding js by (metis append_is_Nil_conv list.exhaust list.simps(3))
    have "length (f j) = 58" "f j ! 0 = 8" using v(1,2) [of j] by (simp_all add: jl)
    then show ?thesis using jl by (cases "f j") auto
  qed
  then have hd: "entry_reads (map f ?js) = Some [8] # tl (entry_reads (map f ?js))" by (simp add: entry_reads_def)
  have "sort_key compare_key (map f ?js) = map f (sort_key (\<lambda>x. compare_key (f x)) ?js)" by (rule sort_key_map)
  moreover have "print_boxes (map f (sort_key (\<lambda>x. compare_key (f x)) ?js))
    = (map (\<lambda>jp. box_line (the (heap ?t (snd jp)))) (sort_key (\<lambda>x. compare_key (f x)) ?js), Inr (-1))"
    using print_listed [OF inv names, unfolded n] unfolding f_def by (metis order_refl set_sort)
  moreover have "map (\<lambda>jp. the (heap ?t (snd jp))) (sort_key (\<lambda>x. compare_key (f x)) ?js) = sort_key file_name (boxes_of ?t)"
  proof -
    have "sort_key (\<lambda>x. compare_key (f x)) ?js = sort_key (\<lambda>x. file_name (the (heap ?t (snd x)))) ?js"
      using v(4) by (intro sort_key_same) auto
    then show ?thesis using sort_key_map [of file_name "\<lambda>jp. the (heap ?t (snd jp))" ?js]
      by (simp add: boxes_of_def n case_prod_unfold)
  qed
  moreover have "map (\<lambda>jp. box_line (the (heap ?t (snd jp)))) l = map box_line (map (\<lambda>jp. the (heap ?t (snd jp))) l)" for l
    by simp
  ultimately have print: "print_boxes (sort_key compare_key (map f ?js))
      = (map box_line (sort_key file_name (boxes_of ?t)), Inr (-1))"
    by metis
  have "manager_receive ce mem pipe (entry_reads (map f ?js)) = (map box_line (sort_key file_name (boxes_of ?t)), Inr (Some (-1)))"
    using recv print calls(3,4) by (subst hd) (simp add: manager_receive_def Let_def)
  then show ?thesis using sends unfolding n f_def [symmetric] by blast
qed

text \<open>An environment in which nothing fails; a request of the pipe \<open>c\<close> for the box \<open>a\<close>.\<close>

definition calm_env :: env where
  "calm_env = \<lparr>e_open = (\<lambda>_. 5), e_write = (\<lambda>_. 1029), e_tfs = (\<lambda>_. mutex_ok), e_table = (\<lambda>_. mutex_ok),
     e_box = (\<lambda>_. mutex_ok), e_signal_fails = False, e_malloc = Some 20, e_realloc = Some (replicate 8 None)\<rparr>"

lemma calm_env_calm: "calm calm_env"
  by (simp add: calm_def calm_env_def)

definition demo_request :: "u8 \<Rightarrow> u8 list" where
  "demo_request code = receive_request (register_message code (copy_arg 256 [99]) (copy_arg 32 [97]))"

lemma demo_request_carries: "carries (demo_request code) code [99] [97]"
  unfolding demo_request_def using register_carries [of "[99]" "[97]" code] by (simp add: is_cstring_def)

lemma carriesD:
  "carries r code pipe box \<Longrightarrow> length r = 1029" "carries r code pipe box \<Longrightarrow> r ! 0 = code"
  "carries r code pipe box \<Longrightarrow> string_at 1 r = Inr pipe" "carries r code pipe box \<Longrightarrow> string_at 257 r = Inr box"
  by (simp_all add: carries_def)

definition demo_list :: broker where "demo_list = \<lparr>b_fs = no_fs, b_table = demo_table\<rparr>"

lemma demo_table_names: "box_names_ok demo_table"
  by (auto simp: box_names_ok_def demo_table_def name_of_def new_box_def is_cstring_def dest!: less_2_cases)

theorem manager_prints_table_witness:
  "\<exists>ms. manager_list_box calm_env (demo_request 7) demo_list = Inr (0, map (Pair [99]) ms, demo_list)
    \<and> manager_receive demo_env (\<lambda>_. True) [99, 0] (entry_reads ms)
      = (map box_line (sort_key file_name (boxes_of demo_table)), Inr (Some (-1)))"
proof -
  have t: "b_table demo_list = demo_table" by (simp add: demo_list_def)
  have "bt_size demo_table \<noteq> 0" "slots demo_table ! (unat (bt_size demo_table) - 1) \<noteq> None" by (simp_all add: demo_table_def)
  from manager_prints_table [of demo_list, unfolded t, OF demo_table_inv demo_table_names this calm_env_calm
      carriesD(3) [OF demo_request_carries]]
  show ?thesis by (simp add: demo_env_def)
qed

section \<open>The list without an end\<close>

lemma length_listed:
  "n \<le> length (slots t) \<Longrightarrow> length (listed 0 n t) = count_boxes (take n (slots t))"
proof (induction n)
  case 0
  then show ?case by (simp add: listed_simps)
next
  case (Suc n)
  then show ?case by (simp add: listed_last take_Suc_conv_app_nth split: option.splits)
qed

lemma length_listed_all:
  assumes "boxes_inv t"
  shows "length (listed 0 (unat (bt_size t)) t) = unat (num_elem t)"
proof -
  note b = boxes_invD(2-4) [OF assms]
  have "count_boxes (drop (unat (bt_size t)) (slots t)) = 0"
    using boxes_invD(5) [OF assms] b(1) by (intro count_boxes_none) simp
  then have "count_boxes (slots t) = count_boxes (take (unat (bt_size t)) (slots t))"
    by (metis add.right_neutral append_take_drop_id count_boxes_simps(3))
  then show ?thesis using length_listed [of "unat (bt_size t)" t] b by simp
qed

text \<open>
  C34. When the last slot of the range in use is NULL, which is where removing the second
  last box and then the last one leads, no entry of the list is flagged as the last one: the
  broker has sent everything and returned 0, and the client still waits, however often
  \<open>read\<close> then tells it that the stream is at its end.
\<close>

theorem list_without_end:
  assumes inv: "boxes_inv (b_table b)" and names: "box_names_ok (b_table b)"
    and gap: "num_elem (b_table b) \<noteq> 0" "slots (b_table b) ! (unat (bt_size (b_table b)) - 1) = None"
    and calls: "calm e" "string_at 1 request = Inr tx" "ce_open ce (cstr pipe) \<noteq> -1" "\<forall>k. mem k"
  shows "\<exists>ms. manager_list_box e request b = Inr (0, map (Pair tx) ms, b) \<and> length ms = unat (num_elem (b_table b))
    \<and> (\<forall>n. manager_receive ce mem pipe (entry_reads ms @ replicate n (Some [])) = ([], Inr None))"
proof -
  let ?t = "b_table b"
  define n where "n = unat (bt_size ?t)"
  define f where "f = list_entry n ?t"
  let ?js = "listed 0 n ?t"
  note sends = list_box_sends [OF inv calls(1,2) gap(1), folded n_def, folded f_def]
  note v = list_entry_views [OF inv names, folded n_def, where n = n, folded f_def]
  have len: "length ?js = unat (num_elem ?t)" using length_listed_all [OF inv] by (simp add: n_def)
  then obtain j l where jl: "?js = j # l" using gap(1) by (metis length_0_conv list.exhaust unat_eq_0)
  have flag: "length (f jp) = 58 \<and> f jp ! 1 = 0" if "jp \<in> set ?js" for jp
  proof -
    have "fst jp \<noteq> n - 1" using that gap(2) by (auto simp: set_listed n_def)
    then show ?thesis using v(1,3) [OF that] by simp
  qed
  have j: "length (f j) = 58" "f j ! 0 = 8" "f j ! 1 = 0" using v(1,2) [of j] flag [of j] by (simp_all add: jl)
  then have hd: "take 1 (f j) = [8]" by (cases "f j") auto
  have "receive_loop mem 8 (Some (drop 1 (f j)) # map Some (map f l) @ replicate k (Some [])) 1 0 8 0 [] = Inr None" for k
    using receive_first [OF j(1,2), of mem] receive_waits [of mem "map f l" 1 8 8 k 2 "[f j]"] flag calls(4) j(3)
    by (simp add: jl)
  then have "manager_receive ce mem pipe (entry_reads (map f ?js) @ replicate k (Some [])) = ([], Inr None)" for k
    using hd calls(3,4) by (simp add: manager_receive_def entry_reads_def jl Let_def)
  then show ?thesis using sends len by (intro exI [of _ "map f ?js"]) simp
qed

text \<open>The table after \<open>a\<close>, \<open>b\<close> and \<open>c\<close> were added, then \<open>b\<close> and \<open>c\<close> removed.\<close>

definition gap_table :: box_table where
  "gap_table = \<lparr>boxes = Some [Some 11, None, None], subs = Some (replicate 8 None), capacity = 3, bt_size = 2, num_elem = 1,
     heap = (\<lambda>p. if p = 11 then Some (new_box [97]) else None)\<rparr>"

definition gap_list :: broker where "gap_list = \<lparr>b_fs = no_fs, b_table = gap_table\<rparr>"

theorem list_without_end_witness:
  "\<exists>ms. manager_list_box calm_env (demo_request 7) gap_list = Inr (0, map (Pair [99]) ms, gap_list)
    \<and> length ms = unat (num_elem gap_table)
    \<and> (\<forall>n. manager_receive demo_env (\<lambda>_. True) [99, 0] (entry_reads ms @ replicate n (Some [])) = ([], Inr None))"
proof -
  have t: "b_table gap_list = gap_table" by (simp add: gap_list_def)
  have lt3: "i < 3 \<longleftrightarrow> i = 0 \<or> i = 1 \<or> i = 2" for i :: nat by auto
  have i: "boxes_inv gap_table" by (auto simp: boxes_inv_def gap_table_def lt3)
  have n: "box_names_ok gap_table" by (auto simp: box_names_ok_def gap_table_def name_of_def new_box_def is_cstring_def lt3)
  have "num_elem gap_table \<noteq> 0" "slots gap_table ! (unat (bt_size gap_table) - 1) = None" by (simp_all add: gap_table_def)
  from list_without_end [of gap_list, unfolded t, OF i n this calm_env_calm carriesD(3) [OF demo_request_carries]]
  show ?thesis by (simp add: demo_env_def)
qed

end
