(* ===== verification/Broker_Inv.thy ===== *)
theory Broker_Inv
  imports Broker_Main Tfs_Files Lists
begin

text \<open>
  The invariant of the broker, which ties the table of boxes to the file system, and the
  calls on the file system as the handlers make them, seen through its abstraction.
\<close>

section \<open>The file system as the broker sees it\<close>

abbreviation b_afs :: "broker \<Rightarrow> afs" where "b_afs b \<equiv> fs_abs (b_fs b)"
abbreviation b_caps :: "broker \<Rightarrow> caps" where "b_caps b \<equiv> fs_caps (b_fs b)"

lemma sim_open:
  assumes "fs_inv s" and "is_cstring path" and "mode AND TFS_O_TRUNC = 0"
  shows "\<exists>r t. tfs_open mutex_ok (Some path) mode s = Inr (r, t) \<and> fs_inv t \<and> fs_caps t = fs_caps s
    \<and> a_open (fs_caps s) (Some path) mode (fs_abs s) = (r, fs_abs t)"
  using tfs.simulates [OF assms(1), of "TOpen (Some path) mode"] assms(2,3)
  by (auto simp: tfs_abs_def bindE_Inr_iff split: prod.splits)

lemma sim_close:
  assumes "fs_inv s"
  shows "\<exists>r t. tfs_close mutex_ok fd s = Inr (r, t) \<and> fs_inv t \<and> fs_caps t = fs_caps s
    \<and> a_close fd (fs_abs s) = (r, fs_abs t)"
  using tfs.simulates [OF assms, of "TClose fd"] by (auto simp: tfs_abs_def bindE_Inr_iff split: prod.splits)

lemma sim_write:
  assumes "fs_inv s" and "length bytes = 1024"
  shows "\<exists>r t. tfs_write mutex_ok fd bytes 1024 s = Inr (r, t) \<and> fs_inv t \<and> fs_caps t = fs_caps s
    \<and> a_write (fs_caps s) fd bytes (fs_abs s) = (r, fs_abs t)"
  using tfs.simulates [OF assms(1), of "TWrite fd bytes"] assms(2)
  by (auto simp: tfs_abs_def bindE_Inr_iff split: prod.splits)

lemma sim_read:
  assumes "fs_inv s" and "length buffer = 1024"
  shows "\<exists>r bs t. tfs_read mutex_ok fd 1024 (buffer, s) = Inr (r, patch 0 bs buffer, t) \<and> fs_inv t \<and> fs_caps t = fs_caps s
    \<and> a_read fd 1024 (fs_abs s) = (r, bs, fs_abs t)"
  using tfs.simulates [OF assms(1), of "TRead fd 1024 buffer"] assms(2)
  by (auto simp: tfs_abs_def bindE_Inr_iff split: prod.splits)

lemma sim_unlink:
  assumes "fs_inv s" and "is_cstring path" and "\<And>i. a_names (fs_abs s) (tl path) = Some i \<Longrightarrow> none_open (fs_abs s) i"
  shows "\<exists>r t. tfs_unlink mutex_ok (Some path) s = Inr (r, t) \<and> fs_inv t \<and> fs_caps t = fs_caps s
    \<and> a_unlink (Some path) (fs_abs s) = (r, fs_abs t)"
proof -
  have "tfs_duty (TUnlink (Some path)) (tfs_abs s)" using assms(2,3) by (simp add: tfs_abs_def del: fs_abs_simps)
  from tfs.simulates [OF assms(1) this] show ?thesis
    by (auto simp: tfs_abs_def bindE_Inr_iff simp del: fs_abs_simps split: prod.splits)
qed

lemma slash_path [simp]: "valid_pathname (Some (47 # name)) \<longleftrightarrow> name \<noteq> []"
  by (simp add: valid_pathname_def)

text \<open>Two names never share a file, and an open handle is on a file that exists.\<close>

lemma a_names_inj:
  assumes "fs_inv s" and "a_names (fs_abs s) n = Some i" and "a_names (fs_abs s) m = Some i"
  shows "n = m"
proof -
  note d = fs_invD(5) [OF assms(1)]
  have f: "dir_find (root_dir s) n \<noteq> -1" "dir_find (root_dir s) m \<noteq> -1" "nat (dir_find (root_dir s) n) = i"
    "nat (dir_find (root_dir s) m) = i"
    using assms(2,3) by (simp_all add: dir_names_def split: if_splits)
  obtain k l where k: "k < max_dir_entries s" "snd (root_dir s ! k) = dir_find (root_dir s) n" "fst (root_dir s ! k) = n"
    and l: "l < max_dir_entries s" "snd (root_dir s ! l) = dir_find (root_dir s) m" "fst (root_dir s ! l) = m"
    using dir_find_found [OF refl f(1)] dir_find_found [OF refl f(2)] by auto
  have "0 < snd (root_dir s ! k)" "0 < snd (root_dir s ! l)"
    using d k l f(1,2) unfolding dir_ok_def by metis+
  then have "snd (root_dir s ! k) = snd (root_dir s ! l)" using f(3,4) k(2) l(2) by simp
  then have "k = l" using d k l f(1,2) unfolding dir_ok_def by metis
  then show ?thesis using k(3) l(3) by simp
qed

text \<open>Opening by name: an existing file without truncation, or a new one.\<close>

lemma a_open_existing:
  assumes "name \<noteq> []" and "a_names a name = Some i" and "mode AND TFS_O_TRUNC = 0"
  shows "a_open c (Some (47 # name)) mode a =
    a_open_handle c i (if mode AND TFS_O_APPEND \<noteq> 0 then length (the (a_data a i)) else 0) a"
  using assms by (simp add: a_open_def)

lemma a_open_handle_cases:
  "a_open_handle c i off a = (-1, a) \<and> (\<forall>h<c_files c. a_handles a h \<noteq> None)
   \<or> (\<exists>h<c_files c. a_handles a h = None \<and> a_open_handle c i off a = (int h, a\<lparr>a_handles := (a_handles a)(h \<mapsto> (i, off))\<rparr>))"
proof (cases "find (\<lambda>h. a_handles a h = None) [0..<c_files c]")
  case None
  then have "\<forall>h<c_files c. a_handles a h \<noteq> None" by (auto simp: find_None_iff)
  then show ?thesis using None by (simp add: a_open_handle_def)
next
  case (Some h)
  then have "h < c_files c" "a_handles a h = None" by (auto simp: find_Some_iff)
  then show ?thesis using Some by (auto simp: a_open_handle_def)
qed

text \<open>
  What opening for a new box does to names and handles: at most this name is added, at most
  one handle is taken, and that is what the result says.
\<close>

lemma a_open_create:
  assumes "a_open c (Some (47 # name)) TFS_O_CREAT a = (r, a')"
  shows "\<And>m. m \<noteq> name \<Longrightarrow> a_names a' m = a_names a m"
    and "a_names a name = Some i \<Longrightarrow> a_names a' name = Some i"
    and "r = -1 \<and> a_handles a' = a_handles a
      \<or> (\<exists>h i. r = int h \<and> a_handles a h = None \<and> a_names a' name = Some i \<and> name \<noteq> []
          \<and> a_handles a' = (a_handles a)(h \<mapsto> (i, 0)))"
proof -
  have mode: "TFS_O_CREAT AND TFS_O_TRUNC = 0" "TFS_O_CREAT AND TFS_O_APPEND = 0" "TFS_O_CREAT AND TFS_O_CREAT \<noteq> 0"
    by (simp_all add: mode_defs)
  have "(\<forall>m. m \<noteq> name \<longrightarrow> a_names a' m = a_names a m) \<and> (a_names a name = Some i \<longrightarrow> a_names a' name = Some i)
    \<and> (r = -1 \<and> a_handles a' = a_handles a
      \<or> (\<exists>h i. r = int h \<and> a_handles a h = None \<and> a_names a' name = Some i \<and> name \<noteq> []
          \<and> a_handles a' = (a_handles a)(h \<mapsto> (i, 0))))"
  proof (cases "name = []")
    case True
    then show ?thesis using assms by (auto simp: a_open_def)
  next
    case name: False
    show ?thesis
    proof (cases "a_names a name")
      case (Some k)
      then have "a_open_handle c k 0 a = (r, a')" using assms a_open_existing [OF name Some mode(1)] mode(2) by simp
      then show ?thesis using a_open_handle_cases [of c k 0 a] Some name by auto
    next
      case None
      then have run: "a_create c name a = (r, a')" using assms mode name by (simp add: a_open_def)
      show ?thesis
      proof (cases "(\<exists>i. find (\<lambda>i. a_data a i = None) [1..<c_inodes c] = Some i) \<and> \<not> (length name > 39 \<or> c_bsize c div 44 \<le> card (dom (a_names a)))")
        case False
        then have "(r, a') = (-1, a)" using run by (auto simp: a_create_def split: option.splits if_splits)
        then show ?thesis by simp
      next
        case True
        then obtain j where "find (\<lambda>i. a_data a i = None) [1..<c_inodes c] = Some j" by blast
        then have "a_open_handle c j 0 (a\<lparr>a_names := (a_names a)(name \<mapsto> j), a_data := (a_data a)(j \<mapsto> [])\<rparr>) = (r, a')"
          using run True by (simp add: a_create_def)
        then show ?thesis
          using a_open_handle_cases [of c j 0 "a\<lparr>a_names := (a_names a)(name \<mapsto> j), a_data := (a_data a)(j \<mapsto> [])\<rparr>"] None name
          by auto
      qed
    qed
  qed
  then show "\<And>m. m \<noteq> name \<Longrightarrow> a_names a' m = a_names a m" "a_names a name = Some i \<Longrightarrow> a_names a' name = Some i"
    "r = -1 \<and> a_handles a' = a_handles a
      \<or> (\<exists>h i. r = int h \<and> a_handles a h = None \<and> a_names a' name = Some i \<and> name \<noteq> []
          \<and> a_handles a' = (a_handles a)(h \<mapsto> (i, 0)))"
    by blast+
qed

lemma a_close_open: "a_handles a h = Some e \<Longrightarrow> a_close (int h) a = (0, a\<lparr>a_handles := (a_handles a)(h := None)\<rparr>)"
  by (simp add: a_close_def a_entry_def)

lemma a_close_bad: "a_close (-1) a = (-1, a)"
  by (simp add: a_close_def a_entry_def)

section \<open>The invariant\<close>

text \<open>A box that somebody publishes to or is subscribed to.\<close>

definition active :: "box_t \<Rightarrow> bool" where
  "active x \<longleftrightarrow> pub_num x > 0 \<or> sub_num x > 0"

text \<open>
  Every box has a good name and a file of that name; every open file is the file of an
  active box, so that the file of a box that can be removed is not open.
\<close>

definition backed :: "afs \<Rightarrow> box_table \<Rightarrow> bool" where
  "backed a t \<longleftrightarrow> (\<forall>name p. box_lookup name t = Some p \<longrightarrow> a_names a name \<noteq> None)"

definition guarded :: "afs \<Rightarrow> box_table \<Rightarrow> bool" where
  "guarded a t \<longleftrightarrow> (\<forall>h i off. a_handles a h = Some (i, off) \<longrightarrow>
     (\<exists>name p x. box_lookup name t = Some p \<and> heap t p = Some x \<and> active x \<and> a_names a name = Some i))"

definition broker_inv :: "broker \<Rightarrow> bool" where
  "broker_inv b \<longleftrightarrow> fs_inv (b_fs b) \<and> boxes_inv (b_table b) \<and> box_names_ok (b_table b)
     \<and> backed (b_afs b) (b_table b) \<and> guarded (b_afs b) (b_table b)"

lemma broker_invD:
  assumes "broker_inv b"
  shows "fs_inv (b_fs b)" "boxes_inv (b_table b)" "box_names_ok (b_table b)" "backed (b_afs b) (b_table b)"
    "guarded (b_afs b) (b_table b)"
  using assms by (simp_all add: broker_inv_def)

lemma lookup_name:
  assumes "boxes_inv t" and "box_lookup name t = Some p"
  shows "\<exists>x. heap t p = Some x \<and> file_name x = name"
proof -
  obtain i where i: "i < unat (capacity t)" "slots t ! i = Some p" "name_of t p = name"
    using assms(2) unfolding box_lookup_Some [OF assms(1)] by blast
  then show ?thesis using boxes_invD(6) [OF assms(1) i(1,2)] by (auto simp: name_of_def)
qed

lemma lookup_inj:
  "boxes_inv t \<Longrightarrow> box_lookup n t = Some p \<Longrightarrow> box_lookup m t = Some p \<Longrightarrow> n = m"
  using lookup_name [of t n p] lookup_name [of t m p] by auto

lemma names_ok_lookup:
  assumes "boxes_inv t"
  shows "box_names_ok t \<longleftrightarrow> (\<forall>name p. box_lookup name t = Some p \<longrightarrow> is_cstring name \<and> name \<noteq> [] \<and> length name < 32)"
  unfolding box_names_ok_def box_lookup_Some [OF assms] by blast

text \<open>The file of an idle box is not open.\<close>

lemma idle_closed:
  assumes "broker_inv b" and "box_lookup name (b_table b) = Some p" and "heap (b_table b) p = Some x" and "\<not> active x"
    and "a_names (b_afs b) name = Some i"
  shows "none_open (b_afs b) i"
  unfolding none_open_def
proof (intro allI notI)
  fix h off assume "a_handles (b_afs b) h = Some (i, off)"
  then obtain m q y where m: "box_lookup m (b_table b) = Some q" "heap (b_table b) q = Some y" "active y"
    "a_names (b_afs b) m = Some i"
    using broker_invD(5) [OF assms(1)] unfolding guarded_def by blast
  then have "m = name" using a_names_inj [OF broker_invD(1) [OF assms(1)]] assms(5) by blast
  then show False using m assms(2-4) by simp
qed

end
