(* ===== verification/Broker_Props.thy ===== *)
theory Broker_Props
  imports Broker_Inv
begin

text \<open>
  What the broker promises a manager: the outcome of creating and of removing a box, on the
  table, on the file system and in the response, and the cases in which it does otherwise.
\<close>

section \<open>Keeping the invariant\<close>

text \<open>A change of the files that keeps the names of the boxes and opens nothing.\<close>

lemma broker_inv_fs:
  assumes inv: "broker_inv b" and s: "fs_inv s"
    and names: "\<And>m. a_names (b_afs b) m \<noteq> None \<Longrightarrow> a_names (fs_abs s) m = a_names (b_afs b) m"
    and handles: "a_handles (fs_abs s) = a_handles (b_afs b)"
  shows "broker_inv (b\<lparr>b_fs := s\<rparr>)"
proof -
  have "backed (fs_abs s) (b_table b)"
    using broker_invD(4) [OF inv] names unfolding backed_def by metis
  moreover have "guarded (fs_abs s) (b_table b)"
    unfolding guarded_def handles
  proof (intro allI impI)
    fix h i off assume "a_handles (b_afs b) h = Some (i, off)"
    then obtain n p x where n: "box_lookup n (b_table b) = Some p" "heap (b_table b) p = Some x" "active x"
      "a_names (b_afs b) n = Some i"
      using broker_invD(5) [OF inv] unfolding guarded_def by blast
    then have "a_names (fs_abs s) n = Some i" using names [of n] by simp
    then show "\<exists>name p x. box_lookup name (b_table b) = Some p \<and> heap (b_table b) p = Some x \<and> active x
      \<and> a_names (fs_abs s) name = Some i"
      using n by blast
  qed
  ultimately show ?thesis using broker_invD(2,3) [OF inv] s by (simp add: broker_inv_def)
qed

text \<open>A new box for a file that exists.\<close>

lemma broker_inv_add:
  assumes inv: "broker_inv b" and t: "boxes_inv t" "heap t = (heap (b_table b))(p \<mapsto> new_box name)"
    and look: "\<And>m. box_lookup m t = (if m = name then Some p else box_lookup m (b_table b))"
    and new: "heap (b_table b) p = None" "box_lookup name (b_table b) = None"
    and name: "is_cstring name" "name \<noteq> []" "length name < 32" "a_names (b_afs b) name \<noteq> None"
  shows "broker_inv (b\<lparr>b_table := t\<rparr>)"
proof -
  note i = broker_invD [OF inv]
  have "box_names_ok t"
    using i(3) name(1-3) unfolding names_ok_lookup [OF t(1)] names_ok_lookup [OF i(2)] look by simp
  moreover have "backed (b_afs b) t" using i(4) name(4) unfolding backed_def look by simp
  moreover have "guarded (b_afs b) t"
    unfolding guarded_def
  proof (intro allI impI)
    fix h k off assume "a_handles (b_afs b) h = Some (k, off)"
    then obtain m q x where m: "box_lookup m (b_table b) = Some q" "heap (b_table b) q = Some x" "active x"
      "a_names (b_afs b) m = Some k"
      using i(5) unfolding guarded_def by blast
    moreover have "m \<noteq> name" "q \<noteq> p" using m new by auto
    ultimately show "\<exists>n q x. box_lookup n t = Some q \<and> heap t q = Some x \<and> active x \<and> a_names (b_afs b) n = Some k"
      unfolding look t(2) by (intro exI [of _ m] exI [of _ q] exI [of _ x]) simp
  qed
  ultimately show ?thesis using i(1) t(1) by (simp add: broker_inv_def)
qed

text \<open>An idle box removed with its file.\<close>

lemma broker_inv_remove:
  assumes inv: "broker_inv b" and old: "box_lookup name (b_table b) = Some p" "heap (b_table b) p = Some x" "\<not> active x"
    and t: "boxes_inv t" "heap t = (heap (b_table b))(p := None)"
      "\<And>m. box_lookup m t = (if m = name then None else box_lookup m (b_table b))"
    and s: "fs_inv s" "\<And>m. m \<noteq> name \<Longrightarrow> a_names (fs_abs s) m = a_names (b_afs b) m"
      "a_handles (fs_abs s) = a_handles (b_afs b)"
  shows "broker_inv \<lparr>b_fs = s, b_table = t\<rparr>"
proof -
  note i = broker_invD [OF inv]
  have "box_names_ok t"
    using i(3) unfolding names_ok_lookup [OF t(1)] names_ok_lookup [OF i(2)] t(3) by (simp split: if_splits)
  moreover have "backed (fs_abs s) t"
    unfolding backed_def t(3)
  proof (intro allI impI)
    fix n q assume "(if n = name then None else box_lookup n (b_table b)) = Some q"
    then have n: "n \<noteq> name" "box_lookup n (b_table b) = Some q" by (simp_all split: if_splits)
    then have "a_names (b_afs b) n \<noteq> None" using i(4) unfolding backed_def by blast
    then show "a_names (fs_abs s) n \<noteq> None" using s(2) [OF n(1)] by simp
  qed
  moreover have "guarded (fs_abs s) t"
    unfolding guarded_def s(3)
  proof (intro allI impI)
    fix h k off assume "a_handles (b_afs b) h = Some (k, off)"
    then obtain m q y where m: "box_lookup m (b_table b) = Some q" "heap (b_table b) q = Some y" "active y"
      "a_names (b_afs b) m = Some k"
      using i(5) unfolding guarded_def by blast
    have "m \<noteq> name" using m old by auto
    moreover have "q \<noteq> p" using lookup_inj [OF i(2) m(1)] old(1) \<open>m \<noteq> name\<close> by blast
    ultimately show "\<exists>n q x. box_lookup n t = Some q \<and> heap t q = Some x \<and> active x \<and> a_names (fs_abs s) n = Some k"
      using m s(2) [of m] unfolding t(2,3) by (intro exI [of _ m] exI [of _ q] exI [of _ y]) simp
  qed
  ultimately show ?thesis using s(1) t(1) by (simp add: broker_inv_def)
qed

section \<open>Creating a box\<close>

lemma string_at_cstring: "string_at k r = Inr s \<Longrightarrow> is_cstring s"
  by (auto simp: string_at_def split: if_splits)

lemma carries_cstring: "carries r code pipe box \<Longrightarrow> is_cstring pipe \<and> is_cstring box"
  using string_at_cstring unfolding carries_def by blast

lemma calmD:
  "calm e \<Longrightarrow> e_open e q \<noteq> -1" "calm e \<Longrightarrow> \<not> e_write e k < 0" "calm e \<Longrightarrow> e_tfs e k = mutex_ok"
  "calm e \<Longrightarrow> e_table e k = mutex_ok" "calm e \<Longrightarrow> e_box e k = mutex_ok" "calm e \<Longrightarrow> \<not> e_signal_fails e"
  by (simp_all add: calm_def not_less)


text \<open>The calls on mutexes succeed; nothing is said of the others.\<close>

definition mutexes_work :: "env \<Rightarrow> bool" where
  "mutexes_work e \<longleftrightarrow> (\<forall>k. e_tfs e k = mutex_ok) \<and> (\<forall>k. e_table e k = mutex_ok) \<and> (\<forall>k. e_box e k = mutex_ok)"

lemma calm_mutexes: "calm e \<Longrightarrow> mutexes_work e"
  by (simp add: calm_def mutexes_work_def)

text \<open>
  The ways \<open>manager_create_box\<close> can go once it has opened the client's pipe, with the states
  they lead to: a box of that name exists, no file can be opened for it, the table is full and
  \<open>realloc\<close> fails, which loses the table, or the box is made.
\<close>

definition answered :: "env \<Rightarrow> int \<Rightarrow> int" where
  "answered e code = (if e_write e 0 < 0 then -1 else code)"

lemma answered_simps [simp]: "answered e (-1) = -1" "calm e \<Longrightarrow> answered e code = code"
  by (simp_all add: answered_def calmD)

lemma box_add_lost:
  assumes "length name < 32" and "bt_size t = capacity t"
  shows "\<exists>t'. box_add mutex_ok (Some p) None name t = Inr (-1, t') \<and> boxes t' = None"
  using assms by (simp add: box_add_def expand_table_def mutex_ok_def Let_def split: option.split)

lemma create_runs:
  assumes inv: "broker_inv b" and e: "mutexes_work e" "e_open e tx \<noteq> -1" and req: "carries request code tx name"
    and len: "length name < 32" and p: "e_malloc e = Some p" "heap (b_table b) p = None"
  shows "box_lookup name (b_table b) = Some q \<Longrightarrow> manager_create_box e request b
      = Inr (-1, [(tx, manager_response 4 (-1) ''box_find error: there's a box with that name already.'')], b)"
    and "box_lookup name (b_table b) = None \<Longrightarrow> a_open (b_caps b) (Some (47 # name)) TFS_O_CREAT (b_afs b) = (-1, a) \<Longrightarrow>
      \<exists>s. manager_create_box e request b
        = Inr (-1, [(tx, manager_response 4 (-1) ''tfs_open error: could not open the box file.'')], b\<lparr>b_fs := s\<rparr>)
      \<and> broker_inv (b\<lparr>b_fs := s\<rparr>) \<and> fs_abs s = a \<and> fs_caps s = b_caps b \<and> a_handles a = a_handles (b_afs b)"
    and "box_lookup name (b_table b) = None \<Longrightarrow> a_open (b_caps b) (Some (47 # name)) TFS_O_CREAT (b_afs b) = (fd, a) \<Longrightarrow> fd \<noteq> -1 \<Longrightarrow>
      table_room (e_realloc e) (b_table b) \<Longrightarrow>
      \<exists>s t. manager_create_box e request b = Inr (answered e 0, [(tx, manager_response 4 0 '''')], \<lparr>b_fs = s, b_table = t\<rparr>)
      \<and> broker_inv \<lparr>b_fs = s, b_table = t\<rparr> \<and> fs_abs s = a\<lparr>a_handles := a_handles (b_afs b)\<rparr> \<and> fs_caps s = b_caps b
      \<and> box_add mutex_ok (Some p) (e_realloc e) name (b_table b) = Inr (0, t) \<and> heap t = (heap (b_table b))(p \<mapsto> new_box name)
      \<and> (\<forall>m. box_lookup m t = (if m = name then Some p else box_lookup m (b_table b)))"
    and "box_lookup name (b_table b) = None \<Longrightarrow> a_open (b_caps b) (Some (47 # name)) TFS_O_CREAT (b_afs b) = (fd, a) \<Longrightarrow> fd \<noteq> -1 \<Longrightarrow>
      e_realloc e = None \<Longrightarrow> bt_size (b_table b) = capacity (b_table b) \<Longrightarrow>
      \<exists>s t. manager_create_box e request b
        = Inr (-1, [(tx, manager_response 4 (-1) ''box_add error: could not add the box.'')], \<lparr>b_fs = s, b_table = t\<rparr>)
      \<and> fs_abs s = a\<lparr>a_handles := a_handles (b_afs b)\<rparr> \<and> boxes t = None"
proof -
  note i = broker_invD [OF inv]
  have c: "e_tfs e k = mutex_ok" "e_table e k = mutex_ok" for k using e(1) by (simp_all add: mutexes_work_def)
  note f = box_find_eq [OF i(2)]
  note r = carriesD(3,4) [OF req]
  note fsd = fs_abs_simps fs_caps_simps
  have path: "is_cstring (47 # name)" using carries_cstring [OF req] by (simp add: is_cstring_def)
  show "manager_create_box e request b
      = Inr (-1, [(tx, manager_response 4 (-1) ''box_find error: there's a box with that name already.'')], b)"
    if "box_lookup name (b_table b) = Some q"
    using that c e(2) f r by (simp add: manager_create_box_def)
  have opened: "\<exists>s. tfs_open mutex_ok (Some (47 # name)) TFS_O_CREAT (b_fs b) = Inr (fd, s) \<and> fs_inv s \<and> fs_caps s = b_caps b
      \<and> fs_abs s = a"
    if "a_open (b_caps b) (Some (47 # name)) TFS_O_CREAT (b_afs b) = (fd, a)" for fd a
    using sim_open [OF i(1) path, of TFS_O_CREAT] that by (auto simp: mode_defs simp del: fsd)
  have keep: "a_names a m = a_names (b_afs b) m"
    if "a_open (b_caps b) (Some (47 # name)) TFS_O_CREAT (b_afs b) = (fd, a)" "a_names (b_afs b) m \<noteq> None" for fd a m
    using that(2) a_open_create(1,2) [OF that(1)] by (cases "m = name") (auto simp del: fsd)
  {
    assume none: "box_lookup name (b_table b) = None"
      and o: "a_open (b_caps b) (Some (47 # name)) TFS_O_CREAT (b_afs b) = (-1, a)"
    obtain s where s: "tfs_open mutex_ok (Some (47 # name)) TFS_O_CREAT (b_fs b) = Inr (-1, s)" "fs_inv s" "fs_caps s = b_caps b"
      "fs_abs s = a"
      using opened [OF o] by blast
    have h: "a_handles a = a_handles (b_afs b)" using a_open_create(3) [OF o] by auto
    have "broker_inv (b\<lparr>b_fs := s\<rparr>)" by (rule broker_inv_fs [OF inv s(2)]) (use keep [OF o] h s(4) in \<open>simp_all del: fsd\<close>)
    moreover have "manager_create_box e request b
        = Inr (-1, [(tx, manager_response 4 (-1) ''tfs_open error: could not open the box file.'')], b\<lparr>b_fs := s\<rparr>)"
      using none c e(2) f r s(1) len by (simp add: manager_create_box_def box_path_def Let_def)
    ultimately show "\<exists>s. manager_create_box e request b
        = Inr (-1, [(tx, manager_response 4 (-1) ''tfs_open error: could not open the box file.'')], b\<lparr>b_fs := s\<rparr>)
      \<and> broker_inv (b\<lparr>b_fs := s\<rparr>) \<and> fs_abs s = a \<and> fs_caps s = b_caps b \<and> a_handles a = a_handles (b_afs b)"
      using s(3,4) h by blast
  }
  assume none: "box_lookup name (b_table b) = None"
    and o: "a_open (b_caps b) (Some (47 # name)) TFS_O_CREAT (b_afs b) = (fd, a)" "fd \<noteq> -1"
  obtain s where s: "tfs_open mutex_ok (Some (47 # name)) TFS_O_CREAT (b_fs b) = Inr (fd, s)" "fs_inv s" "fs_caps s = b_caps b"
    "fs_abs s = a"
    using opened [OF o(1)] by blast
  obtain h k where h: "fd = int h" "a_handles (b_afs b) h = None" "a_names a name = Some k" "name \<noteq> []"
    "a_handles a = (a_handles (b_afs b))(h \<mapsto> (k, 0))"
    using a_open_create(3) [OF o(1)] o(2) by auto
  obtain rc u where u: "tfs_close mutex_ok fd s = Inr (rc, u)" "fs_inv u" "fs_caps u = fs_caps s" "a_close fd a = (rc, fs_abs u)"
    using sim_close [OF s(2), of fd] unfolding s(4) by blast
  have "a_handles a h = Some (k, 0)" using h(5) by simp
  then have cl: "rc = 0" "fs_abs u = a\<lparr>a_handles := (a_handles a)(h := None)\<rparr>"
    using u(4) a_close_open [of a h "(k, 0)"] h(1) by simp_all
  have "(a_handles a)(h := None) = a_handles (b_afs b)" using h(2) by (simp only: h(5) fun_upd_upd) (simp only: fun_upd_idem)
  then have abs: "fs_abs u = a\<lparr>a_handles := a_handles (b_afs b)\<rparr>" unfolding cl(2) by simp
  {
    assume lost: "e_realloc e = None" "bt_size (b_table b) = capacity (b_table b)"
    obtain t where t: "box_add mutex_ok (Some p) None name (b_table b) = Inr (-1, t)" "boxes t = None"
      using box_add_lost [OF len lost(2)] by blast
    have "manager_create_box e request b
        = Inr (-1, [(tx, manager_response 4 (-1) ''box_add error: could not add the box.'')], b\<lparr>b_fs := u, b_table := t\<rparr>)"
      using o(2) none c e(2) f r s(1) u(1) cl(1) t(1) p(1) lost(1) len by (simp add: manager_create_box_def box_path_def Let_def)
    then show "\<exists>s t. manager_create_box e request b
        = Inr (-1, [(tx, manager_response 4 (-1) ''box_add error: could not add the box.'')], \<lparr>b_fs = s, b_table = t\<rparr>)
      \<and> fs_abs s = a\<lparr>a_handles := a_handles (b_afs b)\<rparr> \<and> boxes t = None"
      using abs t(2) by (cases b) (auto simp del: fsd)
  }
  assume room: "table_room (e_realloc e) (b_table b)"
  have inv1: "broker_inv (b\<lparr>b_fs := u\<rparr>)"
    by (rule broker_inv_fs [OF inv u(2)]) (use keep [OF o(1)] abs in \<open>simp_all del: fsd\<close>)
  obtain t where t: "box_add mutex_ok (Some p) (e_realloc e) name (b_table b) = Inr (0, t)" "boxes_inv t"
    "heap t = (heap (b_table b))(p \<mapsto> new_box name)"
    "\<And>m. box_lookup m t = (if m = name then Some p else box_lookup m (b_table b))"
    using box_add_new [OF i(2) len none p(2) room] by blast
  have inv2: "broker_inv (b\<lparr>b_fs := u, b_table := t\<rparr>)"
    using broker_inv_add [OF inv1 t(2), of p name] t(3,4) p(2) none h(3,4) len abs carries_cstring [OF req]
    by (simp del: fsd)
  have whole: "b\<lparr>b_fs := u, b_table := t\<rparr> = \<lparr>b_fs = u, b_table = t\<rparr>" by (cases b) simp
  have "manager_create_box e request b = Inr (answered e 0, [(tx, manager_response 4 0 '''')], b\<lparr>b_fs := u, b_table := t\<rparr>)"
    using o(2) none c e(2) f r s(1) u(1) cl(1) t(1) p(1) len
    by (simp add: manager_create_box_def answered_def box_path_def Let_def)
  then show "\<exists>s t. manager_create_box e request b = Inr (answered e 0, [(tx, manager_response 4 0 '''')], \<lparr>b_fs = s, b_table = t\<rparr>)
      \<and> broker_inv \<lparr>b_fs = s, b_table = t\<rparr> \<and> fs_abs s = a\<lparr>a_handles := a_handles (b_afs b)\<rparr> \<and> fs_caps s = b_caps b
      \<and> box_add mutex_ok (Some p) (e_realloc e) name (b_table b) = Inr (0, t) \<and> heap t = (heap (b_table b))(p \<mapsto> new_box name)
      \<and> (\<forall>m. box_lookup m t = (if m = name then Some p else box_lookup m (b_table b)))"
    using inv2 abs s(3) u(3) t(1,3,4) unfolding whole
    by (intro exI [of _ u] exI [of _ t]) (simp del: fsd)
qed

text \<open>
  C13. What \<open>manager_create_box\<close> does with a name shorter than 32 bytes, when the mutexes
  work and \<open>malloc\<close> finds memory. If the client's pipe cannot be opened, nothing: \<open>-1\<close>, no answer, the same state. Otherwise it
  writes one answer to that pipe, with a return code, and returns the code, or \<open>-1\<close> when the
  write fails. The code is 0 exactly when there was no box of that name, the file system can
  open a file for it and the table has room or can grow; then \<open>box_find\<close> finds the new box.
  With the code \<open>-1\<close> no name is found that was not, and every other name is found as before. The
  invariant of the broker is kept, but for one case: when the table is full and \<open>realloc\<close>
  fails, the pointer to the table is overwritten with NULL and the boxes are lost, while the
  file of the new box stays. No handle stays open.
\<close>

theorem manager_create_box_outcome:
  assumes inv: "broker_inv b" and e: "mutexes_work e" and req: "carries request code tx name" and len: "length name < 32"
    and p: "e_malloc e = Some p" "heap (b_table b) p = None"
    and grow: "\<forall>extra. e_realloc e = Some extra \<longrightarrow> table_room (e_realloc e) (b_table b)"
  shows "if e_open e tx = -1 then manager_create_box e request b = Inr (-1, [], b)
    else \<exists>rc msg b'. manager_create_box e request b = Inr (answered e rc, [(tx, manager_response 4 rc msg)], b')
      \<and> (rc = 0 \<or> rc = -1)
      \<and> (rc = 0 \<longleftrightarrow> box_find mutex_ok name (b_table b) = Inr None
          \<and> fst (a_open (b_caps b) (Some (47 # name)) TFS_O_CREAT (b_afs b)) \<noteq> -1 \<and> table_room (e_realloc e) (b_table b))
      \<and> a_handles (b_afs b') = a_handles (b_afs b)
      \<and> (if box_find mutex_ok name (b_table b) = Inr None
            \<and> fst (a_open (b_caps b) (Some (47 # name)) TFS_O_CREAT (b_afs b)) \<noteq> -1 \<and> \<not> table_room (e_realloc e) (b_table b)
         then boxes (b_table b') = None \<and> a_names (b_afs b') name \<noteq> None
         else broker_inv b' \<and> (\<forall>m. box_find mutex_ok m (b_table b')
            = (if rc = 0 \<and> m = name then Inr (Some p) else box_find mutex_ok m (b_table b))))"
proof (cases "e_open e tx = -1")
  case True
  then show ?thesis using carriesD(3) [OF req] by (simp add: manager_create_box_def)
next
  case open': False
  note fsd = fs_abs_simps fs_caps_simps
  note f = box_find_eq [OF broker_invD(2) [OF inv]]
  note runs = create_runs [OF inv e open' req len p]
  obtain fd a where o: "a_open (b_caps b) (Some (47 # name)) TFS_O_CREAT (b_afs b) = (fd, a)"
    by (cases "a_open (b_caps b) (Some (47 # name)) TFS_O_CREAT (b_afs b)")
  show ?thesis
  proof (cases "box_lookup name (b_table b)")
    case (Some q)
    have "manager_create_box e request b = Inr (answered e (-1), [(tx, manager_response 4 (-1) ''box_find error: there's a box with that name already.'')], b)"
      using runs(1) [OF Some] by simp
    then show ?thesis using inv f Some open'
      by (simp only: if_False) (intro exI [of _ "-1"] exI [of _ "''box_find error: there's a box with that name already.''"] exI [of _ b], simp del: fsd)
  next
    case None
    consider "fd = -1" | "fd \<noteq> -1" "table_room (e_realloc e) (b_table b)" | "fd \<noteq> -1" "\<not> table_room (e_realloc e) (b_table b)"
      by blast
    then show ?thesis
    proof cases
      case 1
      obtain s where s: "manager_create_box e request b
          = Inr (answered e (-1), [(tx, manager_response 4 (-1) ''tfs_open error: could not open the box file.'')], b\<lparr>b_fs := s\<rparr>)"
        "broker_inv (b\<lparr>b_fs := s\<rparr>)" "fs_abs s = a" "a_handles a = a_handles (b_afs b)"
        using runs(2) [OF None o [unfolded 1]] by auto
      then show ?thesis using None f o 1 open'
        by (simp only: if_False) (intro exI [of _ "-1"] exI [of _ "''tfs_open error: could not open the box file.''"] exI [of _ "b\<lparr>b_fs := s\<rparr>"], simp del: fsd)
    next
      case 2
      obtain s t where st: "manager_create_box e request b = Inr (answered e 0, [(tx, manager_response 4 0 '''')], \<lparr>b_fs = s, b_table = t\<rparr>)"
        "broker_inv \<lparr>b_fs = s, b_table = t\<rparr>" "fs_abs s = a\<lparr>a_handles := a_handles (b_afs b)\<rparr>"
        "\<forall>m. box_lookup m t = (if m = name then Some p else box_lookup m (b_table b))"
        using runs(3) [OF None o 2] by blast
      then show ?thesis using None f o 2 box_find_eq [of t] broker_invD(2) [OF st(2)] open'
        by (simp del: fsd) (intro exI [of _ 0] exI [of _ "''''"] exI [of _ "\<lparr>b_fs = s, b_table = t\<rparr>"], simp del: fsd)
    next
      case 3
      then have lost: "e_realloc e = None" "bt_size (b_table b) = capacity (b_table b)" using grow by (auto simp: table_room_def)
      obtain s t where st: "manager_create_box e request b
          = Inr (-1, [(tx, manager_response 4 (-1) ''box_add error: could not add the box.'')], \<lparr>b_fs = s, b_table = t\<rparr>)"
        "fs_abs s = a\<lparr>a_handles := a_handles (b_afs b)\<rparr>" "boxes t = None"
        using runs(4) [OF None o 3(1) lost] by blast
      have "a_names a name \<noteq> None" using a_open_create(3) [OF o] 3(1) by auto
      moreover have "manager_create_box e request b
          = Inr (answered e (-1), [(tx, manager_response 4 (-1) ''box_add error: could not add the box.'')], \<lparr>b_fs = s, b_table = t\<rparr>)"
        using st(1) by simp
      ultimately show ?thesis using None f o 3 st(2,3) open'
        by (simp only: if_False) (intro exI [of _ "-1"] exI [of _ "''box_add error: could not add the box.''"] exI [of _ "\<lparr>b_fs = s, b_table = t\<rparr>"], simp del: fsd)
    qed
  qed
qed

text \<open>A broker with no box on the small file system of \<open>Tfs_Demo\<close>, and with the box \<open>a\<close>.\<close>

definition empty_table :: box_table where
  "empty_table = \<lparr>boxes = Some (replicate 8 None), subs = Some (replicate 8 None), capacity = 8, bt_size = 0, num_elem = 0,
     heap = (\<lambda>_. None)\<rparr>"

definition demo_b0 :: broker where "demo_b0 = \<lparr>b_fs = demo0, b_table = empty_table\<rparr>"

lemma empty_table_inv: "boxes_inv empty_table"
proof -
  have "count_boxes (replicate 8 None) = 0" by (rule count_boxes_none) simp
  then show ?thesis by (simp add: boxes_inv_def empty_table_def)
qed

lemma empty_table_lookup: "box_lookup name empty_table = None"
  using box_lookup_None [OF empty_table_inv] by (simp add: empty_table_def)

lemma no_handles_inv:
  assumes "fs_inv s" and "\<And>h. a_handles (fs_abs s) h = None" and "boxes_inv t" and "\<And>name. box_lookup name t = None"
  shows "broker_inv \<lparr>b_fs = s, b_table = t\<rparr>"
  using assms names_ok_lookup [OF assms(3)] by (simp add: broker_inv_def backed_def guarded_def del: fs_abs_simps)

lemma demo_b0_inv: "broker_inv demo_b0"
  unfolding demo_b0_def
proof (rule no_handles_inv [OF demo_inv0 _ empty_table_inv empty_table_lookup])
  have "n_files demo0 = 2" "ofree demo0 = [FREE, FREE]" by code_simp+
  then show "a_handles (fs_abs demo0) h = None" for h by (auto dest!: less_2_cases)
qed

theorem manager_create_box_outcome_witness:
  "\<exists>rc msg b'. manager_create_box calm_env (demo_request 3) demo_b0 = Inr (rc, [([99], manager_response 4 rc msg)], b')
    \<and> (rc = 0 \<or> rc = -1)
    \<and> (rc = 0 \<longleftrightarrow> fst (a_open (b_caps demo_b0) (Some (47 # [97])) TFS_O_CREAT (b_afs demo_b0)) \<noteq> -1)
    \<and> a_handles (b_afs b') = a_handles (b_afs demo_b0) \<and> broker_inv b' \<and> (\<forall>m. box_find mutex_ok m (b_table b')
        = (if rc = 0 \<and> m = [97] then Inr (Some 20) else box_find mutex_ok m (b_table demo_b0)))"
proof -
  have m: "e_malloc calm_env = Some 20" "heap (b_table demo_b0) 20 = None" and op: "e_open calm_env [99] \<noteq> -1"
    and room: "table_room (e_realloc calm_env) (b_table demo_b0)"
    by (simp_all add: calm_env_def demo_b0_def empty_table_def table_room_def)
  have look: "box_find mutex_ok [97] (b_table demo_b0) = Inr None"
    using box_find_eq [OF empty_table_inv] empty_table_lookup by (simp add: demo_b0_def)
  have len: "length [97 :: u8] < 32" by simp
  have grow: "\<forall>extra. e_realloc calm_env = Some extra \<longrightarrow> table_room (e_realloc calm_env) (b_table demo_b0)" using room by auto
  show ?thesis
    using manager_create_box_outcome [OF demo_b0_inv calm_mutexes [OF calm_env_calm] demo_request_carries [of 3] len m grow] room look op
      answered_simps(2) [OF calm_env_calm]
    by (simp del: fs_abs_simps fs_caps_simps)
qed

section \<open>Removing a box\<close>

text \<open>What \<open>manager_remove_box\<close> does to an idle box, with the state it leads to.\<close>

lemma remove_runs:
  assumes inv: "broker_inv b" and e: "calm e" and req: "carries request code tx name" and len: "length name < 32"
  shows "box_lookup name (b_table b) = None \<Longrightarrow> manager_remove_box e request b
      = Inr (-1, [(tx, manager_response 6 (-1) ''box_find error: box does not exist.'')], b)"
    and "box_lookup name (b_table b) = Some p \<Longrightarrow> heap (b_table b) p = Some x \<Longrightarrow> active x \<Longrightarrow>
      manager_remove_box e request b = Inr (0, [], b)"
    and "box_lookup name (b_table b) = Some p \<Longrightarrow> heap (b_table b) p = Some x \<Longrightarrow> \<not> active x \<Longrightarrow> a_names (b_afs b) name = Some k \<Longrightarrow>
      \<exists>s t. manager_remove_box e request b = Inr (0, [(tx, manager_response 6 0 '''')], \<lparr>b_fs = s, b_table = t\<rparr>)
      \<and> broker_inv \<lparr>b_fs = s, b_table = t\<rparr> \<and> fs_caps s = b_caps b
      \<and> fs_abs s = (b_afs b)\<lparr>a_names := (a_names (b_afs b))(name := None), a_data := (a_data (b_afs b))(k := None)\<rparr>
      \<and> box_remove mutex_ok name (b_table b) = Inr (0, t) \<and> heap t = (heap (b_table b))(p := None)
      \<and> (\<forall>m. box_lookup m t = (if m = name then None else box_lookup m (b_table b)))"
proof -
  note i = broker_invD [OF inv]
  note c = calmD [OF e] and f = box_find_eq [OF i(2)]
  note r = carriesD(3,4) [OF req]
  show "manager_remove_box e request b = Inr (-1, [(tx, manager_response 6 (-1) ''box_find error: box does not exist.'')], b)"
    if "box_lookup name (b_table b) = None"
    using that c f r len by (simp add: manager_remove_box_def box_path_def Let_def)
  show "manager_remove_box e request b = Inr (0, [], b)"
    if "box_lookup name (b_table b) = Some p" "heap (b_table b) p = Some x" "active x"
    using that c f r len by (simp add: manager_remove_box_def box_path_def Let_def active_def deref_def)
  assume look: "box_lookup name (b_table b) = Some p" and x: "heap (b_table b) p = Some x" and nx: "\<not> active x"
    and k: "a_names (b_afs b) name = Some k"
  have name: "name \<noteq> []" "is_cstring (47 # name)"
    using i(3) look unfolding names_ok_lookup [OF i(2)] by (auto simp: is_cstring_def)
  have closed: "none_open (b_afs b) j" if "a_names (b_afs b) (tl (47 # name)) = Some j" for j
    using idle_closed [OF inv look x nx, of j] that by (simp del: fs_abs_simps)
  obtain rc s where s: "tfs_unlink mutex_ok (Some (47 # name)) (b_fs b) = Inr (rc, s)" "fs_inv s" "fs_caps s = b_caps b"
    "a_unlink (Some (47 # name)) (b_afs b) = (rc, fs_abs s)"
    using sim_unlink [OF i(1) name(2) closed] by blast
  have un: "rc = 0" "fs_abs s = (b_afs b)\<lparr>a_names := (a_names (b_afs b))(name := None), a_data := (a_data (b_afs b))(k := None)\<rparr>"
    using s(4) k name(1) by (simp_all add: a_unlink_def del: fs_abs_simps)
  have views: "a_names (fs_abs s) = (a_names (b_afs b))(name := None)" "a_handles (fs_abs s) = a_handles (b_afs b)"
    by (simp_all add: un(2) del: fs_abs_simps)
  obtain t where t: "box_remove mutex_ok name (b_table b) = Inr (0, t)" "boxes_inv t" "heap t = (heap (b_table b))(p := None)"
    "\<And>m. box_lookup m t = (if m = name then None else box_lookup m (b_table b))"
    using box_remove_eq(2) [OF i(2) look] by blast
  have inv': "broker_inv \<lparr>b_fs = s, b_table = t\<rparr>"
    by (rule broker_inv_remove [OF inv look x nx t(2-4) s(2) _ views(2)]) (simp add: views(1) del: fs_abs_simps)
  have "deref p (b_table b) = Inr x" using x by (simp add: deref_def)
  then have "manager_remove_box e request b = Inr (0, [(tx, manager_response 6 0 '''')], \<lparr>b_fs = s, b_table = t\<rparr>)"
    using c f r len look nx s(1) un(1) t(1)
    by (cases b) (simp add: manager_remove_box_def box_path_def Let_def active_def del: not_gr_zero word_neq_0_conv)
  then show "\<exists>s t. manager_remove_box e request b = Inr (0, [(tx, manager_response 6 0 '''')], \<lparr>b_fs = s, b_table = t\<rparr>)
      \<and> broker_inv \<lparr>b_fs = s, b_table = t\<rparr> \<and> fs_caps s = b_caps b
      \<and> fs_abs s = (b_afs b)\<lparr>a_names := (a_names (b_afs b))(name := None), a_data := (a_data (b_afs b))(k := None)\<rparr>
      \<and> box_remove mutex_ok name (b_table b) = Inr (0, t) \<and> heap t = (heap (b_table b))(p := None)
      \<and> (\<forall>m. box_lookup m t = (if m = name then None else box_lookup m (b_table b)))"
    using inv' s(3) un(2) t by blast
qed

text \<open>
  C14. \<open>manager_remove_box\<close> of a box without publisher and subscribers succeeds: the file
  is unlinked, which is safe because the invariant says that it is not open, the box is
  freed, its name is found no more, every other box and file keeps its name, and the
  invariant is kept. Without a box of that name the answer is an error and nothing changes.
\<close>

theorem manager_remove_box_outcome:
  assumes inv: "broker_inv b" and e: "calm e" and req: "carries request code tx name" and len: "length name < 32"
    and idle: "\<forall>p x. box_find mutex_ok name (b_table b) = Inr (Some p) \<longrightarrow> heap (b_table b) p = Some x \<longrightarrow> \<not> active x"
  shows "if box_find mutex_ok name (b_table b) = Inr None
    then manager_remove_box e request b = Inr (-1, [(tx, manager_response 6 (-1) ''box_find error: box does not exist.'')], b)
    else \<exists>b'. manager_remove_box e request b = Inr (0, [(tx, manager_response 6 0 '''')], b') \<and> broker_inv b'
      \<and> (\<forall>m. box_find mutex_ok m (b_table b') = (if m = name then Inr None else box_find mutex_ok m (b_table b)))
      \<and> a_names (b_afs b') = (a_names (b_afs b))(name := None) \<and> a_handles (b_afs b') = a_handles (b_afs b)"
proof -
  note i = broker_invD [OF inv]
  note f = box_find_eq [OF i(2)] and runs = remove_runs [OF inv e req len]
  show ?thesis
  proof (cases "box_lookup name (b_table b)")
    case None
    then show ?thesis using f runs(1) by simp
  next
    case (Some p)
    obtain x where x: "heap (b_table b) p = Some x" using lookup_name [OF i(2) Some] by blast
    have nx: "\<not> active x" using idle f Some x by simp
    obtain k where k: "a_names (b_afs b) name = Some k" using i(4) Some unfolding backed_def by blast
    obtain s t where st: "manager_remove_box e request b = Inr (0, [(tx, manager_response 6 0 '''')], \<lparr>b_fs = s, b_table = t\<rparr>)"
      "broker_inv \<lparr>b_fs = s, b_table = t\<rparr>"
      "fs_abs s = (b_afs b)\<lparr>a_names := (a_names (b_afs b))(name := None), a_data := (a_data (b_afs b))(k := None)\<rparr>"
      "\<forall>m. box_lookup m t = (if m = name then None else box_lookup m (b_table b))"
      using runs(3) [OF Some x nx k] by blast
    then show ?thesis using f Some box_find_eq [of t] broker_invD(2) [OF st(2)] by (simp del: fs_abs_simps)
  qed
qed

text \<open>The file \<open>a\<close>, closed, and its box, of which the counts are an argument.\<close>

definition demo_closed :: fs where "demo_closed = state_after (tfs_step (TClose 0) demo1)"

definition box_a_table :: "64 word \<Rightarrow> box_table" where
  "box_a_table n = \<lparr>boxes = Some [Some 20, None], subs = Some (replicate 8 None), capacity = 2, bt_size = 1, num_elem = 1,
     heap = (\<lambda>p. if p = 20 then Some ((new_box [97])\<lparr>pub_num := n\<rparr>) else None)\<rparr>"

definition demo_b1 :: "64 word \<Rightarrow> broker" where "demo_b1 n = \<lparr>b_fs = demo_closed, b_table = box_a_table n\<rparr>"

lemma demo_closed_inv: "fs_inv demo_closed"
proof -
  have "tfs_step (TClose 0) demo1 = Inr ((0, []), demo_closed)" by code_simp
  from tfs.step_inv [OF demo_inv1 _ this] show ?thesis by (simp add: tfs_abs_def)
qed

lemma box_a_table_inv: "boxes_inv (box_a_table n)"
  by (auto simp: boxes_inv_def box_a_table_def dest!: less_2_cases)

lemma box_a_lookup: "box_lookup m (box_a_table n) = (if m = [97] then Some 20 else None)"
  by (simp add: box_lookup_def box_a_table_def new_box_def eq_commute)

lemma demo_closed_afs:
  "a_names (fs_abs demo_closed) [97] = Some 1" "a_data (fs_abs demo_closed) 1 = Some []"
  "a_handles (fs_abs demo_closed) h = None"
proof -
  have "dir_find (root_dir demo_closed) [97] = 1" "n_files demo_closed = 2" "ofree demo_closed = [FREE, FREE]"
    "n_inodes demo_closed = 3" "ifree demo_closed ! 1 = TAKEN" "file_data demo_closed 1 = []"
    by code_simp+
  then show "a_names (fs_abs demo_closed) [97] = Some 1" "a_data (fs_abs demo_closed) 1 = Some []"
    "a_handles (fs_abs demo_closed) h = None"
    by (auto simp: dir_names_def live_def dest!: less_2_cases)
qed

lemma demo_b1_inv: "broker_inv (demo_b1 n)"
proof -
  have "box_names_ok (box_a_table n)"
    unfolding names_ok_lookup [OF box_a_table_inv] box_a_lookup by (simp add: is_cstring_def)
  then show ?thesis
    using demo_closed_inv box_a_table_inv demo_closed_afs
    by (simp add: broker_inv_def demo_b1_def backed_def guarded_def box_a_lookup del: fs_abs_simps)
qed

theorem manager_remove_box_outcome_witness:
  "\<exists>b'. manager_remove_box calm_env (demo_request 5) (demo_b1 0) = Inr (0, [([99], manager_response 6 0 '''')], b') \<and> broker_inv b'
    \<and> (\<forall>m. box_find mutex_ok m (b_table b') = (if m = [97] then Inr None else box_find mutex_ok m (box_a_table 0)))
    \<and> a_names (b_afs b') = (a_names (fs_abs demo_closed))([97] := None) \<and> a_handles (b_afs b') = a_handles (fs_abs demo_closed)"
proof -
  have v: "b_table (demo_b1 0) = box_a_table 0" "b_fs (demo_b1 0) = demo_closed" by (simp_all add: demo_b1_def)
  have f: "box_find mutex_ok [97] (box_a_table 0) = Inr (Some 20)"
    using box_find_eq [OF box_a_table_inv] box_a_lookup by simp
  have "\<forall>p x. box_find mutex_ok [97] (box_a_table 0) = Inr (Some p) \<longrightarrow> heap (box_a_table 0) p = Some x \<longrightarrow> \<not> active x"
    unfolding f by (simp add: box_a_table_def new_box_def active_def)
  from manager_remove_box_outcome [OF demo_b1_inv [of 0] calm_env_calm demo_request_carries [of 5], unfolded v, OF _ this]
  show ?thesis using f by simp
qed

text \<open>
  C35. Asked to remove a box that has a publisher or a subscriber, the broker changes nothing,
  returns 0 as for a success, and does not answer: a manager that then reads its pipe has
  nothing to read.
\<close>

theorem remove_active_box_unanswered:
  assumes inv: "broker_inv b" and e: "calm e" and req: "carries request code tx name" and len: "length name < 32"
    and box: "box_find mutex_ok name (b_table b) = Inr (Some p)" "heap (b_table b) p = Some x" "active x"
  shows "manager_remove_box e request b = Inr (0, [], b)"
proof -
  have "deref p (b_table b) = Inr x" using box(2) by (simp add: deref_def)
  then show ?thesis
    using calmD [OF e] carriesD(3,4) [OF req] len box(1,3) by (simp add: manager_remove_box_def box_path_def Let_def active_def)
qed

theorem remove_active_box_unanswered_witness:
  "manager_remove_box calm_env (demo_request 5) (demo_b1 1) = Inr (0, [], demo_b1 1)"
proof (rule remove_active_box_unanswered [OF demo_b1_inv calm_env_calm demo_request_carries])
  show "box_find mutex_ok [97] (b_table (demo_b1 1)) = Inr (Some 20)"
    using box_find_eq [OF box_a_table_inv] box_a_lookup by (simp add: demo_b1_def)
  show "heap (b_table (demo_b1 1)) 20 = Some ((new_box [97])\<lparr>pub_num := 1\<rparr>)" "active ((new_box [97])\<lparr>pub_num := 1\<rparr>)"
    by (simp_all add: demo_b1_def box_a_table_def active_def new_box_def)
qed simp

text \<open>
  C36. Creating and removing a box trust the length of the name: a request whose box is not
  terminated within 32 bytes, which no client of the repository sends but every program that
  can open the pipe can, makes \<open>strcpy\<close> write past the 33 bytes of \<open>name\<close>. The sessions copy the
  name only after they have looked it up, and there is no box of such a name: they return
  \<open>-1\<close> and leave the state as it was.
\<close>

theorem long_name_overflows:
  assumes inv: "broker_inv b" and e: "calm e" and req: "carries request code tx name" and len: "32 \<le> length name"
  shows "manager_create_box e request b = Inl Undefined \<and> manager_remove_box e request b = Inl Undefined
    \<and> publisher_register e request reads b = Inr (Over (-1), b) \<and> subscriber_register e request ws b = Inr (Over (-1), [], b)"
proof -
  note i = broker_invD [OF inv]
  have none: "box_lookup name (b_table b) = None"
    using i(3) len unfolding names_ok_lookup [OF i(2)] by (metis linorder_not_le not_None_eq)
  then show ?thesis
    using calmD [OF e] carriesD(3,4) [OF req] len box_find_eq [OF i(2)] box_count_eqs(1,4) [OF i(2) none]
    by (simp add: manager_create_box_def manager_remove_box_def box_path_def publisher_register_def publisher_start_def
        subscriber_register_def subscriber_start_def Let_def)
qed

theorem long_name_overflows_witness:
  "manager_create_box calm_env (receive_request (3 # copy_arg 256 [99] @ replicate 32 97)) demo_b0 = Inl Undefined
    \<and> manager_remove_box calm_env (receive_request (3 # copy_arg 256 [99] @ replicate 32 97)) demo_b0 = Inl Undefined
    \<and> publisher_register calm_env (receive_request (3 # copy_arg 256 [99] @ replicate 32 97)) [] demo_b0 = Inr (Over (-1), demo_b0)
    \<and> subscriber_register calm_env (receive_request (3 # copy_arg 256 [99] @ replicate 32 97)) [] demo_b0 = Inr (Over (-1), [], demo_b0)"
proof (rule long_name_overflows [OF demo_b0_inv calm_env_calm])
  let ?p = "copy_arg 256 [99]" and ?z = "replicate 739 (0 :: u8)"
  have "replicate 740 (0 :: u8) = 0 # ?z" by (simp flip: replicate_Suc)
  then have r: "receive_request (3 # ?p @ replicate 32 97) = 3 # ?p @ replicate 32 97 @ 0 # ?z"
    by (simp add: receive_request_short)
  have d: "drop 257 (3 # ?p @ replicate 32 97 @ 0 # ?z) = replicate 32 97 @ 0 # ?z"
    by (simp add: drop_Cons')
  have c: "cstr (replicate 32 97 @ 0 # ?z) = replicate 32 97"
    by (rule cstr_append_zero) (simp add: is_cstring_def)
  show "carries (receive_request (3 # ?p @ replicate 32 97)) 3 [99] (replicate 32 97)"
    unfolding carries_def r string_at_def d c using cstr_copy_arg [of "[99]" 256] by (simp add: is_cstring_def)
qed simp

end
