(* ===== verification/Sessions.thy ===== *)
theory Sessions
  imports Broker_Props
begin

text \<open>
  Whole sessions of a publisher and of a subscriber: what the broker stores, what it sends,
  and the lines that come out at the other end.
\<close>

section \<open>Storing messages\<close>

text \<open>What a file becomes when \<open>new\<close> is appended to it: there is room for one block.\<close>

definition appended :: "caps \<Rightarrow> u8 list \<Rightarrow> u8 list \<Rightarrow> u8 list" where
  "appended c d new = take (c_bsize c) (d @ new)"

definition put_data :: "nat \<Rightarrow> u8 list \<Rightarrow> nat \<Rightarrow> afs \<Rightarrow> afs" where
  "put_data i d h a = a\<lparr>a_data := (a_data a)(i \<mapsto> d), a_handles := (a_handles a)(h \<mapsto> (i, length d))\<rparr>"

lemma put_data_simps [simp]:
  "a_data (put_data i d h a) = (a_data a)(i \<mapsto> d)" "a_handles (put_data i d h a) = (a_handles a)(h \<mapsto> (i, length d))"
  "a_names (put_data i d h a) = a_names a" "put_data i d h (put_data i d' h a) = put_data i d h a"
  by (simp_all add: put_data_def)

lemma put_data_same:
  "a_data a i = Some d \<Longrightarrow> a_handles a h = Some (i, length d) \<Longrightarrow> put_data i d h a = a"
  by (cases a) (simp add: put_data_def fun_upd_idem)

text \<open>An empty file needs a free block before its first byte.\<close>

definition writable :: "caps \<Rightarrow> u8 list \<Rightarrow> afs \<Rightarrow> bool" where
  "writable c d a \<longleftrightarrow> d \<noteq> [] \<or> Suc (card (a_filled a)) < c_blocks c"

lemma appended_append: "appended c (appended c d xs) ys = appended c d (xs @ ys)"
proof -
  have "take n (take n zs @ ys) = take n (zs @ ys)" for n and zs :: "u8 list"
    by (cases "n \<le> length zs") simp_all
  from this [of "c_bsize c" "d @ xs"] show ?thesis unfolding appended_def by simp
qed

lemma a_write_append:
  assumes h: "a_handles a h = Some (i, length d)" and d: "a_data a i = Some d" "length d \<le> c_bsize c" and w: "writable c d a"
  shows "a_write c (int h) m a = (int (length (appended c d m) - length d), put_data i (appended c d m) h a)"
proof -
  obtain n where n: "n = min (length m) (c_bsize c - length d)" by blast
  have e: "a_entry a (int h) = Some (i, length d)" using h by (simp add: a_entry_def)
  have D: "appended c d m = d @ take n m" using d(2) by (simp add: appended_def n min_def)
  have l: "length (appended c d m) = length d + n" by (simp add: D n)
  have patch: "patch (length d) (take n m) d = appended c d m" by (simp add: patch_def D)
  have room: "(d = [] \<and> c_blocks c \<le> Suc (card (a_filled a))) = False" using w by (auto simp: writable_def)
  have run: "a_write c (int h) m a = (if n = 0 then (0, a) else (int n, put_data i (appended c d m) h a))"
    unfolding a_write_entry [OF e n d(1)] patch room by (simp add: put_data_def l)
  show ?thesis
  proof (cases "n = 0")
    case True
    then have "appended c d m = d" by (simp add: D)
    then show ?thesis using run True put_data_same [OF d(1) h] by simp
  qed (simp add: run l)
qed

lemma writable_put:
  assumes "writable c d a" and "d \<noteq> [] \<or> xs \<noteq> []" and "0 < c_bsize c"
  shows "writable c (appended c d xs) (put_data i (appended c d xs) h a)"
  using assms by (auto simp: writable_def appended_def)

text \<open>A message a publisher may send: the type and 1024 bytes.\<close>

definition pub_message :: "u8 list \<Rightarrow> bool" where
  "pub_message m \<longleftrightarrow> length m = 1025 \<and> m ! 0 = 9"

definition payloads :: "u8 list list \<Rightarrow> u8 list" where
  "payloads ms = concat (map (drop 1) ms)"

lemma payloads_simps [simp]: "payloads [] = []" "payloads (m # ms) = drop 1 m @ payloads ms"
  by (simp_all add: payloads_def)

definition counted :: "addr \<Rightarrow> nat \<Rightarrow> box_table \<Rightarrow> box_table" where
  "counted p n t = (case heap t p of None \<Rightarrow> t | Some x \<Rightarrow> set_box p (x\<lparr>box_size := box_size x + of_nat n\<rparr>) t)"

lemma publisher_store_eq:
  assumes inv: "fs_inv (b_fs b)" and e: "calm e" and m: "length m = 1024" and x: "heap (b_table b) p = Some x"
    and h: "a_handles (b_afs b) h = Some (i, length d)" and d: "a_data (b_afs b) i = Some d" "length d \<le> c_bsize (b_caps b)"
    and w: "writable (b_caps b) d (b_afs b)"
  shows "\<exists>s. publisher_store e c p (int h) m b
      = Inr (True, \<lparr>b_fs = s, b_table = counted p (length (appended (b_caps b) d m) - length d) (b_table b)\<rparr>)
    \<and> fs_inv s \<and> fs_caps s = b_caps b \<and> fs_abs s = put_data i (appended (b_caps b) d m) h (b_afs b)"
proof -
  obtain r s where s: "tfs_write mutex_ok (int h) m 1024 (b_fs b) = Inr (r, s)" "fs_inv s" "fs_caps s = b_caps b"
    "a_write (b_caps b) (int h) m (b_afs b) = (r, fs_abs s)"
    using sim_write [OF inv m] by blast
  have "r = int (length (appended (b_caps b) d m) - length d)" "fs_abs s = put_data i (appended (b_caps b) d m) h (b_afs b)"
    using s(4) a_write_append [OF h d w, of m] by (simp_all del: fs_abs_simps fs_caps_simps)
  moreover from this have "publisher_store e c p (int h) m b
      = Inr (True, \<lparr>b_fs = s, b_table = counted p (length (appended (b_caps b) d m) - length d) (b_table b)\<rparr>)"
    using s(1) x calmD [OF e]
    by (cases b) (simp add: publisher_store_def deref_def counted_def set_box_def Let_def del: fs_abs_simps fs_caps_simps of_nat_diff)
  ultimately show ?thesis using s by blast
qed

lemma file_fits: "fs_inv s \<Longrightarrow> a_data (fs_abs s) i = Some d \<Longrightarrow> length d \<le> c_bsize (fs_caps s)"
  using length_file_data inodes_okD(2) [OF fs_invD(3)] by (auto split: if_splits)

lemma block_not_empty: "fs_inv s \<Longrightarrow> 0 < c_bsize (fs_caps s)"
  using tables_ok_bounds(5) [OF fs_invD(1)] by (simp add: unat_gt_0)

lemma counted_simps:
  assumes "heap t p = Some x"
  shows "heap (counted p n t) = (heap t)(p \<mapsto> x\<lparr>box_size := box_size x + of_nat n\<rparr>)"
    and "counted p k (counted p n t) = counted p (n + k) t" and "counted p 0 t = t"
proof -
  have "x\<lparr>box_size := box_size x\<rparr> = x" by (cases x) simp
  then show "counted p 0 t = t" using set_box_same [OF assms] assms by (simp add: counted_def)
qed (use assms in \<open>simp_all add: counted_def add.assoc\<close>)

lemma counted_inv:
  assumes "boxes_inv t" and "heap t p = Some x"
  shows "boxes_inv (counted p n t)" and "box_lookup m (counted p n t) = box_lookup m t"
  using set_box_inv [OF assms, of "x\<lparr>box_size := box_size x + of_nat n\<rparr>"] assms(2) by (simp_all add: counted_def)

lemma appended_length: "length d \<le> c_bsize c \<Longrightarrow> length d \<le> length (appended c d xs)"
  by (simp add: appended_def)

text \<open>The loop over any number of messages.\<close>

lemma publisher_loop_stores:
  assumes e: "calm e"
  shows "\<forall>m\<in>set ms. pub_message m \<Longrightarrow> fs_inv (b_fs b) \<Longrightarrow> heap (b_table b) p = Some x \<Longrightarrow>
    a_handles (b_afs b) h = Some (i, length d) \<Longrightarrow> a_data (b_afs b) i = Some d \<Longrightarrow> writable (b_caps b) d (b_afs b) \<Longrightarrow>
    length buffer = 1025 \<Longrightarrow>
    \<exists>buffer' s. publisher_loop e c p (int h) buffer (map Some ms @ rs) b
      = publisher_loop e (c + length ms) p (int h) buffer' rs
          \<lparr>b_fs = s, b_table = counted p (length (appended (b_caps b) d (payloads ms)) - length d) (b_table b)\<rparr>
    \<and> length buffer' = 1025 \<and> fs_inv s \<and> fs_caps s = b_caps b
    \<and> fs_abs s = put_data i (appended (b_caps b) d (payloads ms)) h (b_afs b)"
proof (induction ms arbitrary: b c d x buffer)
  case Nil
  have "appended (b_caps b) d [] = d" using file_fits [OF Nil.prems(2,5)] by (simp add: appended_def)
  then show ?case using Nil counted_simps(3) [OF Nil.prems(3)] put_data_same [OF Nil.prems(5,4)]
    by (intro exI [of _ buffer] exI [of _ "b_fs b"]) (cases b, simp del: fs_abs_simps fs_caps_simps)
next
  case (Cons m ms)
  let ?c = "b_caps b" and ?d = "appended (b_caps b) d (drop 1 m)"
  have m: "length m = 1025" "m ! 0 = 9" "length (drop 1 m) = 1024" using Cons.prems(1) by (simp_all add: pub_message_def)
  note fit = file_fits [OF Cons.prems(2,5)]
  obtain s where s: "publisher_store e c p (int h) (drop 1 m) b
      = Inr (True, \<lparr>b_fs = s, b_table = counted p (length ?d - length d) (b_table b)\<rparr>)"
    "fs_inv s" "fs_caps s = ?c" "fs_abs s = put_data i ?d h (b_afs b)"
    using publisher_store_eq [OF Cons.prems(2) e m(3) Cons.prems(3-5) fit Cons.prems(6)] by blast
  let ?b = "\<lparr>b_fs = s, b_table = counted p (length ?d - length d) (b_table b)\<rparr>"
  let ?buf = "patch 1 (replicate 1024 0) m"
  have step: "publisher_loop e c p (int h) buffer (map Some (m # ms) @ rs) b = publisher_loop e (Suc c) p (int h) ?buf (map Some ms @ rs) ?b"
    using s(1) m Cons.prems(7) by (auto simp: Let_def patch_whole)
  have "drop 1 m \<noteq> []" using m(3) by auto
  then have w: "writable (b_caps ?b) ?d (b_afs ?b)"
    using writable_put [OF Cons.prems(6) _ block_not_empty [OF Cons.prems(2)], of "drop 1 m" i h] s(3,4)
    by (simp del: fs_abs_simps fs_caps_simps)
  have lb: "length ?buf = 1025" using m(1) by simp
  have "\<exists>buffer' u. publisher_loop e (Suc c) p (int h) ?buf (map Some ms @ rs) ?b
      = publisher_loop e (Suc c + length ms) p (int h) buffer' rs
          \<lparr>b_fs = u, b_table = counted p (length (appended (b_caps ?b) ?d (payloads ms)) - length ?d) (b_table ?b)\<rparr>
    \<and> length buffer' = 1025 \<and> fs_inv u \<and> fs_caps u = b_caps ?b
    \<and> fs_abs u = put_data i (appended (b_caps ?b) ?d (payloads ms)) h (b_afs ?b)"
    by (rule Cons.IH [OF _ _ _ _ _ w lb])
      (use Cons.prems(1) s counted_simps(1) [OF Cons.prems(3)] in \<open>simp_all del: fs_abs_simps fs_caps_simps\<close>)
  then obtain buffer' u where u: "publisher_loop e (Suc c) p (int h) ?buf (map Some ms @ rs) ?b
      = publisher_loop e (Suc c + length ms) p (int h) buffer' rs
          \<lparr>b_fs = u, b_table = counted p (length (appended ?c ?d (payloads ms)) - length ?d) (b_table ?b)\<rparr>"
    "length buffer' = 1025" "fs_inv u" "fs_caps u = ?c" "fs_abs u = put_data i (appended ?c ?d (payloads ms)) h (fs_abs s)"
    using s(3) by (auto simp del: fs_abs_simps fs_caps_simps)
  have app: "appended ?c ?d (payloads ms) = appended ?c d (payloads (m # ms))" by (simp add: appended_append)
  have "length d \<le> length ?d" by (rule appended_length [OF fit])
  moreover have "length ?d \<le> length (appended ?c ?d (payloads ms))" by (rule appended_length) (simp add: appended_def)
  ultimately have "counted p (length (appended ?c ?d (payloads ms)) - length ?d) (b_table ?b)
      = counted p (length (appended ?c d (payloads (m # ms))) - length d) (b_table b)"
    using counted_simps(2) [OF Cons.prems(3)] by (simp add: app [symmetric] del: payloads_simps)
  then show ?case
    using step u app s(4) by (intro exI [of _ buffer'] exI [of _ u]) (simp del: fs_abs_simps fs_caps_simps payloads_simps)
qed

section \<open>A publisher's session\<close>

lemma broker_inv_box:
  assumes inv: "broker_inv b" and x: "heap (b_table b) p = Some x" "file_name z = file_name x" "active x \<longrightarrow> active z"
  shows "broker_inv (b\<lparr>b_table := set_box p z (b_table b)\<rparr>)"
proof -
  note i = broker_invD [OF inv]
  note t = set_box_inv [OF i(2) x(1,2)]
  have "box_names_ok (set_box p z (b_table b))"
    using i(3) unfolding names_ok_lookup [OF t(1)] names_ok_lookup [OF i(2)] t(2) .
  moreover have "backed (b_afs b) (set_box p z (b_table b))" using i(4) unfolding backed_def t(2) .
  moreover have "guarded (b_afs b) (set_box p z (b_table b))"
    unfolding guarded_def t(2)
  proof (intro allI impI)
    fix h k off assume "a_handles (b_afs b) h = Some (k, off)"
    then obtain m q y where m: "box_lookup m (b_table b) = Some q" "heap (b_table b) q = Some y" "active y"
      "a_names (b_afs b) m = Some k"
      using i(5) unfolding guarded_def by blast
    then show "\<exists>n q y. box_lookup n (b_table b) = Some q \<and> heap (set_box p z (b_table b)) q = Some y \<and> active y
      \<and> a_names (b_afs b) n = Some k"
      using x(1,3) by (intro exI [of _ m] exI [of _ q] exI [of _ "if q = p then z else y"]) auto
  qed
  ultimately show ?thesis using i(1) t(1) by (simp add: broker_inv_def)
qed

lemma a_open_append:
  assumes "name \<noteq> []" and "a_names a name = Some i" and "\<exists>h<c_files c. a_handles a h = None"
  shows "\<exists>h. a_handles a h = None \<and> a_open c (Some (47 # name)) TFS_O_APPEND a
    = (int h, a\<lparr>a_handles := (a_handles a)(h \<mapsto> (i, length (the (a_data a i))))\<rparr>)"
    and "\<exists>h. a_handles a h = None \<and> a_open c (Some (47 # name)) 0 a = (int h, a\<lparr>a_handles := (a_handles a)(h \<mapsto> (i, 0))\<rparr>)"
proof -
  have mode: "TFS_O_APPEND AND TFS_O_TRUNC = 0" "TFS_O_APPEND AND TFS_O_APPEND \<noteq> 0" by (simp_all add: mode_defs)
  show "\<exists>h. a_handles a h = None \<and> a_open c (Some (47 # name)) TFS_O_APPEND a
    = (int h, a\<lparr>a_handles := (a_handles a)(h \<mapsto> (i, length (the (a_data a i))))\<rparr>)"
    using a_open_handle_cases [of c i "length (the (a_data a i))" a] assms(3) a_open_existing [OF assms(1,2) mode(1)] mode(2)
    by auto
  show "\<exists>h. a_handles a h = None \<and> a_open c (Some (47 # name)) 0 a = (int h, a\<lparr>a_handles := (a_handles a)(h \<mapsto> (i, 0))\<rparr>)"
    using a_open_handle_cases [of c i 0 a] assms(3) a_open_existing [OF assms(1,2), of 0] by auto
qed

lemma publisher_start_eq:
  assumes i: "fs_inv (b_fs b)" "boxes_inv (b_table b)" "box_names_ok (b_table b)" and e: "calm e"
    and req: "string_at 1 request = Inr rx" "string_at 257 request = Inr name"
    and box: "box_lookup name (b_table b) = Some p" "heap (b_table b) p = Some x" "pub_num x = 0"
    and dat: "a_names (b_afs b) name = Some i" "a_data (b_afs b) i = Some d"
    and free: "\<exists>h<c_files (b_caps b). a_handles (b_afs b) h = None"
  shows "\<exists>h s. publisher_start e request b
      = Inr (Some (p, int h), \<lparr>b_fs = s, b_table = set_box p (x\<lparr>pub_num := 1\<rparr>) (b_table b)\<rparr>)
    \<and> fs_inv s \<and> fs_caps s = b_caps b \<and> a_handles (b_afs b) h = None
    \<and> fs_abs s = (b_afs b)\<lparr>a_handles := (a_handles (b_afs b))(h \<mapsto> (i, length d))\<rparr>"
proof -
  have name: "name \<noteq> []" "is_cstring (47 # name)" "length name < 32"
    using i(3) box(1) unfolding names_ok_lookup [OF i(2)] by (auto simp: is_cstring_def)
  obtain h where h: "a_handles (b_afs b) h = None" "a_open (b_caps b) (Some (47 # name)) TFS_O_APPEND (b_afs b)
    = (int h, (b_afs b)\<lparr>a_handles := (a_handles (b_afs b))(h \<mapsto> (i, length d))\<rparr>)"
    using a_open_append(1) [OF name(1) dat(1) free] dat(2) by (auto simp del: fs_abs_simps fs_caps_simps)
  obtain r s where s: "tfs_open mutex_ok (Some (47 # name)) TFS_O_APPEND (b_fs b) = Inr (r, s)" "fs_inv s" "fs_caps s = b_caps b"
    "a_open (b_caps b) (Some (47 # name)) TFS_O_APPEND (b_afs b) = (r, fs_abs s)"
    using sim_open [OF i(1) name(2), of TFS_O_APPEND] by (auto simp: mode_defs simp del: fs_abs_simps fs_caps_simps)
  then have "r = int h" "fs_abs s = (b_afs b)\<lparr>a_handles := (a_handles (b_afs b))(h \<mapsto> (i, length d))\<rparr>"
    using h(2) by (simp_all del: fs_abs_simps fs_caps_simps)
  moreover from this have "publisher_start e request b
      = Inr (Some (p, int h), \<lparr>b_fs = s, b_table = set_box p (x\<lparr>pub_num := 1\<rparr>) (b_table b)\<rparr>)"
    using s(1) calmD [OF e] req box_count_eqs(2) [OF i(2) box(1,2)] box(3) name(3)
    by (cases b) (simp add: publisher_start_def box_path_def Let_def del: fs_abs_simps fs_caps_simps)
  ultimately show ?thesis using s h(1) by blast
qed

lemma publisher_runs:
  assumes inv: "broker_inv b" and e: "calm e" and req: "carries request code rx name"
    and box: "box_lookup name (b_table b) = Some p" "heap (b_table b) p = Some x" "pub_num x = 0"
    and dat: "a_names (b_afs b) name = Some i" "a_data (b_afs b) i = Some d" "writable (b_caps b) d (b_afs b)"
    and free: "\<exists>h<c_files (b_caps b). a_handles (b_afs b) h = None" and ms: "\<forall>m\<in>set ms. pub_message m"
  shows "\<exists>b'. publisher_register e request (map Some ms @ [Some []]) b = Inr (Over 0, b') \<and> broker_inv b' \<and> b_caps b' = b_caps b
    \<and> a_data (b_afs b') = (a_data (b_afs b))(i \<mapsto> appended (b_caps b) d (payloads ms))
    \<and> a_names (b_afs b') = a_names (b_afs b) \<and> a_handles (b_afs b') = a_handles (b_afs b)
    \<and> b_table b' = set_box p (x\<lparr>box_size := box_size x
        + of_nat (length (appended (b_caps b) d (payloads ms)) - length d)\<rparr>) (b_table b)"
proof -
  note i = broker_invD [OF inv]
  note fsd = fs_abs_simps fs_caps_simps
  let ?D = "appended (b_caps b) d (payloads ms)" and ?y = "x\<lparr>pub_num := 1\<rparr>"
  let ?n = "length ?D - length d"
  obtain h s where s: "publisher_start e request b = Inr (Some (p, int h), \<lparr>b_fs = s, b_table = set_box p ?y (b_table b)\<rparr>)"
    "fs_inv s" "fs_caps s = b_caps b" "a_handles (b_afs b) h = None"
    "fs_abs s = (b_afs b)\<lparr>a_handles := (a_handles (b_afs b))(h \<mapsto> (i, length d))\<rparr>"
    using publisher_start_eq [OF i(1-3) e carriesD(3,4) [OF req] box dat(1,2) free] by blast
  let ?b = "\<lparr>b_fs = s, b_table = set_box p ?y (b_table b)\<rparr>"
  have w: "writable (b_caps ?b) d (b_afs ?b)" using dat(3) by (simp add: writable_def a_filled_def s(3,5) del: fsd)
  have "\<exists>buffer' u. publisher_loop e 1 p (int h) (replicate 1025 0) (map Some ms @ [Some []]) ?b
      = publisher_loop e (1 + length ms) p (int h) buffer' [Some []]
          \<lparr>b_fs = u, b_table = counted p (length (appended (b_caps ?b) d (payloads ms)) - length d) (b_table ?b)\<rparr>
    \<and> length buffer' = 1025 \<and> fs_inv u \<and> fs_caps u = b_caps ?b
    \<and> fs_abs u = put_data i (appended (b_caps ?b) d (payloads ms)) h (b_afs ?b)"
    by (rule publisher_loop_stores [OF e ms, where x = ?y]) (use s w dat(2) in \<open>simp_all del: fsd\<close>)
  then obtain buffer' u where u: "publisher_loop e 1 p (int h) (replicate 1025 0) (map Some ms @ [Some []]) ?b
      = publisher_loop e (1 + length ms) p (int h) buffer' [Some []] \<lparr>b_fs = u, b_table = counted p ?n (set_box p ?y (b_table b))\<rparr>"
    "fs_inv u" "fs_caps u = b_caps b" "fs_abs u = put_data i ?D h (fs_abs s)"
    using s(3) by (auto simp del: fsd)
  let ?z = "x\<lparr>box_size := box_size x + of_nat ?n\<rparr>"
  have cnt: "counted p ?n (set_box p ?y (b_table b)) = set_box p (?z\<lparr>pub_num := 1\<rparr>) (b_table b)"
    by (cases x) (simp add: counted_def)
  have hp: "heap (set_box p (?z\<lparr>pub_num := 1\<rparr>) (b_table b)) p = Some (?z\<lparr>pub_num := 1\<rparr>)" by simp
  have "?z\<lparr>pub_num := 0\<rparr> = ?z" using box(3) by (cases x) simp
  then have un: "box_unregister_pub mutex_ok (Some p) (set_box p (?z\<lparr>pub_num := 1\<rparr>) (b_table b)) = Inr (0, set_box p ?z (b_table b))"
    using box_count_eqs(3) [OF hp] by simp
  obtain r v where v: "tfs_close mutex_ok (int h) u = Inr (r, v)" "fs_inv v" "fs_caps v = fs_caps u" "a_close (int h) (fs_abs u) = (r, fs_abs v)"
    using sim_close [OF u(2)] by blast
  have "a_handles (fs_abs u) h = Some (i, length ?D)" by (simp add: u(4) del: fsd)
  then have cl: "r = 0" "fs_abs v = (fs_abs u)\<lparr>a_handles := (a_handles (fs_abs u))(h := None)\<rparr>"
    using v(4) a_close_open [of "fs_abs u" h] by (simp_all del: fsd)
  have views: "a_data (fs_abs v) = (a_data (b_afs b))(i \<mapsto> ?D)" "a_names (fs_abs v) = a_names (b_afs b)"
    "a_handles (fs_abs v) = a_handles (b_afs b)"
    using s(4) by (simp_all add: cl(2) u(4) s(5) fun_upd_idem del: fsd)
  have "publisher_register e request (map Some ms @ [Some []]) b = Inr (Over 0, \<lparr>b_fs = v, b_table = set_box p ?z (b_table b)\<rparr>)"
    using s(1) u(1) un v(1) cl(1) calmD [OF e] unfolding cnt
    by (simp add: publisher_register_def publisher_end_def Let_def del: fsd)
  moreover have "broker_inv (b\<lparr>b_fs := v\<rparr>)"
    by (rule broker_inv_fs [OF inv v(2)]) (simp_all add: views del: fsd)
  from broker_inv_box [OF this, of p x ?z] have "broker_inv \<lparr>b_fs = v, b_table = set_box p ?z (b_table b)\<rparr>"
    using box(2) by (cases b) (simp add: active_def del: fsd not_gr_zero word_neq_0_conv)
  ultimately show ?thesis using views u(3) v(3) by (simp del: fsd)
qed

text \<open>
  C10. A publisher's whole session. Given a box without a publisher and a free handle, the
  handler appends the 1024 bytes of every message to the file of the box, in order, as long
  as the block has room (what does not fit is dropped without a word), adds what it stored to
  the size of the box, and at the end leaves every other file, the names, the handles and
  the counts of the box as they were, and the invariant intact.
\<close>

theorem publisher_session:
  assumes inv: "broker_inv b" and e: "calm e" and req: "carries request code rx name"
    and box: "box_find mutex_ok name (b_table b) = Inr (Some p)" "heap (b_table b) p = Some x" "pub_num x = 0"
    and dat: "a_names (b_afs b) name = Some i" "a_data (b_afs b) i = Some d" "writable (b_caps b) d (b_afs b)"
    and free: "\<exists>h<c_files (b_caps b). a_handles (b_afs b) h = None" and ms: "\<forall>m\<in>set ms. pub_message m"
  shows "\<exists>b'. publisher_register e request (map Some ms @ [Some []]) b = Inr (Over 0, b') \<and> broker_inv b' \<and> b_caps b' = b_caps b
    \<and> a_data (b_afs b') = (a_data (b_afs b))(i \<mapsto> appended (b_caps b) d (payloads ms))
    \<and> a_names (b_afs b') = a_names (b_afs b) \<and> a_handles (b_afs b') = a_handles (b_afs b)
    \<and> b_table b' = set_box p (x\<lparr>box_size := box_size x
        + of_nat (length (appended (b_caps b) d (payloads ms)) - length d)\<rparr>) (b_table b)"
  using publisher_runs [OF inv e req _ box(2,3) dat free ms] box(1) box_find_eq [OF broker_invD(2) [OF inv]] by simp

definition demo_messages :: "u8 list list" where
  "demo_messages = [9 # replicate 1024 104, 9 # replicate 1024 105]"

lemma demo_closed_room: "writable (fs_caps demo_closed) [] (fs_abs demo_closed)"
  "\<exists>h<c_files (fs_caps demo_closed). a_handles (fs_abs demo_closed) h = None"
proof -
  have t: "n_inodes demo_closed = 3" "n_blocks demo_closed = 3" "n_files demo_closed = 2" "ofree demo_closed = [FREE, FREE]"
    "ifree demo_closed = [TAKEN, TAKEN, FREE]"
    by code_simp+
  have "a_filled (fs_abs demo_closed) = {}"
  proof -
    have "a_data (fs_abs demo_closed) k = None \<or> a_data (fs_abs demo_closed) k = Some []" for k
      using t demo_closed_afs(2) by (cases "k = 1") (auto simp: live_def numeral_3_eq_3 less_Suc_eq)
    then show ?thesis by (auto simp: a_filled_def simp del: fs_abs_simps)
  qed
  then show "writable (fs_caps demo_closed) [] (fs_abs demo_closed)" using t(2) by (simp add: writable_def)
  show "\<exists>h<c_files (fs_caps demo_closed). a_handles (fs_abs demo_closed) h = None"
    using demo_closed_afs(3) [of 0] t(3) by (intro exI [of _ 0]) (simp del: fs_abs_simps)
qed

theorem publisher_session_witness:
  "\<exists>b'. publisher_register calm_env (demo_request 1) (map Some demo_messages @ [Some []]) (demo_b1 0) = Inr (Over 0, b')
    \<and> broker_inv b' \<and> b_caps b' = b_caps (demo_b1 0)
    \<and> a_data (b_afs b') = (a_data (b_afs (demo_b1 0)))(1 \<mapsto> appended (b_caps (demo_b1 0)) [] (payloads demo_messages))
    \<and> a_names (b_afs b') = a_names (b_afs (demo_b1 0)) \<and> a_handles (b_afs b') = a_handles (b_afs (demo_b1 0))
    \<and> b_table b' = set_box 20 ((new_box [97])\<lparr>box_size := box_size (new_box [97])
        + of_nat (length (appended (b_caps (demo_b1 0)) [] (payloads demo_messages)) - length ([] :: u8 list))\<rparr>) (b_table (demo_b1 0))"
proof (rule publisher_session [OF demo_b1_inv calm_env_calm demo_request_carries])
  show "box_find mutex_ok [97] (b_table (demo_b1 0)) = Inr (Some 20)"
    using box_find_eq [OF box_a_table_inv] box_a_lookup by (simp add: demo_b1_def)
  show "heap (b_table (demo_b1 0)) 20 = Some (new_box [97])" "pub_num (new_box [97]) = 0"
    by (simp_all add: demo_b1_def box_a_table_def new_box_def)
  show "a_names (b_afs (demo_b1 0)) [97] = Some 1" "a_data (b_afs (demo_b1 0)) 1 = Some []"
    "writable (b_caps (demo_b1 0)) [] (b_afs (demo_b1 0))" "\<exists>h<c_files (b_caps (demo_b1 0)). a_handles (b_afs (demo_b1 0)) h = None"
    using demo_closed_afs demo_closed_room by (simp_all add: demo_b1_def del: fs_abs_simps fs_caps_simps)
  show "\<forall>m\<in>set demo_messages. pub_message m" by (simp add: demo_messages_def pub_message_def)
qed

section \<open>A subscriber's session\<close>

lemma subscriber_name:
  assumes "string_at 257 request = Inr name" and "length name < 32"
  shows "string_at 0 (47 # region 257 32 request) = Inr (47 # name)"
proof -
  let ?x = "drop 257 request"
  have z: "0 \<in> set ?x" "takeWhile (\<lambda>b. b \<noteq> 0) ?x = name"
    using assms(1) by (simp_all add: string_at_def cstr_def split: if_splits)
  have "dropWhile (\<lambda>b. b \<noteq> 0) ?x \<noteq> []" using z(1) by (simp add: dropWhile_eq_Nil_conv)
  then obtain ys where "dropWhile (\<lambda>b. b \<noteq> 0) ?x = 0 # ys"
    using hd_dropWhile [of "\<lambda>b. b \<noteq> 0" ?x] by (cases "dropWhile (\<lambda>b. b \<noteq> 0) ?x") auto
  then have x: "?x = name @ 0 # ys" using takeWhile_dropWhile_id [of "\<lambda>b. b \<noteq> 0" ?x] z(2) by simp
  then have "0 \<in> set (take 32 ?x)" using assms(2) by (auto simp: take_Cons')
  moreover from this have "cstr (take 32 ?x) = name" using cstr_take [of 32 ?x] z(2) by (simp add: cstr_def)
  ultimately show ?thesis by (simp add: string_at_def region_def cstr_def)
qed

lemma subscriber_start_eq:
  assumes i: "fs_inv (b_fs b)" "boxes_inv (b_table b)" "box_names_ok (b_table b)" and e: "calm e"
    and req: "string_at 1 request = Inr tx" "string_at 257 request = Inr name"
    and box: "box_lookup name (b_table b) = Some p" "heap (b_table b) p = Some x" and dat: "a_names (b_afs b) name = Some i"
    and free: "\<exists>h<c_files (b_caps b). a_handles (b_afs b) h = None"
  shows "\<exists>h s. subscriber_start e request b
      = Inr (Some (tx, p, int h), \<lparr>b_fs = s, b_table = set_box p (x\<lparr>sub_num := sub_num x + 1\<rparr>) (b_table b)\<rparr>)
    \<and> fs_inv s \<and> fs_caps s = b_caps b \<and> a_handles (b_afs b) h = None
    \<and> fs_abs s = (b_afs b)\<lparr>a_handles := (a_handles (b_afs b))(h \<mapsto> (i, 0))\<rparr>"
proof -
  have name: "name \<noteq> []" "is_cstring (47 # name)" "length name < 32"
    using i(3) box(1) unfolding names_ok_lookup [OF i(2)] by (auto simp: is_cstring_def)
  obtain h where h: "a_handles (b_afs b) h = None" "a_open (b_caps b) (Some (47 # name)) 0 (b_afs b)
    = (int h, (b_afs b)\<lparr>a_handles := (a_handles (b_afs b))(h \<mapsto> (i, 0))\<rparr>)"
    using a_open_append(2) [OF name(1) dat free] by blast
  obtain r s where s: "tfs_open mutex_ok (Some (47 # name)) 0 (b_fs b) = Inr (r, s)" "fs_inv s" "fs_caps s = b_caps b"
    "a_open (b_caps b) (Some (47 # name)) 0 (b_afs b) = (r, fs_abs s)"
    using sim_open [OF i(1) name(2), of 0] by (auto simp del: fs_abs_simps fs_caps_simps)
  then have "r = int h" "fs_abs s = (b_afs b)\<lparr>a_handles := (a_handles (b_afs b))(h \<mapsto> (i, 0))\<rparr>"
    using h(2) by (simp_all del: fs_abs_simps fs_caps_simps)
  moreover from this have "subscriber_start e request b
      = Inr (Some (tx, p, int h), \<lparr>b_fs = s, b_table = set_box p (x\<lparr>sub_num := sub_num x + 1\<rparr>) (b_table b)\<rparr>)"
    using s(1) calmD [OF e] req box_count_eqs(5) [OF i(2) box] subscriber_name [OF req(2) name(3)]
    by (cases b) (simp add: subscriber_start_def Let_def del: fs_abs_simps fs_caps_simps)
  ultimately show ?thesis using s h(1) by blast
qed

definition move_to :: "nat \<Rightarrow> nat \<Rightarrow> nat \<Rightarrow> afs \<Rightarrow> afs" where
  "move_to i off h a = a\<lparr>a_handles := (a_handles a)(h \<mapsto> (i, off))\<rparr>"

lemma move_to_simps [simp]:
  "a_handles (move_to i off h a) = (a_handles a)(h \<mapsto> (i, off))" "a_data (move_to i off h a) = a_data a"
  "a_names (move_to i off h a) = a_names a" "move_to i off h (move_to i off' h a) = move_to i off h a"
  by (simp_all add: move_to_def)

lemma move_to_same: "a_handles a h = Some (i, off) \<Longrightarrow> move_to i off h a = a"
  by (simp add: move_to_def fun_upd_idem)

lemma a_read_here:
  "a_handles a h = Some (i, off) \<Longrightarrow> a_data a i = Some d \<Longrightarrow>
     a_read (int h) n a = (int (length (take n (drop off d))), take n (drop off d), move_to i (off + length (take n (drop off d))) h a)"
  by (simp add: a_read_def a_entry_def move_to_def Let_def)

text \<open>
  The loop delivers what is left of the file and then waits, with the buffer as it was before
  the first message.
\<close>

definition idle_response :: "u8 list" where
  "idle_response = 10 # replicate MESSAGE_LEN 0"

lemma idle_response_simps [simp]:
  "length idle_response = 1025" "take (Suc 0) idle_response = [10]" "length (drop (Suc 0) idle_response) = 1024"
  unfolding idle_response_def by simp_all

lemma idle_untouched: "10 # drop (Suc 0) idle_response = idle_response"
  by (simp only: idle_response_def drop_Suc_Cons drop_0)

lemma idle_again: "length m = 1024 \<Longrightarrow> patch 1 (replicate 1024 0) (10 # m) = idle_response"
  by (simp add: idle_response_def patch_def)

lemma idle_first: "(replicate 1025 0)[0 := 10] = idle_response"
proof -
  have n: "1025 = Suc 1024" by simp
  show ?thesis unfolding idle_response_def MESSAGE_LEN_def n replicate_Suc list_update_code by (rule refl)
qed

lemma subscriber_loop_delivers:
  assumes e: "calm e"
  shows "\<forall>m\<in>set pls. length m = 1024 \<Longrightarrow> \<forall>w\<in>set ws. 0 < fst w \<Longrightarrow> length pls \<le> length ws \<Longrightarrow> fs_inv (b_fs b) \<Longrightarrow>
    heap (b_table b) p \<noteq> None \<Longrightarrow> a_handles (b_afs b) h = Some (i, off) \<Longrightarrow> a_data (b_afs b) i = Some d \<Longrightarrow>
    drop off d = concat pls \<Longrightarrow> off \<le> length d \<Longrightarrow>
    \<exists>s. subscriber_loop e c tx p (int h) idle_response ws b
        = Inr (Subscribing tx p (int h) idle_response, map (\<lambda>m. (tx, 10 # m)) pls, b\<lparr>b_fs := s\<rparr>)
      \<and> fs_inv s \<and> fs_caps s = b_caps b \<and> fs_abs s = move_to i (length d) h (b_afs b)"
proof (induction pls arbitrary: b c off ws)
  case Nil
  note fsd = fs_abs_simps fs_caps_simps
  have end': "drop off d = []" "off = length d" using Nil.prems(8,9) by simp_all
  show ?case
  proof (cases ws)
    case Nil': Nil
    show ?thesis using Nil' Nil.prems(4,6) move_to_same [of "b_afs b" h i off] end'(2)
      by (intro exI [of _ "b_fs b"]) (simp del: fsd)
  next
    case (Cons w ws')
    have lb: "length (drop 1 idle_response) = 1024" by simp
    obtain r bs s where s: "tfs_read mutex_ok (int h) 1024 (drop 1 idle_response, b_fs b) = Inr (r, patch 0 bs (drop 1 idle_response), s)"
      "fs_inv s" "fs_caps s = b_caps b" "a_read (int h) 1024 (b_afs b) = (r, bs, fs_abs s)"
      using sim_read [OF Nil.prems(4) lb] by blast
    then have "r = 0" "fs_abs s = move_to i (length d) h (b_afs b)"
      using a_read_here [OF Nil.prems(6,7), of 1024] end' by (simp_all del: fsd)
    moreover from this have "bs = []" using s(4) a_read_here [OF Nil.prems(6,7), of 1024] end' by (simp del: fsd)
    ultimately show ?thesis using s Nil.prems(5) calmD [OF e] Cons idle_untouched
      by (intro exI [of _ s]) (cases w, auto simp: deref_def Let_def patch_def simp del: fsd split: option.splits)
  qed
next
  case (Cons m pls)
  note fsd = fs_abs_simps fs_caps_simps
  obtain w epipe ws' where ws: "ws = (w, epipe) # ws'" "0 < w" "length pls \<le> length ws'" "\<forall>w\<in>set ws'. 0 < fst w"
    using Cons.prems(2,3) by (cases ws) auto
  have m: "length m = 1024" using Cons.prems(1) by simp
  have here: "take 1024 (drop off d) = m" "drop (off + 1024) d = concat pls"
    using Cons.prems(8) m by simp (metis Cons.prems(8) add.commute append_eq_conv_conj concat.simps(2) drop_drop m)
  have "length (drop off d) = 1024 + length (concat pls)" unfolding Cons.prems(8) using m by simp
  then have off: "off + 1024 \<le> length d" by simp
  have lb: "length (drop 1 idle_response) = 1024" by simp
  obtain r bs s where s: "tfs_read mutex_ok (int h) 1024 (drop 1 idle_response, b_fs b) = Inr (r, patch 0 bs (drop 1 idle_response), s)"
    "fs_inv s" "fs_caps s = b_caps b" "a_read (int h) 1024 (b_afs b) = (r, bs, fs_abs s)"
    using sim_read [OF Cons.prems(4) lb] by blast
  have rd: "r = 1024" "bs = m" "fs_abs s = move_to i (off + 1024) h (b_afs b)"
    using s(4) a_read_here [OF Cons.prems(6,7), of 1024] m unfolding here(1) by (simp_all del: fsd)
  have resp: "take 1 idle_response @ patch 0 bs (drop 1 idle_response) = 10 # m"
    using patch_whole [of m "drop 1 idle_response"] m lb rd(2) by simp
  have "\<exists>u. subscriber_loop e (Suc c) tx p (int h) idle_response ws' (b\<lparr>b_fs := s\<rparr>)
      = Inr (Subscribing tx p (int h) idle_response, map (\<lambda>m. (tx, 10 # m)) pls, (b\<lparr>b_fs := s\<rparr>)\<lparr>b_fs := u\<rparr>)
    \<and> fs_inv u \<and> fs_caps u = b_caps (b\<lparr>b_fs := s\<rparr>) \<and> fs_abs u = move_to i (length d) h (b_afs (b\<lparr>b_fs := s\<rparr>))"
    by (rule Cons.IH [OF _ ws(4,3) _ _ _ _ here(2) off]) (use Cons.prems s rd in \<open>simp_all del: fsd\<close>)
  then obtain u where u: "subscriber_loop e (Suc c) tx p (int h) idle_response ws' (b\<lparr>b_fs := s\<rparr>)
      = Inr (Subscribing tx p (int h) idle_response, map (\<lambda>m. (tx, 10 # m)) pls, b\<lparr>b_fs := u\<rparr>)" "fs_inv u" "fs_caps u = b_caps b"
    "fs_abs u = move_to i (length d) h (b_afs b)"
    using s(3) rd(3) by (auto simp del: fsd)
  have "subscriber_loop e c tx p (int h) idle_response ws b = Inr (Subscribing tx p (int h) idle_response, map (\<lambda>m. (tx, 10 # m)) (m # pls), b\<lparr>b_fs := u\<rparr>)"
    using s(1) rd(1) resp u(1) idle_again [OF m] ws(1,2) Cons.prems(5) calmD [OF e] by (auto simp: deref_def Let_def split: option.splits)
  then show ?case using u by blast
qed

lemma broker_inv_handle:
  assumes inv: "broker_inv b" and box: "box_lookup name (b_table b) = Some p" "heap (b_table b) p = Some x" "active x"
    and dat: "a_names (b_afs b) name = Some i" and s: "fs_inv s" "a_names (fs_abs s) = a_names (b_afs b)"
      "a_handles (fs_abs s) = (a_handles (b_afs b))(h \<mapsto> (i, off))"
  shows "broker_inv (b\<lparr>b_fs := s\<rparr>)"
proof -
  note i = broker_invD [OF inv]
  have "backed (fs_abs s) (b_table b)" using i(4) unfolding backed_def s(2) .
  moreover have "guarded (fs_abs s) (b_table b)"
    unfolding guarded_def s(2,3)
  proof (intro allI impI)
    fix k j off' assume k: "((a_handles (b_afs b))(h \<mapsto> (i, off))) k = Some (j, off')"
    show "\<exists>n q y. box_lookup n (b_table b) = Some q \<and> heap (b_table b) q = Some y \<and> active y \<and> a_names (b_afs b) n = Some j"
    proof (cases "k = h")
      case True
      then show ?thesis using k box dat by (intro exI [of _ name] exI [of _ p] exI [of _ x]) simp
    next
      case False
      then have "a_handles (b_afs b) k = Some (j, off')" using k by simp
      then show ?thesis using i(5) unfolding guarded_def by blast
    qed
  qed
  ultimately show ?thesis using i(2,3) s(1) by (simp add: broker_inv_def)
qed

lemma subscriber_runs:
  assumes inv: "broker_inv b" and e: "calm e" and req: "carries request code tx name"
    and box: "box_lookup name (b_table b) = Some p" "heap (b_table b) p = Some x" "sub_num x + 1 \<noteq> 0"
    and dat: "a_names (b_afs b) name = Some i" "a_data (b_afs b) i = Some (concat pls)" "\<forall>m\<in>set pls. length m = 1024"
    and free: "\<exists>h<c_files (b_caps b). a_handles (b_afs b) h = None"
    and ws: "\<forall>w\<in>set ws. 0 < fst w" "length pls \<le> length ws"
  shows "\<exists>b' h. subscriber_register e request ws b
        = Inr (Subscribing tx p (int h) idle_response, map (\<lambda>m. (tx, 10 # m)) pls, b') \<and> broker_inv b'
    \<and> a_data (b_afs b') = a_data (b_afs b) \<and> a_names (b_afs b') = a_names (b_afs b)
    \<and> b_table b' = set_box p (x\<lparr>sub_num := sub_num x + 1\<rparr>) (b_table b) \<and> b_caps b' = b_caps b
    \<and> a_handles (b_afs b) h = None \<and> a_handles (b_afs b') = (a_handles (b_afs b))(h \<mapsto> (i, length (concat pls)))"
proof -
  note fsd = fs_abs_simps fs_caps_simps
  let ?y = "x\<lparr>sub_num := sub_num x + 1\<rparr>"
  obtain h s where s: "subscriber_start e request b = Inr (Some (tx, p, int h), \<lparr>b_fs = s, b_table = set_box p ?y (b_table b)\<rparr>)"
    "fs_inv s" "fs_caps s = b_caps b" "a_handles (b_afs b) h = None" "fs_abs s = move_to i 0 h (b_afs b)"
    using subscriber_start_eq [OF broker_invD(1-3) [OF inv] e carriesD(3,4) [OF req] box(1,2) dat(1) free]
    unfolding move_to_def by blast
  let ?b = "\<lparr>b_fs = s, b_table = set_box p ?y (b_table b)\<rparr>"
  have "\<exists>u. subscriber_loop e 1 tx p (int h) idle_response ws ?b = Inr (Subscribing tx p (int h) idle_response, map (\<lambda>m. (tx, 10 # m)) pls, ?b\<lparr>b_fs := u\<rparr>)
      \<and> fs_inv u \<and> fs_caps u = b_caps ?b \<and> fs_abs u = move_to i (length (concat pls)) h (b_afs ?b)"
    by (rule subscriber_loop_delivers [OF e dat(3) ws, where off = 0]) (use s dat(2) in \<open>simp_all del: fsd\<close>)
  then obtain u where u: "subscriber_loop e 1 tx p (int h) idle_response ws ?b
      = Inr (Subscribing tx p (int h) idle_response, map (\<lambda>m. (tx, 10 # m)) pls, \<lparr>b_fs = u, b_table = set_box p ?y (b_table b)\<rparr>)"
    "fs_inv u" "fs_abs u = move_to i (length (concat pls)) h (b_afs b)" "fs_caps u = b_caps b"
    using s(3,5) by (auto simp del: fsd)
  have act: "active ?y" using box(3) by (simp add: active_def word_gt_0)
  have fn: "file_name ?y = file_name x" by simp
  have inv1: "broker_inv (b\<lparr>b_table := set_box p ?y (b_table b)\<rparr>)"
    using broker_inv_box [OF inv box(2) fn] act by simp
  have "broker_inv (b\<lparr>b_table := set_box p ?y (b_table b), b_fs := u\<rparr>)"
    by (rule broker_inv_handle [OF inv1, where name = name and p = p and x = ?y and i = i and h = h and off = "length (concat pls)"])
      (use box dat act u set_box_inv(2) [OF broker_invD(2) [OF inv] box(2) fn] in \<open>simp_all del: fsd\<close>)
  then have inv': "broker_inv \<lparr>b_fs = u, b_table = set_box p ?y (b_table b)\<rparr>" by (cases b) simp
  have "subscriber_register e request ws b
      = Inr (Subscribing tx p (int h) idle_response, map (\<lambda>m. (tx, 10 # m)) pls, \<lparr>b_fs = u, b_table = set_box p ?y (b_table b)\<rparr>)"
    using s(1) u(1) by (simp add: subscriber_register_def idle_first)
  then show ?thesis using inv' u(3,4) s(4) by (simp del: fsd)
qed

text \<open>The broker's own file system, with the file \<open>a\<close> created and closed, and the box \<open>a\<close>.\<close>

definition live_mallocs :: mallocs where
  "live_mallocs = \<lparr>m_inode_table = Some (replicate 64 \<lparr>i_node_type = T_FILE, i_size = 9, i_data_block = 5\<rparr>),
     m_freeinode_ts = Some (replicate 64 TAKEN), m_fs_data = Some (replicate 104857600 7),
     m_free_blocks = Some (replicate 1024 TAKEN),
     m_open_file_table = Some (replicate 16 \<lparr>of_inumber = 77, of_offset = 88\<rparr>),
     m_free_open_file_entries = Some (replicate 16 TAKEN)\<rparr>"

definition live_fs0 :: fs where "live_fs0 = state_after (tfs_init (Some broker_params) live_mallocs no_fs)"
definition live_fs1 :: fs where "live_fs1 = state_after (tfs_step (TOpen path_a TFS_O_CREAT) live_fs0)"
definition live_fs2 :: fs where "live_fs2 = state_after (tfs_step (TClose 0) live_fs1)"

lemma live_fs0: "fs_inv live_fs0" "tfs_abs live_fs0 = (params_caps broker_params, empty_afs)"
proof -
  have p: "params_ok broker_params" "0 < unat (max_inode_count broker_params)" "0 < unat (max_block_count broker_params)"
    by (simp_all add: params_ok_def broker_params_def)
  have m: "mallocs_ok broker_params live_mallocs" by (simp add: mallocs_ok_def live_mallocs_def broker_params_def)
  obtain s where "tfs_init (Some broker_params) live_mallocs no_fs = Inr (0, s)" "fs_inv s"
    "tfs_abs s = (params_caps broker_params, empty_afs)"
    using tfs_init_abs [OF p(1) m no_fs_table p(2,3)] by blast
  then show "fs_inv live_fs0" "tfs_abs live_fs0 = (params_caps broker_params, empty_afs)"
    by (simp_all add: live_fs0_def state_after_def)
qed

lemma step_state:
  assumes "fs_inv s" and "tfs_duty r (tfs_abs s)"
  shows "fs_inv (state_after (tfs_step r s))" and "tfs_abs (state_after (tfs_step r s)) = snd (a_step r (tfs_abs s))"
  using tfs.simulates [OF assms] by (auto simp: state_after_def)

definition one_file :: "u8 list \<Rightarrow> (nat \<Rightarrow> (nat \<times> nat) option) \<Rightarrow> afs" where
  "one_file d hs = \<lparr>a_names = (\<lambda>_. None)([97] \<mapsto> 1), a_data = (\<lambda>_. None)(1 \<mapsto> d), a_handles = hs\<rparr>"

lemma live_open: "snd (a_step (TOpen path_a TFS_O_CREAT) (params_caps broker_params, empty_afs))
    = (params_caps broker_params, one_file [] ((\<lambda>_. None)(0 \<mapsto> (1, 0))))"
proof -
  have "[1..<64] = 1 # [2..<64]" "[0..<16] = 0 # [1..<16]" by (simp_all add: upt_conv_Cons)
  then show ?thesis
    by (simp add: path_a_def a_open_def a_create_def a_open_handle_def empty_afs_def params_caps_def broker_params_def
        mode_defs valid_pathname_def one_file_def)
qed

lemma live_fs2: "fs_inv live_fs2" "fs_caps live_fs2 = params_caps broker_params" "fs_abs live_fs2 = one_file [] (\<lambda>_. None)"
proof -
  have "tfs_duty (TOpen path_a TFS_O_CREAT) (tfs_abs live_fs0)"
    unfolding live_fs0(2) by (simp add: path_a_def is_cstring_def mode_defs)
  note 1 = step_state [OF live_fs0(1) this, folded live_fs1_def, unfolded live_fs0(2) live_open]
  have "tfs_duty (TClose 0) (tfs_abs live_fs1)" unfolding 1 by simp
  note 2 = step_state [OF 1(1) this, folded live_fs2_def, unfolded 1(2)]
  show "fs_inv live_fs2" by (rule 2(1))
  have "snd (a_step (TClose 0) (params_caps broker_params, one_file [] ((\<lambda>_. None)(0 \<mapsto> (1, 0)))))
      = (params_caps broker_params, one_file [] (\<lambda>_. None))"
    by (simp add: a_close_def a_entry_def one_file_def fun_upd_idem)
  then show "fs_caps live_fs2 = params_caps broker_params" "fs_abs live_fs2 = one_file [] (\<lambda>_. None)"
    using 2(2) by (simp_all add: tfs_abs_def)
qed

text \<open>The same with one message in the file.\<close>

definition live_msg :: "u8 list" where "live_msg = replicate 1024 104"
definition live_fs3 :: fs where
  "live_fs3 = state_after (tfs_step (TClose 0) (state_after (tfs_step (TWrite 0 live_msg) live_fs1)))"

lemma live_fs3: "fs_inv live_fs3" "fs_caps live_fs3 = params_caps broker_params" "fs_abs live_fs3 = one_file live_msg (\<lambda>_. None)"
proof -
  let ?s = "state_after (tfs_step (TWrite 0 live_msg) live_fs1)"
  let ?c = "params_caps broker_params"
  have "tfs_duty (TOpen path_a TFS_O_CREAT) (tfs_abs live_fs0)"
    unfolding live_fs0(2) by (simp add: path_a_def is_cstring_def mode_defs)
  note 1 = step_state [OF live_fs0(1) this, folded live_fs1_def, unfolded live_fs0(2) live_open]
  have "tfs_duty (TWrite 0 live_msg) (tfs_abs live_fs1)" unfolding 1 by (simp add: live_msg_def)
  note 2 = step_state [OF 1(1) this, unfolded 1(2)]
  have "a_filled (one_file [] ((\<lambda>_. None)(0 \<mapsto> (1, 0)))) = {}" by (auto simp: a_filled_def one_file_def)
  then have w: "writable ?c [] (one_file [] ((\<lambda>_. None)(0 \<mapsto> (1, 0))))"
    by (simp add: writable_def params_caps_def broker_params_def)
  have "a_write ?c (int 0) live_msg (one_file [] ((\<lambda>_. None)(0 \<mapsto> (1, 0))))
      = (int (length (appended ?c [] live_msg) - length ([] :: u8 list)), put_data 1 (appended ?c [] live_msg) 0 (one_file [] ((\<lambda>_. None)(0 \<mapsto> (1, 0)))))"
    by (rule a_write_append [OF _ _ _ w]) (simp_all add: one_file_def)
  moreover have "appended ?c [] live_msg = live_msg"
    by (simp add: appended_def live_msg_def params_caps_def broker_params_def)
  ultimately have "snd (a_step (TWrite 0 live_msg) (?c, one_file [] ((\<lambda>_. None)(0 \<mapsto> (1, 0)))))
      = (?c, one_file live_msg ((\<lambda>_. None)(0 \<mapsto> (1, 1024))))"
    by (simp add: put_data_def one_file_def) (simp add: live_msg_def)
  note 3 = 2(2) [unfolded this]
  have "tfs_duty (TClose 0) (tfs_abs ?s)" unfolding 3 by simp
  note 4 = step_state [OF 2(1) this, folded live_fs3_def, unfolded 3]
  show "fs_inv live_fs3" by (rule 4(1))
  have "snd (a_step (TClose 0) (?c, one_file live_msg ((\<lambda>_. None)(0 \<mapsto> (1, 1024))))) = (?c, one_file live_msg (\<lambda>_. None))"
    by (simp add: a_close_def a_entry_def one_file_def fun_upd_idem)
  then show "fs_caps live_fs3 = ?c" "fs_abs live_fs3 = one_file live_msg (\<lambda>_. None)"
    using 4(2) by (simp_all add: tfs_abs_def)
qed

lemma one_file_broker:
  assumes "fs_inv s" and "fs_caps s = params_caps broker_params" and "fs_abs s = one_file d (\<lambda>_. None)"
  shows "broker_inv \<lparr>b_fs = s, b_table = box_a_table 0\<rparr>" and "a_names (fs_abs s) [97] = Some 1"
    and "a_data (fs_abs s) 1 = Some d" and "\<exists>h<c_files (fs_caps s). a_handles (fs_abs s) h = None"
proof -
  have "box_names_ok (box_a_table 0)"
    unfolding names_ok_lookup [OF box_a_table_inv] box_a_lookup by (simp add: is_cstring_def)
  then show "broker_inv \<lparr>b_fs = s, b_table = box_a_table 0\<rparr>"
    using assms box_a_table_inv by (simp add: broker_inv_def backed_def guarded_def box_a_lookup one_file_def del: fs_abs_simps)
  show "a_names (fs_abs s) [97] = Some 1" "a_data (fs_abs s) 1 = Some d" unfolding assms by (simp_all add: one_file_def)
  show "\<exists>h<c_files (fs_caps s). a_handles (fs_abs s) h = None"
    unfolding assms by (intro exI [of _ 0]) (simp add: one_file_def params_caps_def broker_params_def)
qed

definition live_b :: broker where "live_b = \<lparr>b_fs = live_fs2, b_table = box_a_table 0\<rparr>"
definition live_b3 :: broker where "live_b3 = \<lparr>b_fs = live_fs3, b_table = box_a_table 0\<rparr>"

lemma live_b_views:
  "broker_inv live_b" "a_names (b_afs live_b) [97] = Some 1" "a_data (b_afs live_b) 1 = Some []"
  "\<exists>h<c_files (b_caps live_b). a_handles (b_afs live_b) h = None" "writable (b_caps live_b) [] (b_afs live_b)"
  "b_caps live_b = params_caps broker_params"
proof -
  show "broker_inv live_b" "a_names (b_afs live_b) [97] = Some 1" "a_data (b_afs live_b) 1 = Some []"
    "\<exists>h<c_files (b_caps live_b). a_handles (b_afs live_b) h = None"
    using one_file_broker [OF live_fs2] by (simp_all add: live_b_def del: fs_abs_simps fs_caps_simps)
  show c: "b_caps live_b = params_caps broker_params" using live_fs2(2) by (simp add: live_b_def)
  have "a_filled (one_file [] (\<lambda>_. None)) = {}" by (auto simp: a_filled_def one_file_def)
  then show "writable (b_caps live_b) [] (b_afs live_b)"
    using live_fs2(3) unfolding c writable_def by (simp add: live_b_def params_caps_def broker_params_def del: fs_abs_simps)
qed

lemma live_b3_views:
  "broker_inv live_b3" "a_names (b_afs live_b3) [97] = Some 1" "a_data (b_afs live_b3) 1 = Some (concat [live_msg])"
  "\<exists>h<c_files (b_caps live_b3). a_handles (b_afs live_b3) h = None"
  using one_file_broker [OF live_fs3] by (simp_all add: live_b3_def del: fs_abs_simps fs_caps_simps)

lemma live_box:
  "box_find mutex_ok [97] (b_table \<lparr>b_fs = s, b_table = box_a_table 0\<rparr>) = Inr (Some 20)"
  "heap (b_table \<lparr>b_fs = s, b_table = box_a_table 0\<rparr>) 20 = Some (new_box [97])"
  "pub_num (new_box [97]) = 0" "sub_num (new_box [97]) + 1 \<noteq> 0"
  using box_find_eq [OF box_a_table_inv] box_a_lookup by (simp_all add: box_a_table_def new_box_def)

text \<open>
  C11. A subscriber's session: it is counted as a subscriber of the box, gets every message
  the file of the box holds, in order and each with the type 10 in front, and then its
  handler waits for more, with a handle of its own at the end of the file; no file and no
  other box changes, and the invariant is kept.
\<close>

theorem subscriber_session:
  assumes inv: "broker_inv b" and e: "calm e" and req: "carries request code tx name"
    and box: "box_find mutex_ok name (b_table b) = Inr (Some p)" "heap (b_table b) p = Some x" "sub_num x + 1 \<noteq> 0"
    and dat: "a_names (b_afs b) name = Some i" "a_data (b_afs b) i = Some (concat pls)" "\<forall>m\<in>set pls. length m = 1024"
    and free: "\<exists>h<c_files (b_caps b). a_handles (b_afs b) h = None"
    and ws: "\<forall>w\<in>set ws. 0 < fst w" "length pls \<le> length ws"
  shows "\<exists>b' h. subscriber_register e request ws b
        = Inr (Subscribing tx p (int h) idle_response, map (\<lambda>m. (tx, 10 # m)) pls, b') \<and> broker_inv b'
    \<and> a_handles (b_afs b) h = None \<and> a_handles (b_afs b') = (a_handles (b_afs b))(h \<mapsto> (i, length (concat pls)))
    \<and> a_data (b_afs b') = a_data (b_afs b) \<and> a_names (b_afs b') = a_names (b_afs b)
    \<and> b_table b' = set_box p (x\<lparr>sub_num := sub_num x + 1\<rparr>) (b_table b)"
  using subscriber_runs [OF inv e req _ box(2,3) dat free ws] box(1) box_find_eq [OF broker_invD(2) [OF inv]]
  by (simp del: fs_abs_simps fs_caps_simps) blast

theorem subscriber_session_witness:
  "\<exists>b' h. subscriber_register calm_env (demo_request 2) [(1025, False), (1025, False)] live_b3
      = Inr (Subscribing [99] 20 (int h) idle_response, map (\<lambda>m. ([99], 10 # m)) [live_msg], b') \<and> broker_inv b'
    \<and> a_handles (b_afs live_b3) h = None \<and> a_handles (b_afs b') = (a_handles (b_afs live_b3))(h \<mapsto> (1, length (concat [live_msg])))
    \<and> a_data (b_afs b') = a_data (b_afs live_b3) \<and> a_names (b_afs b') = a_names (b_afs live_b3)
    \<and> b_table b' = set_box 20 ((new_box [97])\<lparr>sub_num := sub_num (new_box [97]) + 1\<rparr>) (b_table live_b3)"
  by (rule subscriber_session [OF live_b3_views(1) calm_env_calm demo_request_carries
        live_box(1,2) [where s = live_fs3, folded live_b3_def] live_box(4) live_b3_views(2,3) _ live_b3_views(4)])
    (simp_all add: live_msg_def)

section \<open>From one terminal to the other\<close>

lemma length_concat_same: "\<forall>m\<in>set xs. length m = n \<Longrightarrow> length (concat xs) = length xs * n"
  by (induction xs) simp_all

lemma sub_loop_prints:
  "list_all2 (\<lambda>l m. length m = 1025 \<and> m ! 0 = 10 \<and> string_at 1 m = Inr l) ls ms \<Longrightarrow> length buffer = 1025 \<Longrightarrow>
     sub_loop buffer (map Some ms) = (ls, Inr None)"
proof (induction ls ms arbitrary: buffer rule: list_all2_induct)
  case Nil
  then show ?case by simp
next
  case (Cons l ls m ms)
  then have "patch 0 m buffer = m" by (simp add: patch_whole)
  then show ?case using Cons by (auto simp: Let_def)
qed

lemma says_payload: "says l m \<Longrightarrow> pub_message m \<and> length (drop 1 m) = 1024 \<and> string_at 1 (10 # drop 1 m) = Inr l"
  by (auto simp: says_def pub_message_def string_at_def split: if_splits)

text \<open>
  C6. What is typed at a publisher is printed at a subscriber. Lines of at most 1022 bytes,
  as many as fit into the file of an empty box, go through \<open>post_request\<close>, the session of
  the publisher, the file, the session of a later subscriber and the loop of its client, and
  come out as the same lines in the same order.
\<close>

theorem lines_reach_subscriber:
  assumes inv: "broker_inv b" and e: "calm e" and req: "carries request code rx name" and req': "carries request' code' tx name"
    and box: "box_find mutex_ok name (b_table b) = Inr (Some p)" "heap (b_table b) p = Some x" "pub_num x = 0" "sub_num x + 1 \<noteq> 0"
    and dat: "a_names (b_afs b) name = Some i" "a_data (b_afs b) i = Some []" "writable (b_caps b) [] (b_afs b)"
    and free: "\<exists>h<c_files (b_caps b). a_handles (b_afs b) h = None"
    and ls: "\<forall>l\<in>set ls. plain_line l" "length ls * 1024 \<le> c_bsize (b_caps b)"
    and io: "\<forall>k. 0 \<le> writes k" "\<forall>w\<in>set ws. 0 < fst w" "length ls \<le> length ws" "ce_open ce (cstr pipe) \<noteq> -1"
  shows "\<exists>ms b1 h out b2. post_request writes epipe (stream_of ls) = (ms, Inr 0)
    \<and> publisher_register e request (map Some ms @ [Some []]) b = Inr (Over 0, b1)
    \<and> subscriber_register e request' ws b1 = Inr (Subscribing tx p (int h) idle_response, out, b2) \<and> broker_inv b2
    \<and> sub_getResponse ce pipe (map (\<lambda>m. Some (snd m)) out) = (ls, Inr None)"
proof -
  note fsd = fs_abs_simps fs_caps_simps
  note i = broker_invD [OF inv]
  have look: "box_lookup name (b_table b) = Some p" using box(1) box_find_eq [OF i(2)] by simp
  have "\<exists>ms. post_request writes epipe (stream_of ls) = (ms, Inr 0) \<and> list_all2 says ls ms"
    unfolding post_request_def using post_lines [of ls writes "replicate MESSAGE_LEN 0" "(replicate PUBLISHER_BUFFER_SIZE 0)[0 := 9]" epipe 0] ls(1) io(1)
    by auto
  then obtain ms where ms: "post_request writes epipe (stream_of ls) = (ms, Inr 0)" "list_all2 says ls ms" by blast
  have len: "length ms = length ls" using ms(2) list_all2_lengthD by fastforce
  have all: "\<forall>m\<in>set ms. pub_message m \<and> length (drop 1 m) = 1024"
  proof
    fix m assume "m \<in> set ms"
    then obtain k where "k < length ms" "ms ! k = m" by (auto simp: in_set_conv_nth)
    then have "says (ls ! k) m" using list_all2_nthD2 [OF ms(2)] by blast
    then show "pub_message m \<and> length (drop 1 m) = 1024" using says_payload by blast
  qed
  let ?pls = "map (drop 1) ms"
  have pls: "\<forall>m\<in>set ?pls. length m = 1024" using all by simp
  have "length (concat ?pls) = length ms * 1024"
    using length_concat_same [OF pls] by simp
  then have app: "appended (b_caps b) [] (payloads ms) = concat ?pls"
    using ls(2) len by (simp add: appended_def payloads_def)
  have pm: "\<forall>m\<in>set ms. pub_message m" using all by blast
  let ?z = "x\<lparr>box_size := box_size x + of_nat (length (appended (b_caps b) [] (payloads ms)) - length ([] :: u8 list))\<rparr>"
  obtain b1 where b1: "publisher_register e request (map Some ms @ [Some []]) b = Inr (Over 0, b1)" "broker_inv b1"
    "b_caps b1 = b_caps b" "a_data (b_afs b1) = (a_data (b_afs b))(i \<mapsto> concat ?pls)" "a_names (b_afs b1) = a_names (b_afs b)"
    "a_handles (b_afs b1) = a_handles (b_afs b)" "b_table b1 = set_box p ?z (b_table b)"
    using publisher_runs [OF inv e req look box(2,3) dat free pm] unfolding app by blast
  have fn: "file_name ?z = file_name x" by simp
  have h2: "heap (b_table b1) p = Some ?z" unfolding b1(7) by simp
  have l2: "box_lookup name (b_table b1) = Some p" unfolding b1(7) set_box_inv(2) [OF i(2) box(2) fn] by (rule look)
  have z2: "sub_num ?z + 1 \<noteq> 0" using box(4) by simp
  have n2: "a_names (b_afs b1) name = Some i" unfolding b1(5) by (rule dat(1))
  have d2: "a_data (b_afs b1) i = Some (concat ?pls)" unfolding b1(4) by simp
  have f2: "\<exists>h<c_files (b_caps b1). a_handles (b_afs b1) h = None" unfolding b1(3,6) by (rule free)
  have w2: "length ?pls \<le> length ws" using io(3) len by simp
  obtain b2 h where b2: "subscriber_register e request' ws b1 = Inr (Subscribing tx p (int h) idle_response, map (\<lambda>m. (tx, 10 # m)) ?pls, b2)" "broker_inv b2"
    using subscriber_runs [OF b1(2) e req' l2 h2 z2 n2 d2 pls f2 io(2) w2] by blast
  have "list_all2 (\<lambda>l m. length (10 # drop 1 m) = 1025 \<and> (10 # drop 1 m) ! 0 = 10 \<and> string_at 1 (10 # drop 1 m) = Inr l) ls ms"
    using ms(2) by (rule list_all2_mono) (use says_payload in auto)
  then have "list_all2 (\<lambda>l m. length m = 1025 \<and> m ! 0 = 10 \<and> string_at 1 m = Inr l) ls (map (\<lambda>m. 10 # drop 1 m) ms)"
    unfolding list_all2_map2 .
  from sub_loop_prints [OF this, of "replicate 1025 0"]
  have "sub_getResponse ce pipe (map (\<lambda>m. Some (snd m)) (map (\<lambda>m. (tx, 10 # m)) ?pls)) = (ls, Inr None)"
    using io(4) by (simp add: sub_getResponse_def comp_def)
  then show ?thesis using ms(1) b1(1) b2 by blast
qed

theorem lines_reach_subscriber_witness:
  "\<exists>ms b1 h out b2. post_request (\<lambda>_. 1025) False (stream_of [[104, 111], [105]]) = (ms, Inr 0)
    \<and> publisher_register calm_env (demo_request 1) (map Some ms @ [Some []]) live_b = Inr (Over 0, b1)
    \<and> subscriber_register calm_env (demo_request 2) [(1025, False), (1025, False), (1025, False)] b1
        = Inr (Subscribing [99] 20 (int h) idle_response, out, b2) \<and> broker_inv b2
    \<and> sub_getResponse demo_env [99, 0] (map (\<lambda>m. Some (snd m)) out) = ([[104, 111], [105]], Inr None)"
proof (rule lines_reach_subscriber [OF live_b_views(1) calm_env_calm demo_request_carries demo_request_carries live_box(1,2) [where s = live_fs2, folded live_b_def] live_box(3,4)
      live_b_views(2,3,5,4)])
  show "length [[104, 111], [105 :: u8]] * 1024 \<le> c_bsize (b_caps live_b)"
    unfolding live_b_views(6) by (simp add: params_caps_def broker_params_def)
qed (simp_all add: plain_line_def is_cstring_def demo_env_def)

end
