(* ===== verification/Service_Spec.thy ===== *)
theory Service_Spec
  imports Sessions
begin

text \<open>
  What the broker promises its clients, without files, handles or tables: names map to
  mailboxes, a mailbox is a list of at most 100 messages and a number of subscribers who wait
  for more. A request is the buffer of bytes \<open>main\<close> has received, and the specification is a
  function of it: what the clients get, what the worker that has taken the request does from
  then on, and the next state. A worker that has accepted a subscriber never comes back; it
  follows the box. The invariant under which this is faithful is in \<open>Service_Inv\<close>; \<open>Service\<close>
  proves that the handlers implement the specification.
\<close>

section \<open>The service\<close>

record mailbox =
  mb_messages :: "u8 list list"
  mb_subs :: nat

text \<open>\<open>s_waiting\<close> counts the subscribers of all boxes that were ever accepted.\<close>

record service =
  s_boxes :: "cstring \<Rightarrow> mailbox option"
  s_waiting :: nat

text \<open>
  What a client sees: the messages on its pipe, or, for a list, the lines the manager makes
  of them, in no order.
\<close>

datatype reply = Sent sent | Listed "(cstring \<times> manager_output) set"

text \<open>
  What a worker is doing: it is ready for the next request, or it follows a box for the
  subscriber at the end of a pipe, having sent the first messages of the box, so many.
\<close>

datatype activity = Ready | Following cstring cstring nat

text \<open>63 inodes are left for files, a block of 102400 bytes has room for 100 messages.\<close>

definition box_limit :: nat where "box_limit = 63"
definition message_limit :: nat where "message_limit = 100"
definition session_limit :: nat where "session_limit = 16"

lemmas service_limits [simp] = box_limit_def message_limit_def session_limit_def

definition create_spec :: "cstring \<Rightarrow> cstring \<Rightarrow> service \<Rightarrow> reply \<times> service" where
  "create_spec pipe name a =
     (if s_boxes a name \<noteq> None then
        (Sent [(pipe, manager_response 4 (-1) ''box_find error: there's a box with that name already.'')], a)
      else if name = [] \<or> box_limit \<le> card (dom (s_boxes a)) then
        (Sent [(pipe, manager_response 4 (-1) ''tfs_open error: could not open the box file.'')], a)
      else (Sent [(pipe, manager_response 4 0 '''')], a\<lparr>s_boxes := (s_boxes a)(name \<mapsto> \<lparr>mb_messages = [], mb_subs = 0\<rparr>)\<rparr>))"

definition remove_spec :: "cstring \<Rightarrow> cstring \<Rightarrow> service \<Rightarrow> reply \<times> service" where
  "remove_spec pipe name a =
     (case s_boxes a name of
        None \<Rightarrow> (Sent [(pipe, manager_response 6 (-1) ''box_find error: box does not exist.'')], a)
      | Some x \<Rightarrow>
          if mb_subs x > 0 then (Sent [], a)
          else (Sent [(pipe, manager_response 6 0 '''')], a\<lparr>s_boxes := (s_boxes a)(name := None)\<rparr>))"

definition mailbox_line :: "cstring \<Rightarrow> mailbox \<Rightarrow> manager_output" where
  "mailbox_line name x = Out_box name (of_nat (1024 * length (mb_messages x))) 0 (of_nat (mb_subs x))"

definition list_spec :: "cstring \<Rightarrow> service \<Rightarrow> reply \<times> service" where
  "list_spec pipe a =
     (Listed (if dom (s_boxes a) = {} then {(pipe, Out_no_boxes)}
              else {(pipe, mailbox_line name x) |name x. s_boxes a name = Some x}), a)"

definition publish_spec :: "cstring \<Rightarrow> u8 list list \<Rightarrow> service \<Rightarrow> reply \<times> service" where
  "publish_spec name msgs a =
     (Sent [], case s_boxes a name of
        None \<Rightarrow> a
      | Some x \<Rightarrow> a\<lparr>s_boxes := (s_boxes a)(name \<mapsto> x\<lparr>mb_messages := take message_limit (mb_messages x @ msgs)\<rparr>)\<rparr>)"

definition subscribe_spec :: "cstring \<Rightarrow> cstring \<Rightarrow> service \<Rightarrow> reply \<times> service" where
  "subscribe_spec pipe name a =
     (case s_boxes a name of
        None \<Rightarrow> (Sent [], a)
      | Some x \<Rightarrow> (Sent (map (\<lambda>m. (pipe, 10 # m)) (mb_messages x)),
          a\<lparr>s_boxes := (s_boxes a)(name \<mapsto> x\<lparr>mb_subs := Suc (mb_subs x)\<rparr>), s_waiting := Suc (s_waiting a)\<rparr>))"

text \<open>\<open>msgs\<close> are what a publisher sends before it hangs up; every other request ignores them.\<close>

definition serve_spec :: "u8 list list \<Rightarrow> u8 list \<Rightarrow> service \<Rightarrow> reply \<times> service" where
  "serve_spec msgs buffer a =
     (let code = buffer ! 0; pipe = cstr (drop 1 buffer); name = cstr (drop 257 buffer) in
      if code = 1 then publish_spec name msgs a
      else if code = 2 then subscribe_spec pipe name a
      else if code = 3 then create_spec pipe name a
      else if code = 5 then remove_spec pipe name a
      else if code = 7 then list_spec pipe a
      else if code = 11 then (Sent [(pipe, empty_list_response 12)], a)
      else (Sent [], a))"

text \<open>Only a subscriber of a box that exists keeps the worker.\<close>

definition activity_spec :: "u8 list \<Rightarrow> service \<Rightarrow> activity" where
  "activity_spec buffer a =
     (case s_boxes a (cstr (drop 257 buffer)) of
        None \<Rightarrow> Ready
      | Some x \<Rightarrow>
          if buffer ! 0 = 2 then Following (cstr (drop 1 buffer)) (cstr (drop 257 buffer)) (length (mb_messages x)) else Ready)"

text \<open>What a worker that follows a box sends when it gets its turn: what has been stored since.\<close>

definition new_messages :: "cstring \<Rightarrow> nat \<Rightarrow> service \<Rightarrow> u8 list list" where
  "new_messages name k a = (case s_boxes a name of None \<Rightarrow> [] | Some x \<Rightarrow> drop k (mb_messages x))"

section \<open>The broker as a service\<close>

text \<open>
  What a request meets: system calls that do not fail, memory, and a publisher that sends
  its messages and hangs up. A subscriber can always be written to.
\<close>

record memory =
  mem_malloc :: "box_table \<Rightarrow> addr"
  mem_realloc :: "nat \<Rightarrow> addr option list"

definition memory_ok :: "memory \<Rightarrow> bool" where
  "memory_ok m \<longleftrightarrow> (\<forall>t. finite (dom (heap t)) \<longrightarrow> heap t (mem_malloc m t) = None) \<and> (\<forall>n. length (mem_realloc m n) = n)"

definition supplied :: "env \<Rightarrow> memory \<Rightarrow> broker \<Rightarrow> env" where
  "supplied e m b = e\<lparr>e_malloc := Some (mem_malloc m (b_table b)),
     e_realloc := Some (mem_realloc m (unat (capacity (b_table b))))\<rparr>"

record request =
  r_env :: env
  r_memory :: memory
  r_msgs :: "u8 list list"
  r_buffer :: "u8 list"

text \<open>The answer to a list, whose messages have the type 8, counts as the lines printed for it.\<close>

definition observed :: "sent \<Rightarrow> reply" where
  "observed ws =
     (if ws \<noteq> [] \<and> snd (hd ws) ! 0 = 8 then Listed (\<Union>(pipe, m)\<in>set ws. Pair pipe ` set (fst (print_boxes [m])))
      else Sent ws)"

text \<open>
  Where a handler is, in the words of the specification: the box of a subscriber, and how far
  its handle has got in the file.
\<close>

definition activity_of :: "broker \<Rightarrow> handler \<Rightarrow> activity" where
  "activity_of b w =
     (case w of
        Subscribing tx p fd response \<Rightarrow>
          Following tx (name_of (b_table b) p) (snd (the (a_handles (b_afs b) (nat fd))) div MESSAGE_LEN)
      | _ \<Rightarrow> Ready)"

definition publisher_reads :: "u8 list list \<Rightarrow> read_results" where
  "publisher_reads msgs = map (\<lambda>m. Some (9 # m)) msgs @ [Some []]"

definition subscriber_writes :: "(int \<times> bool) list" where
  "subscriber_writes = replicate (Suc message_limit) (1025, False)"

definition serve :: "request \<Rightarrow> broker \<Rightarrow> ((reply \<times> activity) \<times> broker) res" where
  "serve r b =
     bindE (handle_request (supplied (r_env r) (r_memory r) b) (publisher_reads (r_msgs r)) subscriber_writes (r_buffer r) b)
     (\<lambda>(w, ws, b). Inr ((observed ws, activity_of b w), b))"

definition serve_step_spec :: "request \<Rightarrow> service \<Rightarrow> (reply \<times> activity) \<times> service" where
  "serve_step_spec r a =
     (case serve_spec (r_msgs r) (r_buffer r) a of (x, a') \<Rightarrow> ((x, activity_spec (r_buffer r) a), a'))"

text \<open>
  The duty of the clients: requests as the clients of the repository build them, messages of
  1024 bytes, a session only while a handle is free, and the request for subscribers, which
  the broker does not finish otherwise, only while there are no boxes.
\<close>

definition serve_duty :: "request \<Rightarrow> service \<Rightarrow> bool" where
  "serve_duty r a \<longleftrightarrow> calm (r_env r) \<and> memory_ok (r_memory r) \<and> (\<forall>m\<in>set (r_msgs r). length m = 1024)
     \<and> (\<exists>pipe name. carries (r_buffer r) (r_buffer r ! 0) pipe name \<and> length name < 32)
     \<and> (r_buffer r ! 0 \<in> {1, 2, 3} \<longrightarrow> s_waiting a < session_limit)
     \<and> (r_buffer r ! 0 = 11 \<longrightarrow> dom (s_boxes a) = {})"

end
