(* ===== verification/Service_Inv.thy ===== *)
theory Service_Inv
  imports Service_Spec
begin

text \<open>
  The abstraction of a broker to a service, and the invariant: \<open>broker_inv\<close>, no file without
  a box and no block of the heap without a box, files that are sequences of whole messages,
  sizes and counts that agree with the files and the handles, and a table that stays small.
\<close>

text \<open>The abstraction of the file system stays folded from here on.\<close>

declare fs_abs_simps [simp del] and fs_caps_simps [simp del]

section \<open>A file as messages\<close>

fun split_messages :: "nat \<Rightarrow> u8 list \<Rightarrow> u8 list list" where
  "split_messages 0 d = []"
| "split_messages (Suc n) d = take 1024 d # split_messages n (drop 1024 d)"

definition messages_of :: "u8 list \<Rightarrow> u8 list list" where
  "messages_of d = split_messages (length d div 1024) d"

definition whole :: "u8 list list \<Rightarrow> bool" where
  "whole ms \<longleftrightarrow> (\<forall>m\<in>set ms. length m = 1024)"

lemma whole_simps [simp]:
  "whole []" "whole (m # ms) \<longleftrightarrow> length m = 1024 \<and> whole ms" "whole (ms @ ns) \<longleftrightarrow> whole ms \<and> whole ns"
  by (auto simp: whole_def)

lemma whole_take [simp]: "whole ms \<Longrightarrow> whole (take n ms)"
  by (auto simp: whole_def dest: in_set_takeD)

lemma length_concat_whole: "whole ms \<Longrightarrow> length (concat ms) = 1024 * length ms"
  by (induction ms) simp_all

lemma messages_of_concat [simp]:
  assumes "whole ms"
  shows "messages_of (concat ms) = ms"
proof -
  have "split_messages (length ms) (concat ms) = ms" using assms by (induction ms) simp_all
  then show ?thesis using length_concat_whole [OF assms] by (simp add: messages_of_def)
qed

lemma take_concat: "whole ms \<Longrightarrow> take (1024 * n) (concat ms) = concat (take n ms)"
proof (induction ms arbitrary: n)
  case (Cons m ms)
  then show ?case by (cases n) simp_all
qed simp

lemma payloads_typed: "payloads (map ((#) 9) ms) = concat ms"
  by (induction ms) simp_all

text \<open>What a publisher's messages make of a file: a block holds 100 of them.\<close>

lemma appended_messages:
  assumes "whole ms" and "whole new" and "c_bsize c = 102400"
  shows "appended c (concat ms) (concat new) = concat (take message_limit (ms @ new))"
  using take_concat [of "ms @ new" 100] assms by (simp add: appended_def)

section \<open>Abstraction and invariant\<close>

definition mailbox_of :: "afs \<Rightarrow> box_table \<Rightarrow> cstring \<Rightarrow> mailbox option" where
  "mailbox_of a t name =
     (case box_lookup name t of
        None \<Rightarrow> None
      | Some p \<Rightarrow> Some \<lparr>mb_messages = messages_of (the (a_data a (the (a_names a name)))),
          mb_subs = unat (sub_num (the (heap t p)))\<rparr>)"

definition service_abs :: "broker \<Rightarrow> service" where
  "service_abs b = \<lparr>s_boxes = mailbox_of (b_afs b) (b_table b), s_waiting = card (dom (a_handles (b_afs b)))\<rparr>"

text \<open>One box, its file and its counts.\<close>

definition box_ok :: "afs \<Rightarrow> box_table \<Rightarrow> cstring \<Rightarrow> bool" where
  "box_ok a t name \<longleftrightarrow> (\<forall>p. box_lookup name t = Some p \<longrightarrow>
     (\<exists>x i ms. heap t p = Some x \<and> a_names a name = Some i \<and> a_data a i = Some (concat ms) \<and> whole ms
        \<and> pub_num x = 0 \<and> box_size x = of_nat (1024 * length ms) \<and> unat (sub_num x) \<le> card (dom (a_handles a))))"

definition small :: "box_table \<Rightarrow> bool" where
  "small t \<longleftrightarrow> 0 < unat (capacity t) \<and> unat (capacity t) \<le> 128 \<and> unat (bt_size t) \<le> box_limit"

definition service_inv :: "broker \<Rightarrow> bool" where
  "service_inv b \<longleftrightarrow> broker_inv b \<and> b_caps b = params_caps broker_params
     \<and> (\<forall>name. a_names (b_afs b) name \<noteq> None \<longrightarrow> box_lookup name (b_table b) \<noteq> None)
     \<and> (\<forall>p. heap (b_table b) p \<noteq> None \<longrightarrow> (\<exists>name. box_lookup name (b_table b) = Some p))
     \<and> (\<forall>name. box_ok (b_afs b) (b_table b) name)
     \<and> small (b_table b)"

lemma service_invD:
  assumes "service_inv b"
  shows "broker_inv b" "b_caps b = params_caps broker_params"
    "a_names (b_afs b) name \<noteq> None \<Longrightarrow> box_lookup name (b_table b) \<noteq> None"
    "heap (b_table b) p \<noteq> None \<Longrightarrow> \<exists>name. box_lookup name (b_table b) = Some p"
    "box_ok (b_afs b) (b_table b) name" "small (b_table b)"
  using assms by (simp_all add: service_inv_def)

lemma broker_caps: "c_bsize (params_caps broker_params) = 102400" "c_inodes (params_caps broker_params) = 64"
  "c_files (params_caps broker_params) = 16" "c_blocks (params_caps broker_params) = 1024"
  by (simp_all add: params_caps_def broker_params_def)

lemma service_box:
  assumes "service_inv b" and "box_lookup name (b_table b) = Some p"
  shows "\<exists>x i ms. heap (b_table b) p = Some x \<and> a_names (b_afs b) name = Some i \<and> a_data (b_afs b) i = Some (concat ms)
    \<and> whole ms \<and> pub_num x = 0 \<and> box_size x = of_nat (1024 * length ms)
    \<and> unat (sub_num x) \<le> s_waiting (service_abs b)
    \<and> s_boxes (service_abs b) name = Some \<lparr>mb_messages = ms, mb_subs = unat (sub_num x)\<rparr>"
proof -
  obtain x i ms where x: "heap (b_table b) p = Some x" "a_names (b_afs b) name = Some i" "a_data (b_afs b) i = Some (concat ms)"
    "whole ms" "pub_num x = 0" "box_size x = of_nat (1024 * length ms)" "unat (sub_num x) \<le> card (dom (a_handles (b_afs b)))"
    using service_invD(5) [OF assms(1), of name] assms(2) unfolding box_ok_def by blast
  then show ?thesis using assms(2)
    by (intro exI [of _ x] exI [of _ i] exI [of _ ms]) (simp add: service_abs_def mailbox_of_def)
qed

lemma service_none [simp]: "s_boxes (service_abs b) name = None \<longleftrightarrow> box_lookup name (b_table b) = None"
  by (simp add: service_abs_def mailbox_of_def split: option.split)

lemma service_waiting [simp]: "s_waiting (service_abs b) = card (dom (a_handles (b_afs b)))"
  by (simp add: service_abs_def)

text \<open>What stays of a box when the state changes elsewhere.\<close>

lemma box_frame:
  assumes "box_lookup name t' = box_lookup name t" and "\<And>p. box_lookup name t = Some p \<Longrightarrow> heap t' p = heap t p"
    and "\<And>i. a_names a name = Some i \<Longrightarrow> a_names a' name = Some i \<and> a_data a' i = a_data a i"
    and "card (dom (a_handles a)) \<le> card (dom (a_handles a'))" and "box_ok a t name"
  shows "box_ok a' t' name" and "mailbox_of a' t' name = mailbox_of a t name"
proof -
  have both: "box_ok a' t' name \<and> mailbox_of a' t' name = mailbox_of a t name"
  proof (cases "box_lookup name t")
    case None
    then show ?thesis using assms(1) by (simp add: box_ok_def mailbox_of_def)
  next
    case (Some p)
    then obtain x i ms where x: "heap t p = Some x" "a_names a name = Some i" "a_data a i = Some (concat ms)" "whole ms"
      "pub_num x = 0" "box_size x = of_nat (1024 * length ms)" "unat (sub_num x) \<le> card (dom (a_handles a))"
      using assms(5) unfolding box_ok_def by blast
    have n: "heap t' p = Some x" "a_names a' name = Some i" "a_data a' i = Some (concat ms)" "box_lookup name t' = Some p"
      "unat (sub_num x) \<le> card (dom (a_handles a'))"
      using assms(2) [OF Some] assms(3) [OF x(2)] assms(1,4) x Some by simp_all
    then show ?thesis using x Some unfolding box_ok_def mailbox_of_def by auto
  qed
  show "box_ok a' t' name" "mailbox_of a' t' name = mailbox_of a t name" using both by simp_all
qed

section \<open>Counting\<close>

lemma data_named:
  assumes "fs_inv s" and "a_data (fs_abs s) i \<noteq> None"
  shows "0 < i \<and> i < c_inodes (fs_caps s) \<and> (\<exists>name. a_names (fs_abs s) name = Some i)"
proof -
  note d = fs_invD(5) [OF assms(1)]
  have i: "i \<noteq> 0" "i < n_inodes s" "ifree s ! i = TAKEN" using assms(2) by (auto simp: live_def fs_abs_simps split: if_splits)
  then obtain k where k: "k < max_dir_entries s" "snd (root_dir s ! k) = int i" using d unfolding dir_ok_def by blast
  then have "a_names (fs_abs s) (fst (root_dir s ! k)) = Some i"
    using dir_find_entry [OF d k(1)] by (simp add: fs_abs_simps dir_names_def)
  then show ?thesis using i by (auto simp: fs_caps_simps)
qed

lemma service_names:
  assumes inv: "service_inv b"
  shows "dom (s_boxes (service_abs b)) = dom (a_names (b_afs b))"
    and "card (dom (a_names (b_afs b))) = card {i. a_data (b_afs b) i \<noteq> None}"
    and "{i. a_data (b_afs b) i \<noteq> None} \<subseteq> {1..<64}"
proof -
  note i = broker_invD [OF service_invD(1) [OF inv]]
  have named: "a_names (b_afs b) n \<noteq> None \<longleftrightarrow> box_lookup n (b_table b) \<noteq> None" for n
    using service_invD(3) [OF inv, of n] i(4) unfolding backed_def by blast
  show "dom (s_boxes (service_abs b)) = dom (a_names (b_afs b))"
    unfolding set_eq_iff domIff service_none by (simp only: named simp_thms)
  have "bij_betw (\<lambda>n. the (a_names (b_afs b) n)) (dom (a_names (b_afs b))) {i. a_data (b_afs b) i \<noteq> None}"
    unfolding bij_betw_def
  proof
    show "inj_on (\<lambda>n. the (a_names (b_afs b) n)) (dom (a_names (b_afs b)))"
      using a_names_inj [OF i(1)] by (intro inj_onI) (metis domD option.sel)
    have "a_data (b_afs b) (the (a_names (b_afs b) n)) \<noteq> None" if n: "a_names (b_afs b) n \<noteq> None" for n
    proof -
      obtain p where "box_lookup n (b_table b) = Some p" using named n by blast
      from service_box [OF inv this] show ?thesis by auto
    qed
    moreover have "\<exists>n. a_names (b_afs b) n = Some k" if "a_data (b_afs b) k \<noteq> None" for k
      using data_named [OF i(1) that] by blast
    ultimately show "(\<lambda>n. the (a_names (b_afs b) n)) ` dom (a_names (b_afs b)) = {i. a_data (b_afs b) i \<noteq> None}"
      by auto (metis domI image_eqI option.sel)
  qed
  then show "card (dom (a_names (b_afs b))) = card {i. a_data (b_afs b) i \<noteq> None}" by (rule bij_betw_same_card)
  show "{i. a_data (b_afs b) i \<noteq> None} \<subseteq> {1..<64}"
    using data_named [OF i(1)] service_invD(2) [OF inv] broker_caps(2) by fastforce
qed

lemma service_bounds:
  assumes inv: "service_inv b"
  shows "finite (dom (a_names (b_afs b)))" and "card (dom (a_names (b_afs b))) \<le> 63" and "card (a_filled (b_afs b)) \<le> 63"
    and "finite (dom (a_handles (b_afs b)))" and "finite (dom (heap (b_table b)))"
proof -
  note n = service_names [OF inv] and i = broker_invD [OF service_invD(1) [OF inv]]
  have fin: "finite {i. a_data (b_afs b) i \<noteq> None}" using n(3) by (rule finite_subset) simp
  have le: "card {i. a_data (b_afs b) i \<noteq> None} \<le> 63" using card_mono [OF _ n(3)] by simp
  then show c: "card (dom (a_names (b_afs b))) \<le> 63" using n(2) by simp
  show fd: "finite (dom (a_names (b_afs b)))"
  proof (rule finite_imageD)
    show "inj_on (\<lambda>n. the (a_names (b_afs b) n)) (dom (a_names (b_afs b)))"
      using a_names_inj [OF i(1)] by (intro inj_onI) (metis domD option.sel)
    have "(\<lambda>n. the (a_names (b_afs b) n)) ` dom (a_names (b_afs b)) \<subseteq> {i. a_data (b_afs b) i \<noteq> None}"
    proof clarsimp
      fix name k assume k: "a_names (b_afs b) name = Some k"
      then obtain p where "box_lookup name (b_table b) = Some p" using service_invD(3) [OF inv, of name] by blast
      from service_box [OF inv this] k show "\<exists>y. a_data (b_afs b) k = Some y" by auto
    qed
    then show "finite ((\<lambda>n. the (a_names (b_afs b) n)) ` dom (a_names (b_afs b)))" using fin by (rule finite_subset)
  qed
  have "a_filled (b_afs b) \<subseteq> {i. a_data (b_afs b) i \<noteq> None}" by (auto simp: a_filled_def)
  from card_mono [OF fin this] le show "card (a_filled (b_afs b)) \<le> 63" by linarith
  have "dom (a_handles (b_afs b)) \<subseteq> {..<n_files (b_fs b)}" by (auto simp: fs_abs_simps split: if_splits)
  then show "finite (dom (a_handles (b_afs b)))" by (rule finite_subset) simp
  have "dom (heap (b_table b)) \<subseteq> (\<lambda>n. the (box_lookup n (b_table b))) ` dom (a_names (b_afs b))"
  proof
    fix p assume "p \<in> dom (heap (b_table b))"
    then obtain name where name: "box_lookup name (b_table b) = Some p" using service_invD(4) [OF inv, of p] by blast
    from service_box [OF inv this] have "name \<in> dom (a_names (b_afs b))" by auto
    then show "p \<in> (\<lambda>n. the (box_lookup n (b_table b))) ` dom (a_names (b_afs b))" using name by (metis image_eqI option.sel)
  qed
  then show "finite (dom (heap (b_table b)))" using fd by (meson finite_imageI finite_subset)
qed

lemma free_handle:
  assumes "service_inv b" and "card (dom (a_handles (b_afs b))) < session_limit"
  shows "\<exists>h<c_files (b_caps b). a_handles (b_afs b) h = None"
proof (rule ccontr)
  assume "\<not> (\<exists>h<c_files (b_caps b). a_handles (b_afs b) h = None)"
  then have "{..<16} \<subseteq> dom (a_handles (b_afs b))" using service_invD(2) [OF assms(1)] broker_caps(3) by auto
  then have "card {..<16 :: nat} \<le> card (dom (a_handles (b_afs b)))"
    by (rule card_mono [OF service_bounds(4) [OF assms(1)]])
  then show False using assms(2) by simp
qed

text \<open>Opening the file of a new box fails exactly when the specification says so.\<close>

lemma create_opens:
  assumes inv: "service_inv b" and new: "box_lookup name (b_table b) = None" and len: "length name < 32"
    and free: "card (dom (a_handles (b_afs b))) < session_limit"
  shows "name = [] \<or> 63 \<le> card (dom (a_names (b_afs b))) \<Longrightarrow>
      a_open (b_caps b) (Some (47 # name)) TFS_O_CREAT (b_afs b) = (-1, b_afs b)"
    and "name \<noteq> [] \<Longrightarrow> card (dom (a_names (b_afs b))) < 63 \<Longrightarrow>
      \<exists>j h. a_open (b_caps b) (Some (47 # name)) TFS_O_CREAT (b_afs b)
          = (int h, (b_afs b)\<lparr>a_names := (a_names (b_afs b))(name \<mapsto> j), a_data := (a_data (b_afs b))(j \<mapsto> []),
                        a_handles := (a_handles (b_afs b))(h \<mapsto> (j, 0))\<rparr>)
        \<and> a_data (b_afs b) j = None"
proof -
  have mode: "TFS_O_CREAT AND TFS_O_CREAT \<noteq> 0" by (simp add: mode_defs)
  note n = service_names [OF inv] and caps = service_invD(2) [OF inv]
  have none: "a_names (b_afs b) name = None" using new service_invD(3) [OF inv, of name] by blast
  have run: "a_open (b_caps b) (Some (47 # name)) TFS_O_CREAT (b_afs b)
    = (if name = [] then (-1, b_afs b) else a_create (b_caps b) name (b_afs b))"
    using none mode by (simp add: a_open_def)
  have full: "find (\<lambda>i. a_data (b_afs b) i = None) [1..<64] = None \<longleftrightarrow> 63 \<le> card (dom (a_names (b_afs b)))"
  proof
    assume "find (\<lambda>i. a_data (b_afs b) i = None) [1..<64] = None"
    then have "{i. a_data (b_afs b) i \<noteq> None} = {1..<64}" using n(3) by (auto simp: find_None_iff)
    then show "63 \<le> card (dom (a_names (b_afs b)))" using n(2) by simp
  next
    assume "63 \<le> card (dom (a_names (b_afs b)))"
    then have "{i. a_data (b_afs b) i \<noteq> None} = {1..<64}" using n(2) by (intro card_seteq [OF _ n(3)]) simp_all
    then show "find (\<lambda>i. a_data (b_afs b) i = None) [1..<64] = None" by (auto simp: find_None_iff set_eq_iff)
  qed
  show "a_open (b_caps b) (Some (47 # name)) TFS_O_CREAT (b_afs b) = (-1, b_afs b)"
    if "name = [] \<or> 63 \<le> card (dom (a_names (b_afs b)))"
    using that unfolding full [symmetric] run by (auto simp: a_create_def caps broker_caps)
  assume ne: "name \<noteq> []" and room: "card (dom (a_names (b_afs b))) < 63"
  then obtain j where j: "find (\<lambda>i. a_data (b_afs b) i = None) [1..<64] = Some j" using full by fastforce
  let ?a = "(b_afs b)\<lparr>a_names := (a_names (b_afs b))(name \<mapsto> j), a_data := (a_data (b_afs b))(j \<mapsto> [])\<rparr>"
  have "a_create (b_caps b) name (b_afs b) = a_open_handle (b_caps b) j 0 ?a"
    using j room len by (simp add: a_create_def caps broker_caps)
  moreover have "\<exists>h<c_files (b_caps b). a_handles ?a h = None" using free_handle [OF inv free] by simp
  ultimately have "\<exists>h. a_create (b_caps b) name (b_afs b) = (int h, ?a\<lparr>a_handles := (a_handles ?a)(h \<mapsto> (j, 0))\<rparr>)"
    using a_open_handle_cases [of "b_caps b" j 0 ?a] by metis
  moreover have "a_data (b_afs b) j = None" using j by (simp add: find_Some_iff) blast
  ultimately show "\<exists>j h. a_open (b_caps b) (Some (47 # name)) TFS_O_CREAT (b_afs b)
          = (int h, (b_afs b)\<lparr>a_names := (a_names (b_afs b))(name \<mapsto> j), a_data := (a_data (b_afs b))(j \<mapsto> []),
                        a_handles := (a_handles (b_afs b))(h \<mapsto> (j, 0))\<rparr>)
        \<and> a_data (b_afs b) j = None"
    using ne unfolding run by auto
qed

lemma table_count:
  assumes inv: "service_inv b"
  shows "unat (num_elem (b_table b)) \<le> card (dom (a_names (b_afs b)))"
proof -
  let ?t = "b_table b" and ?S = "{j. j < unat (capacity (b_table b)) \<and> slots (b_table b) ! j \<noteq> None}"
  note i = broker_invD [OF service_invD(1) [OF inv]] and v = boxes_invD [OF broker_invD(2) [OF service_invD(1) [OF inv]]]
  have "count_boxes bs = card {j. j < length bs \<and> bs ! j \<noteq> None}" for bs
    unfolding count_boxes_def by (simp add: length_filter_conv_card)
  then have "unat (num_elem ?t) = card ?S" using v(2,4) by simp
  also have "\<dots> \<le> card (dom (a_names (b_afs b)))"
  proof (rule card_inj_on_le [of "\<lambda>j. name_of ?t (the (slots ?t ! j))"])
    show "inj_on (\<lambda>j. name_of ?t (the (slots ?t ! j))) ?S"
    proof (intro inj_onI)
      fix j k assume a: "j \<in> ?S" "k \<in> ?S" and e: "name_of ?t (the (slots ?t ! j)) = name_of ?t (the (slots ?t ! k))"
      then obtain p q where "slots ?t ! j = Some p" "slots ?t ! k = Some q" by blast
      then show "j = k" using a e v(7) [of j k p q] by (cases "j = k") simp_all
    qed
    show "(\<lambda>j. name_of ?t (the (slots ?t ! j))) ` ?S \<subseteq> dom (a_names (b_afs b))"
    proof (rule image_subsetI)
      fix j assume "j \<in> ?S"
      then obtain p where j: "j < unat (capacity ?t)" "slots ?t ! j = Some p" by blast
      then have "box_lookup (name_of ?t p) ?t = Some p" unfolding box_lookup_Some [OF i(2)] by blast
      then have "a_names (b_afs b) (name_of ?t p) \<noteq> None" using i(4) unfolding backed_def by blast
      then show "name_of ?t (the (slots ?t ! j)) \<in> dom (a_names (b_afs b))" using j by auto
    qed
    show "finite (dom (a_names (b_afs b)))" by (rule service_bounds(1) [OF inv])
  qed
  finally show ?thesis .
qed

section \<open>Changing one box\<close>

text \<open>
  A step that concerns one name keeps the invariant and updates the service at that name,
  when it leaves the others' boxes and files alone.
\<close>

lemma service_update:
  assumes inv: "service_inv b" and b': "broker_inv b'" "b_caps b' = b_caps b"
    and look: "\<And>m. m \<noteq> name \<Longrightarrow> box_lookup m (b_table b') = box_lookup m (b_table b)"
    and heap: "\<And>m p. m \<noteq> name \<Longrightarrow> box_lookup m (b_table b) = Some p \<Longrightarrow> heap (b_table b') p = heap (b_table b) p"
    and files: "\<And>m. m \<noteq> name \<Longrightarrow> a_names (b_afs b') m = a_names (b_afs b) m"
      "\<And>m i. m \<noteq> name \<Longrightarrow> a_names (b_afs b) m = Some i \<Longrightarrow> a_data (b_afs b') i = a_data (b_afs b) i"
      "a_names (b_afs b') name \<noteq> None \<Longrightarrow> box_lookup name (b_table b') \<noteq> None"
    and new: "\<And>p. heap (b_table b') p \<noteq> None \<Longrightarrow>
        box_lookup name (b_table b') = Some p \<or> heap (b_table b) p \<noteq> None \<and> box_lookup name (b_table b) \<noteq> Some p"
    and handles: "card (dom (a_handles (b_afs b))) \<le> card (dom (a_handles (b_afs b')))"
    and ok: "box_ok (b_afs b') (b_table b') name" "small (b_table b')"
  shows "service_inv b'"
    and "service_abs b' = \<lparr>s_boxes = (s_boxes (service_abs b))(name := mailbox_of (b_afs b') (b_table b') name),
        s_waiting = card (dom (a_handles (b_afs b')))\<rparr>"
proof -
  have frame: "box_ok (b_afs b') (b_table b') m \<and> mailbox_of (b_afs b') (b_table b') m = mailbox_of (b_afs b) (b_table b) m"
    if m: "m \<noteq> name" for m
    using box_frame [OF look [OF m] heap [OF m] _ handles service_invD(5) [OF inv]] files(1,2) [OF m] by simp
  have "box_lookup m (b_table b') \<noteq> None" if "a_names (b_afs b') m \<noteq> None" for m
    using that files(1,3) look service_invD(3) [OF inv, of m] by (cases "m = name") simp_all
  moreover have "\<exists>m. box_lookup m (b_table b') = Some p" if p: "heap (b_table b') p \<noteq> None" for p
  proof (cases "box_lookup name (b_table b') = Some p")
    case False
    then have o: "heap (b_table b) p \<noteq> None" "box_lookup name (b_table b) \<noteq> Some p" using new [OF p] by blast+
    then obtain m where "box_lookup m (b_table b) = Some p" using service_invD(4) [OF inv] by blast
    then show ?thesis using look [of m] o(2) by (cases "m = name") auto
  qed blast
  moreover have "box_ok (b_afs b') (b_table b') m" for m using frame [of m] ok(1) by (cases "m = name") simp_all
  ultimately show "service_inv b'" using b'(1) ok(2) trans [OF b'(2) service_invD(2) [OF inv]] unfolding service_inv_def by blast
  have "mailbox_of (b_afs b') (b_table b') = (mailbox_of (b_afs b) (b_table b))(name := mailbox_of (b_afs b') (b_table b') name)"
    using frame by auto
  then show "service_abs b' = \<lparr>s_boxes = (s_boxes (service_abs b))(name := mailbox_of (b_afs b') (b_table b') name),
        s_waiting = card (dom (a_handles (b_afs b')))\<rparr>"
    by (simp add: service_abs_def)
qed

text \<open>The box a request is about, given what its file and its counts are.\<close>

lemma box_now:
  assumes "box_lookup name t = Some p" and "heap t p = Some x" and "a_names a name = Some i" and "a_data a i = Some (concat ms)"
    and "whole ms" and "pub_num x = 0" and "box_size x = of_nat (1024 * length ms)" and "unat (sub_num x) \<le> card (dom (a_handles a))"
  shows "box_ok a t name" and "mailbox_of a t name = Some \<lparr>mb_messages = ms, mb_subs = unat (sub_num x)\<rparr>"
  using assms by (auto simp: box_ok_def mailbox_of_def)

lemma small_set_box [simp]: "small (set_box p y t) \<longleftrightarrow> small t"
  by (simp add: small_def)

section \<open>A worker that waits\<close>

text \<open>
  A handler between two turns is over, or follows a box: the box is in the table and has a
  subscriber, the handle is at the end of a message of the box's file, and the buffer is as
  it was before the first message.
\<close>

definition waits_ok :: "broker \<Rightarrow> handler \<Rightarrow> bool" where
  "waits_ok b w =
     (case w of
        Over v \<Rightarrow> True
      | Publishing p fd buffer \<Rightarrow> False
      | Subscribing tx p fd response \<Rightarrow> response = idle_response
          \<and> (\<exists>name h i k x. fd = int h \<and> box_lookup name (b_table b) = Some p \<and> heap (b_table b) p = Some x \<and> sub_num x \<noteq> 0
              \<and> a_names (b_afs b) name = Some i \<and> a_handles (b_afs b) h = Some (i, 1024 * k)
              \<and> 1024 * k \<le> length (the (a_data (b_afs b) i))))"

fun handle_of :: "handler \<Rightarrow> int option" where
  "handle_of (Subscribing tx p fd response) = Some fd"
| "handle_of _ = None"

text \<open>What a step has to leave alone for them: the other handles, and the boxes with subscribers.\<close>

definition keeps :: "int \<Rightarrow> broker \<Rightarrow> broker \<Rightarrow> bool" where
  "keeps fd b b' \<longleftrightarrow>
     (\<forall>h x. int h \<noteq> fd \<longrightarrow> a_handles (b_afs b) h = Some x \<longrightarrow> a_handles (b_afs b') h = Some x)
     \<and> (\<forall>name p x. box_lookup name (b_table b) = Some p \<longrightarrow> heap (b_table b) p = Some x \<longrightarrow> sub_num x \<noteq> 0 \<longrightarrow>
          box_lookup name (b_table b') = Some p \<and> (\<exists>y. heap (b_table b') p = Some y \<and> sub_num y \<noteq> 0)
          \<and> a_names (b_afs b') name = a_names (b_afs b) name
          \<and> (\<forall>i. a_names (b_afs b) name = Some i \<longrightarrow> length (the (a_data (b_afs b) i)) \<le> length (the (a_data (b_afs b') i))))"

lemma keeps_same: "b_table b' = b_table b \<Longrightarrow> b_afs b' = b_afs b \<Longrightarrow> keeps fd b b'"
  by (simp add: keeps_def)

lemma keeps_update:
  assumes look: "\<And>m. m \<noteq> name \<Longrightarrow> box_lookup m (b_table b') = box_lookup m (b_table b)"
    and heap: "\<And>m p. m \<noteq> name \<Longrightarrow> box_lookup m (b_table b) = Some p \<Longrightarrow> heap (b_table b') p = heap (b_table b) p"
    and files: "\<And>m. m \<noteq> name \<Longrightarrow> a_names (b_afs b') m = a_names (b_afs b) m"
      "\<And>m i. m \<noteq> name \<Longrightarrow> a_names (b_afs b) m = Some i \<Longrightarrow> a_data (b_afs b') i = a_data (b_afs b) i"
    and handles: "\<And>h x. int h \<noteq> fd \<Longrightarrow> a_handles (b_afs b) h = Some x \<Longrightarrow> a_handles (b_afs b') h = Some x"
    and own: "\<And>p x. box_lookup name (b_table b) = Some p \<Longrightarrow> heap (b_table b) p = Some x \<Longrightarrow> sub_num x \<noteq> 0 \<Longrightarrow>
        box_lookup name (b_table b') = Some p \<and> (\<exists>y. heap (b_table b') p = Some y \<and> sub_num y \<noteq> 0)
        \<and> a_names (b_afs b') name = a_names (b_afs b) name
        \<and> (\<forall>i. a_names (b_afs b) name = Some i \<longrightarrow> length (the (a_data (b_afs b) i)) \<le> length (the (a_data (b_afs b') i)))"
  shows "keeps fd b b'"
  unfolding keeps_def
proof (intro conjI allI impI)
  fix m p x assume m: "box_lookup m (b_table b) = Some p" "heap (b_table b) p = Some x" "sub_num x \<noteq> 0"
  show "box_lookup m (b_table b') = Some p" "\<exists>y. heap (b_table b') p = Some y \<and> sub_num y \<noteq> 0"
    "a_names (b_afs b') m = a_names (b_afs b) m"
    using own [of p x] look [of m] heap [of m p] files(1) [of m] m by (cases "m = name"; simp)+
  fix i assume "a_names (b_afs b) m = Some i"
  then show "length (the (a_data (b_afs b) i)) \<le> length (the (a_data (b_afs b') i))"
    using own [of p x] files(2) [of m i] m by (cases "m = name") simp_all
qed (rule handles)

lemma waits_kept:
  assumes inv: "service_inv b" "service_inv b'" and k: "keeps fd b b'" and w: "waits_ok b w" "handle_of w \<noteq> Some fd"
  shows "waits_ok b' w" and "activity_of b' w = activity_of b w"
proof -
  have "waits_ok b' w \<and> activity_of b' w = activity_of b w"
  proof (cases w)
    case (Subscribing tx p fd' response)
    then obtain name h i n x where x: "response = idle_response" "fd' = int h" "box_lookup name (b_table b) = Some p"
      "heap (b_table b) p = Some x" "sub_num x \<noteq> 0" "a_names (b_afs b) name = Some i" "a_handles (b_afs b) h = Some (i, 1024 * n)"
      "1024 * n \<le> length (the (a_data (b_afs b) i))"
      using w(1) by (auto simp: waits_ok_def)
    have h: "a_handles (b_afs b') h = Some (i, 1024 * n)" using k x(2,7) w(2) Subscribing unfolding keeps_def by simp
    have b': "box_lookup name (b_table b') = Some p" "\<exists>y. heap (b_table b') p = Some y \<and> sub_num y \<noteq> 0"
      "a_names (b_afs b') name = Some i" "length (the (a_data (b_afs b) i)) \<le> length (the (a_data (b_afs b') i))"
      using k x(3-6) unfolding keeps_def by metis+
    have "name_of (b_table b) p = name" "name_of (b_table b') p = name"
      using lookup_name [OF broker_invD(2) [OF service_invD(1) [OF inv(1)]] x(3)]
        lookup_name [OF broker_invD(2) [OF service_invD(1) [OF inv(2)]] b'(1)] by (auto simp: name_of_def)
    moreover have "waits_ok b' w"
      unfolding Subscribing waits_ok_def using x(1,2,8) h b' by (auto intro: order_trans)
    ultimately show ?thesis using h x(2,7) Subscribing by (simp add: activity_of_def)
  qed (use w(1) in \<open>simp_all add: waits_ok_def activity_of_def\<close>)
  then show "waits_ok b' w" "activity_of b' w = activity_of b w" by simp_all
qed

end
