(* ===== verification/Live_Inv.thy ===== *)
theory Live_Inv
  imports Live Service_Inv
begin

text \<open>
  The invariant of interleaved sessions: the boxes and their files as the publishers have left
  them, and for each session a handle of its own that stands where the session has got to.
  Every step of a session is run on it, which shows that none faults, and keeps it.
\<close>

section \<open>Invariant\<close>

fun pub_buffer :: "point \<Rightarrow> u8 list option" where
  "pub_buffer (Pub_Read buffer) = Some buffer"
| "pub_buffer (Pub_Broadcast wrote buffer) = Some buffer"
| "pub_buffer (Pub_Count wrote buffer) = Some buffer"
| "pub_buffer _ = None"

fun sub_buffer :: "point \<Rightarrow> u8 list option" where
  "sub_buffer (Sub_Read response) = Some response"
| "sub_buffer (Sub_Wait response) = Some response"
| "sub_buffer (Sub_Asleep response) = Some response"
| "sub_buffer (Sub_Send response) = Some response"
| "sub_buffer _ = None"

abbreviation is_pub :: "session \<Rightarrow> bool" where "is_pub x \<equiv> pub_buffer (ss_point x) \<noteq> None"
abbreviation is_sub :: "session \<Rightarrow> bool" where "is_sub x \<equiv> sub_buffer (ss_point x) \<noteq> None"
fun entering :: "point \<Rightarrow> u8 list option" where
  "entering (Pub_Open request) = Some request"
| "entering (Sub_Open request) = Some request"
| "entering _ = None"

fun closing :: "point \<Rightarrow> bool" where
  "closing (Closing v) = True"
| "closing _ = False"

fun waiting :: "point \<Rightarrow> bool" where
  "waiting (Sub_Wait response) = True"
| "waiting _ = False"

fun claiming :: "point \<Rightarrow> bool" where
  "claiming (Pub_Open request) = True"
| "claiming y = (pub_buffer y \<noteq> None)"

text \<open>The sessions that are the publisher of their box, and those whose file is open.\<close>

abbreviation claims :: "session \<Rightarrow> bool" where "claims x \<equiv> claiming (ss_point x)"

definition opened :: "session \<Rightarrow> bool" where
  "opened x \<longleftrightarrow> is_pub x \<or> is_sub x \<or> closing (ss_point x)"

abbreviation waits :: "session \<Rightarrow> bool" where "waits x \<equiv> waiting (ss_point x)"

lemma point_kinds:
  "pub_buffer y = Some buffer \<Longrightarrow> sub_buffer y = None \<and> claiming y \<and> \<not> closing y \<and> \<not> waiting y \<and> entering y = None"
  "sub_buffer y = Some response \<Longrightarrow> pub_buffer y = None \<and> \<not> claiming y \<and> \<not> closing y \<and> entering y = None"
  "waiting y \<longleftrightarrow> (\<exists>response. y = Sub_Wait response)"
  by (cases y; simp)+

lemma pub_claims: "pub_buffer y \<noteq> None \<Longrightarrow> claiming y"
  using point_kinds(1) by blast

text \<open>What a subscriber has taken from the file: one message may still be in its buffer.\<close>

definition taken :: "session \<Rightarrow> u8 list list" where
  "taken x = (case ss_point x of Sub_Send response \<Rightarrow> ss_sent x @ [response] | _ \<Rightarrow> ss_sent x)"

definition box_file :: "broker \<Rightarrow> addr \<Rightarrow> nat \<Rightarrow> bool" where
  "box_file b p i \<longleftrightarrow> (\<exists>name. box_lookup name (b_table b) = Some p \<and> a_names (b_afs b) name = Some i)"

definition asks_for :: "broker \<Rightarrow> u8 list \<Rightarrow> addr \<Rightarrow> bool" where
  "asks_for b request p \<longleftrightarrow> (\<exists>name. string_at 257 request = Inr name \<and> box_lookup name (b_table b) = Some p)"

text \<open>The messages in the file of a box: those it had at first, and those stored since, up to 100.\<close>

definition kept :: "(addr \<Rightarrow> u8 list list) \<Rightarrow> interleaved \<Rightarrow> addr \<Rightarrow> u8 list list" where
  "kept before s p = take message_limit (before p @ l_stored s p)"

text \<open>The handle of a session stands behind the first \<open>n\<close> messages of the file of its box.\<close>

definition stands :: "broker \<Rightarrow> session \<Rightarrow> nat \<Rightarrow> bool" where
  "stands b x n \<longleftrightarrow> (\<exists>i h. ss_fd x = int h \<and> box_file b (ss_box x) i \<and> a_handles (b_afs b) h = Some (i, 1024 * n))"

definition published :: "broker \<Rightarrow> addr \<Rightarrow> bool" where
  "published b p \<longleftrightarrow> (\<exists>z. heap (b_table b) p = Some z \<and> pub_num z = 1)"

text \<open>\<open>ms\<close> are the messages in the file of the session's box.\<close>

definition session_ok :: "broker \<Rightarrow> u8 list list \<Rightarrow> session \<Rightarrow> bool" where
  "session_ok b ms x \<longleftrightarrow>
     ss_sent x = map ((#) 10) (take (length (ss_sent x)) ms) \<and> (\<exists>i. box_file b (ss_box x) i)
     \<and> (\<forall>request. entering (ss_point x) = Some request \<longrightarrow> asks_for b request (ss_box x) \<and> ss_sent x = [])
     \<and> (claims x \<longrightarrow> published b (ss_box x)) \<and> (closing (ss_point x) \<longrightarrow> (\<exists>n. stands b x n))
     \<and> (is_pub x \<longrightarrow> length (the (pub_buffer (ss_point x))) = 1025 \<and> stands b x (length ms))
     \<and> (is_sub x \<longrightarrow> length (the (sub_buffer (ss_point x))) = 1025 \<and> the (sub_buffer (ss_point x)) ! 0 = 10
          \<and> taken x = map ((#) 10) (take (length (taken x)) ms) \<and> stands b x (length (taken x)))"

definition boxes_ok :: "broker \<Rightarrow> bool" where
  "boxes_ok b \<longleftrightarrow> fs_inv (b_fs b) \<and> boxes_inv (b_table b) \<and> box_names_ok (b_table b) \<and> backed (b_afs b) (b_table b)
     \<and> b_caps b = params_caps broker_params \<and> (\<forall>p z. heap (b_table b) p = Some z \<longrightarrow> pub_num z = 0 \<or> pub_num z = 1)"



text \<open>
  Two sessions with open files have two handles, two publishers two boxes, and the mutex of a
  box is held by one subscriber at most.
\<close>

definition apart :: "session \<Rightarrow> session \<Rightarrow> bool" where
  "apart x y \<longleftrightarrow> (opened x \<longrightarrow> opened y \<longrightarrow> ss_fd x \<noteq> ss_fd y)
     \<and> (claims x \<longrightarrow> claims y \<longrightarrow> ss_box x \<noteq> ss_box y) \<and> (waits x \<longrightarrow> waits y \<longrightarrow> ss_box x \<noteq> ss_box y)"

lemma apart_sym: "apart x y \<Longrightarrow> apart y x"
  unfolding apart_def by metis

definition live_inv :: "(addr \<Rightarrow> u8 list list) \<Rightarrow> interleaved \<Rightarrow> bool" where
  "live_inv before s \<longleftrightarrow> boxes_ok (l_broker s)
     \<and> (\<forall>p. whole (before p @ l_stored s p))
     \<and> (\<forall>p i. box_file (l_broker s) p i \<longrightarrow> a_data (b_afs (l_broker s)) i = Some (concat (kept before s p)))
     \<and> (\<forall>t x. l_sessions s t = Some x \<longrightarrow> session_ok (l_broker s) (kept before s (ss_box x)) x)
     \<and> (\<forall>t u x y. t \<noteq> u \<longrightarrow> l_sessions s t = Some x \<longrightarrow> l_sessions s u = Some y \<longrightarrow> apart x y)"

lemma live_invD:
  assumes "live_inv before s"
  shows "boxes_ok (l_broker s)" "whole (before p @ l_stored s p)"
    "box_file (l_broker s) p i \<Longrightarrow> a_data (b_afs (l_broker s)) i = Some (concat (kept before s p))"
    "l_sessions s t = Some x \<Longrightarrow> session_ok (l_broker s) (kept before s (ss_box x)) x"
    "t \<noteq> u \<Longrightarrow> l_sessions s t = Some x \<Longrightarrow> l_sessions s u = Some y \<Longrightarrow> apart x y"
  using assms by (simp_all add: live_inv_def)

lemma boxes_okD:
  assumes "boxes_ok b"
  shows "fs_inv (b_fs b)" "boxes_inv (b_table b)" "box_names_ok (b_table b)" "backed (b_afs b) (b_table b)"
    "b_caps b = params_caps broker_params" "heap (b_table b) p = Some z \<Longrightarrow> pub_num z = 0 \<or> pub_num z = 1"
  using assms by (simp_all add: boxes_ok_def)

lemma session_okD:
  assumes "session_ok b ms x"
  shows "ss_sent x = map ((#) 10) (take (length (ss_sent x)) ms)"
    "is_pub x \<Longrightarrow> length (the (pub_buffer (ss_point x))) = 1025" "is_pub x \<Longrightarrow> stands b x (length ms)"
    "claims x \<Longrightarrow> published b (ss_box x)"
    "is_sub x \<Longrightarrow> length (the (sub_buffer (ss_point x))) = 1025" "is_sub x \<Longrightarrow> the (sub_buffer (ss_point x)) ! 0 = 10"
    "is_sub x \<Longrightarrow> taken x = map ((#) 10) (take (length (taken x)) ms)" "is_sub x \<Longrightarrow> stands b x (length (taken x))"
    "\<exists>i. box_file b (ss_box x) i" "closing (ss_point x) \<Longrightarrow> \<exists>n. stands b x n"
    "entering (ss_point x) = Some request \<Longrightarrow> asks_for b request (ss_box x) \<and> ss_sent x = []"
  using assms unfolding session_ok_def by blast+

lemma whole_kept: "live_inv before s \<Longrightarrow> whole (kept before s p)"
  using live_invD(2) by (simp add: kept_def)

lemma length_kept: "length (kept before s p) \<le> 100"
  by (simp add: kept_def)

lemma length_file: "live_inv before s \<Longrightarrow> length (concat (kept before s p)) = 1024 * length (kept before s p)"
  by (rule length_concat_whole [OF whole_kept])

text \<open>One box, one file.\<close>

lemma box_file_inj:
  assumes ok: "boxes_ok b" and i: "box_file b p i"
  shows "box_file b q i \<longleftrightarrow> q = p" and "box_file b p j \<longleftrightarrow> j = i"
proof -
  obtain n where n: "box_lookup n (b_table b) = Some p" "a_names (b_afs b) n = Some i" using i unfolding box_file_def by blast
  have "q = p" if q: "box_file b q i"
  proof -
    obtain m where m: "box_lookup m (b_table b) = Some q" "a_names (b_afs b) m = Some i" using q unfolding box_file_def by blast
    have "m = n" by (rule a_names_inj [OF boxes_okD(1) [OF ok] m(2) n(2)])
    then show ?thesis using m(1) n(1) by simp
  qed
  then show "box_file b q i \<longleftrightarrow> q = p" using i by blast
  have "j = i" if j: "box_file b p j"
  proof -
    obtain m where m: "box_lookup m (b_table b) = Some p" "a_names (b_afs b) m = Some j" using j unfolding box_file_def by blast
    have "m = n" by (rule lookup_inj [OF boxes_okD(2) [OF ok] m(1) n(1)])
    then show ?thesis using m(2) n(2) by simp
  qed
  then show "box_file b p j \<longleftrightarrow> j = i" using i by blast
qed

section \<open>One session moves\<close>

text \<open>The names, the files behind them and the limits are those of before.\<close>

definition same_boxes :: "broker \<Rightarrow> broker \<Rightarrow> bool" where
  "same_boxes b b' \<longleftrightarrow> fs_inv (b_fs b') \<and> boxes_inv (b_table b') \<and> b_caps b' = b_caps b
     \<and> a_names (b_afs b') = a_names (b_afs b) \<and> (\<forall>m. box_lookup m (b_table b') = box_lookup m (b_table b))
     \<and> (\<forall>p z. heap (b_table b') p = Some z \<longrightarrow> pub_num z = 0 \<or> pub_num z = 1)"

lemma same_boxes_ok:
  assumes ok: "boxes_ok b" and same: "same_boxes b b'"
  shows "boxes_ok b'" and "box_file b' = box_file b" and "asks_for b' = asks_for b"
proof -
  have t: "\<And>m. box_lookup m (b_table b') = box_lookup m (b_table b)" "a_names (b_afs b') = a_names (b_afs b)"
    and i: "fs_inv (b_fs b')" "boxes_inv (b_table b')" "b_caps b' = b_caps b"
      "\<forall>p z. heap (b_table b') p = Some z \<longrightarrow> pub_num z = 0 \<or> pub_num z = 1"
    using same unfolding same_boxes_def by blast+
  show "box_file b' = box_file b" unfolding box_file_def fun_eq_iff t by simp
  show "asks_for b' = asks_for b" unfolding asks_for_def fun_eq_iff t by simp
  have "box_names_ok (b_table b')"
    using boxes_okD(3) [OF ok] unfolding names_ok_lookup [OF i(2)] names_ok_lookup [OF boxes_okD(2) [OF ok]] t .
  moreover have "backed (b_afs b') (b_table b')" using boxes_okD(4) [OF ok] unfolding backed_def t .
  moreover have "b_caps b' = params_caps broker_params" using i(3) boxes_okD(5) [OF ok] by (rule trans)
  ultimately show "boxes_ok b'" using i(1,2,4) unfolding boxes_ok_def by blast
qed

lemma prefix_grows:
  assumes "zs = map f (take (length zs) ms)" and "ms = take k ms'"
  shows "zs = map f (take (length zs) ms')"
proof -
  have "length zs \<le> length ms" using assms(1) by (metis length_map length_take min.cobounded1)
  then have "take (length zs) ms' = take (length zs) ms" using assms(2) by simp
  then show ?thesis using assms(1) by simp
qed

text \<open>
  What a session sees of another one's step: its handle stays where it is, its box keeps its
  publisher, and nobody else stores a message in the box it publishes to.
\<close>

definition undisturbed :: "broker \<Rightarrow> broker \<Rightarrow> addr \<Rightarrow> u8 list list \<Rightarrow> session \<Rightarrow> bool" where
  "undisturbed b b' p new y \<longleftrightarrow>
     (\<forall>h. opened y \<longrightarrow> ss_fd y = int h \<longrightarrow> a_handles (b_afs b') h = a_handles (b_afs b) h)
     \<and> (claims y \<longrightarrow> published b (ss_box y) \<longrightarrow> published b' (ss_box y)) \<and> (is_pub y \<longrightarrow> ss_box y = p \<longrightarrow> new = [])"

lemma session_frame:
  assumes ok: "session_ok b ms y" and same: "same_boxes b b'" "boxes_ok b" and und: "undisturbed b b' p new y"
    and msgs: "ms = take k ms'" "new = [] \<or> ss_box y \<noteq> p \<Longrightarrow> ms' = ms"
  shows "session_ok b' ms' y"
proof -
  note d = session_okD [OF ok] and sb = same_boxes_ok [OF same(2,1)]
  have st: "stands b' y n" if "opened y" "stands b y n" for n
    using that und unfolding stands_def undisturbed_def sb(2) by metis
  show ?thesis
    unfolding session_ok_def
  proof (intro conjI impI allI)
    show "ss_sent y = map ((#) 10) (take (length (ss_sent y)) ms')" by (rule prefix_grows [OF d(1) msgs(1)])
    show "\<exists>i. box_file b' (ss_box y) i" unfolding sb(2) by (rule d(9))
  next
    fix request assume "entering (ss_point y) = Some request"
    from d(11) [OF this] show "asks_for b' request (ss_box y)" "ss_sent y = []" by (simp_all add: sb(3))
  next
    assume "claims y"
    then show "published b' (ss_box y)" using d(4) und by (simp add: undisturbed_def)
  next
    assume "closing (ss_point y)"
    then show "\<exists>n. stands b' y n" using d(10) st by (auto simp: opened_def)
  next
    assume y: "is_pub y"
    show "length (the (pub_buffer (ss_point y))) = 1025" using d(2) [OF y] .
    have "ms' = ms" using msgs(2) und y by (auto simp: undisturbed_def)
    then show "stands b' y (length ms')" using st d(3) [OF y] y by (simp add: opened_def)
  next
    assume y: "is_sub y"
    show "length (the (sub_buffer (ss_point y))) = 1025" "the (sub_buffer (ss_point y)) ! 0 = 10" using d(5,6) [OF y] by simp_all
    show "taken y = map ((#) 10) (take (length (taken y)) ms')" by (rule prefix_grows [OF d(7) [OF y] msgs(1)])
    show "stands b' y (length (taken y))" using st d(8) [OF y] y by (simp add: opened_def)
  qed
qed

text \<open>The files after a step that stores \<open>new\<close> in the file of \<open>p\<close>.\<close>

lemma kept_stored:
  assumes "l_stored s' = (l_stored s)(p := l_stored s p @ new)"
  shows "kept before s' q = (if q = p then take message_limit (before p @ l_stored s p @ new) else kept before s q)"
    and "kept before s q = take (length (before q @ l_stored s q)) (kept before s' q)"
    and "new = [] \<or> q \<noteq> p \<Longrightarrow> kept before s' q = kept before s q"
proof -
  show kept': "kept before s' q = (if q = p then take message_limit (before p @ l_stored s p @ new) else kept before s q)"
    by (simp add: kept_def assms)
  then show "new = [] \<or> q \<noteq> p \<Longrightarrow> kept before s' q = kept before s q" by (auto simp: kept_def)
  show "kept before s q = take (length (before q @ l_stored s q)) (kept before s' q)"
  proof (cases "q = p")
    case True
    have "take (length zs) (take k (zs @ new)) = take k zs" for zs k
      by (metis append_eq_conv_conj take_take min.commute)
    from this [of "before p @ l_stored s p"] show ?thesis
      unfolding kept' using True by (simp only: kept_def append_assoc simp_thms if_True)
  next
    case False
    then have "kept before s' q = kept before s q" by (simp only: kept' if_False)
    moreover have "length (kept before s q) \<le> length (before q @ l_stored s q)" by (simp add: kept_def)
    ultimately show ?thesis by (simp only: take_all)
  qed
qed

text \<open>A step of the session of thread \<open>t\<close>, which may be new: it is \<open>x'\<close> afterwards.\<close>

lemma live_update:
  assumes inv: "live_inv before s" and same: "same_boxes (l_broker s) b'"
    and others: "\<And>u y. u \<noteq> t \<Longrightarrow> l_sessions s u = Some y \<Longrightarrow> undisturbed (l_broker s) b' p new y \<and> apart x' y"
    and new: "whole new"
    and data: "\<And>i. \<not> box_file (l_broker s) p i \<Longrightarrow> a_data (b_afs b') i = a_data (b_afs (l_broker s)) i"
      "\<And>i. box_file (l_broker s) p i \<Longrightarrow>
        a_data (b_afs b') i = Some (concat (take message_limit (before p @ l_stored s p @ new)))"
    and x': "session_ok b' (take message_limit (before p @ l_stored s p @ new)) x'"
    and p: "ss_box x' = p" and s': "l_broker s' = b'" "l_sessions s' = (l_sessions s)(t \<mapsto> x')"
      "l_stored s' = (l_stored s)(p := l_stored s p @ new)"
  shows "live_inv before s'"
proof -
  let ?b = "l_broker s"
  note d = live_invD [OF inv] and sb = same_boxes_ok [OF live_invD(1) [OF inv] same] and k = kept_stored [OF s'(3), where before = before]
  have "session_ok b' (kept before s' (ss_box y)) y" if y: "l_sessions s' u = Some y" for u y
  proof (cases "u = t")
    case True
    then have "y = x'" using y s'(2) by simp
    then show ?thesis using x' p by (simp add: k(1))
  next
    case False
    then have y': "l_sessions s u = Some y" using y s'(2) by simp
    show ?thesis
      by (rule session_frame [OF d(4) [OF y'] same d(1) _ k(2,3)]) (use others [OF False y'] in auto)
  qed
  moreover have "whole (before q @ l_stored s' q)" for q
    using d(2) [of q] new by (cases "q = p") (simp_all add: s'(3))
  moreover have "a_data (b_afs b') i = Some (concat (kept before s' q))" if i: "box_file b' q i" for q i
  proof (cases "q = p")
    case True
    then show ?thesis using data(2) i by (simp add: k(1) sb(2))
  next
    case False
    then have "\<not> box_file ?b p i" using box_file_inj(1) [OF d(1)] i unfolding sb(2) by metis
    then show ?thesis using data(1) d(3) i False by (simp add: k(1) sb(2))
  qed
  moreover have "apart y z" if a: "u \<noteq> v" "l_sessions s' u = Some y" "l_sessions s' v = Some z" for u v y z
    using a d(5) [OF a(1)] others [of u y] others [of v z] apart_sym [of x' y] unfolding s'(2)
    by (cases "u = t"; cases "v = t") auto
  ultimately show ?thesis using sb(1) unfolding live_inv_def s'(1) by blast
qed

text \<open>
  A step of a session whose handle stays its own and whose box stays what it is: others are
  undisturbed.
\<close>

lemma others_apart:
  assumes inv: "live_inv before s" and x: "l_sessions s t = Some x"
    and handles: "\<And>h. \<not> (opened x \<and> ss_fd x = int h) \<Longrightarrow> a_handles (b_afs b') h = a_handles (b_afs (l_broker s)) h"
    and heaps: "\<And>q. q \<noteq> ss_box x \<Longrightarrow> heap (b_table b') q = heap (b_table (l_broker s)) q"
    and pubs: "claims x \<or> (published (l_broker s) (ss_box x) \<longrightarrow> published b' (ss_box x))"
    and new: "new = [] \<or> is_pub x"
    and free: "waits x' \<Longrightarrow> \<not> held (ss_box x) s"
    and x': "ss_box x' = ss_box x" "opened x' \<Longrightarrow> opened x \<and> ss_fd x' = ss_fd x" "claims x' \<Longrightarrow> claims x"
    and y: "u \<noteq> t" "l_sessions s u = Some y"
  shows "undisturbed (l_broker s) b' (ss_box x') new y \<and> apart x' y"
proof
  have ap: "apart x y" by (rule live_invD(5) [OF inv y(1) [symmetric] x y(2)])
  have "waits y \<Longrightarrow> ss_box y = ss_box x \<Longrightarrow> held (ss_box x) s" using y(2) by (auto simp: held_def point_kinds(3))
  then show "apart x' y" using ap free x' unfolding apart_def by metis
  have "published b' (ss_box y)" if "claims y" "published (l_broker s) (ss_box y)"
  proof (cases "ss_box y = ss_box x")
    case True
    then show ?thesis using ap that pubs unfolding apart_def by metis
  next
    case False
    then show ?thesis using that(2) heaps [OF False] by (simp add: published_def)
  qed
  moreover have "new = []" if "is_pub y" "ss_box y = ss_box x"
    using ap new that pub_claims unfolding apart_def by metis
  moreover have "a_handles (b_afs b') h = a_handles (b_afs (l_broker s)) h" if "opened y" "ss_fd y = int h" for h
    by (rule handles) (use ap that in \<open>auto simp: apart_def\<close>)
  ultimately show "undisturbed (l_broker s) b' (ss_box x') new y"
    unfolding undisturbed_def x'(1) by blast
qed

end
