(* ===== verification/Live_Steps.thy ===== *)
theory Live_Steps
  imports Live_Inv
begin

text \<open>
  Every section of a session runs to its end from a state of the invariant of \<open>Live_Inv\<close>,
  whatever bytes a publisher has sent and whatever the write to a subscriber gives, and the
  invariant holds again; so do the steps between the sections.
\<close>

section \<open>The broker after a section\<close>

definition same_table :: "addr \<Rightarrow> box_table \<Rightarrow> box_table \<Rightarrow> bool" where
  "same_table p t t' \<longleftrightarrow> t' = t \<or> (\<exists>w z. heap t p = Some w \<and> file_name z = file_name w
     \<and> (pub_num z = 0 \<or> pub_num z = 1) \<and> t' = set_box p z t)"

lemma same_table_set:
  "heap t p = Some w \<Longrightarrow> file_name z = file_name w \<Longrightarrow> pub_num z = 0 \<or> pub_num z = 1 \<Longrightarrow> same_table p t (set_box p z t)"
  by (auto simp: same_table_def)

lemma same_boxesI:
  assumes ok: "boxes_ok b" and u: "fs_inv u" "fs_caps u = b_caps b" "a_names (fs_abs u) = a_names (b_afs b)"
    and t: "same_table p (b_table b) t"
  shows "same_boxes b \<lparr>b_fs = u, b_table = t\<rparr>"
proof (cases "t = b_table b")
  case True
  then show ?thesis using boxes_okD [OF ok] u by (simp add: same_boxes_def)
next
  case False
  then obtain w z where z: "heap (b_table b) p = Some w" "file_name z = file_name w" "pub_num z = 0 \<or> pub_num z = 1"
    "t = set_box p z (b_table b)"
    using t unfolding same_table_def by blast
  then show ?thesis
    using boxes_okD(6) [OF ok] u set_box_inv [OF boxes_okD(2) [OF ok] z(1,2)] by (simp add: same_boxes_def)
qed

text \<open>A step that stores no message.\<close>

lemma live_sets:
  assumes inv: "live_inv before s"
    and u: "fs_inv u" "fs_caps u = b_caps (l_broker s)" "a_names (fs_abs u) = a_names (b_afs (l_broker s))"
      "a_data (fs_abs u) = a_data (b_afs (l_broker s))"
    and tab: "same_table (ss_box x') (b_table (l_broker s)) tab"
    and others: "\<And>v y. v \<noteq> t \<Longrightarrow> l_sessions s v = Some y \<Longrightarrow>
      undisturbed (l_broker s) \<lparr>b_fs = u, b_table = tab\<rparr> (ss_box x') [] y \<and> apart x' y"
    and x': "session_ok \<lparr>b_fs = u, b_table = tab\<rparr> (kept before s (ss_box x')) x'"
  shows "live_inv before (s\<lparr>l_broker := \<lparr>b_fs = u, b_table = tab\<rparr>, l_sessions := (l_sessions s)(t \<mapsto> x')\<rparr>)"
proof (rule live_update [OF inv same_boxesI [OF live_invD(1) [OF inv] u(1-3) tab] others])
  show "session_ok \<lparr>b_fs = u, b_table = tab\<rparr> (take message_limit (before (ss_box x') @ l_stored s (ss_box x') @ [])) x'"
    using x' by (simp only: kept_def append_Nil2)
  show "a_data (b_afs \<lparr>b_fs = u, b_table = tab\<rparr>) i
      = Some (concat (take message_limit (before (ss_box x') @ l_stored s (ss_box x') @ [])))"
    if "box_file (l_broker s) (ss_box x') i" for i
    using live_invD(3) [OF inv that] u(4) by (simp add: kept_def)
qed (use u in simp_all)

lemma live_goes:
  assumes inv: "live_inv before s" and x: "l_sessions s t = Some x"
    and u: "fs_inv u" "fs_caps u = b_caps (l_broker s)" "a_names (fs_abs u) = a_names (b_afs (l_broker s))"
      "a_data (fs_abs u) = a_data (b_afs (l_broker s))"
      "\<And>h. \<not> (opened x \<and> ss_fd x = int h) \<Longrightarrow> a_handles (fs_abs u) h = a_handles (b_afs (l_broker s)) h"
    and tab: "same_table (ss_box x) (b_table (l_broker s)) tab"
    and pubs: "claims x \<or> (published (l_broker s) (ss_box x) \<longrightarrow> published \<lparr>b_fs = u, b_table = tab\<rparr> (ss_box x))"
    and free: "waits x' \<Longrightarrow> \<not> held (ss_box x) s"
    and x': "ss_box x' = ss_box x" "opened x' \<Longrightarrow> opened x \<and> ss_fd x' = ss_fd x" "claims x' \<Longrightarrow> claims x"
      "session_ok \<lparr>b_fs = u, b_table = tab\<rparr> (kept before s (ss_box x)) x'"
  shows "live_inv before (s\<lparr>l_broker := \<lparr>b_fs = u, b_table = tab\<rparr>, l_sessions := (l_sessions s)(t \<mapsto> x')\<rparr>)"
proof (rule live_sets [OF inv u(1-4)])
  show "undisturbed (l_broker s) \<lparr>b_fs = u, b_table = tab\<rparr> (ss_box x') [] y \<and> apart x' y" if "v \<noteq> t" "l_sessions s v = Some y" for v y
    by (rule others_apart [OF inv x _ _ pubs _ free x'(1-3) that])
      (use u(5) tab in \<open>auto simp: same_table_def\<close>)
qed (use tab x'(1,4) in simp_all)

text \<open>A session that leaves its loop, and one that is over.\<close>

lemma session_leaves:
  assumes "session_ok b ms x" and "box_file b' = box_file b"
  shows "session_ok b' ms (x\<lparr>ss_point := Returned v\<rparr>)"
    and "stands b' x n \<Longrightarrow> session_ok b' ms (x\<lparr>ss_point := Closing v\<rparr>)"
proof -
  note d = session_okD(1,9) [OF assms(1)]
  show "session_ok b' ms (x\<lparr>ss_point := Returned v\<rparr>)" using d assms(2) by (simp add: session_ok_def)
  show "session_ok b' ms (x\<lparr>ss_point := Closing v\<rparr>)" if "stands b' x n"
    using d assms(2) that unfolding session_ok_def stands_def by auto
qed

text \<open>Closing the handle of a session.\<close>

lemma close_here:
  assumes "fs_inv s" and "a_handles (fs_abs s) h = Some e"
  shows "\<exists>u. tfs_close mutex_ok (int h) s = Inr (0, u) \<and> fs_inv u \<and> fs_caps u = fs_caps s
    \<and> fs_abs u = (fs_abs s)\<lparr>a_handles := (a_handles (fs_abs s))(h := None)\<rparr>"
proof -
  obtain r u where u: "tfs_close mutex_ok (int h) s = Inr (r, u)" "fs_inv u" "fs_caps u = fs_caps s" "a_close (int h) (fs_abs s) = (r, fs_abs u)"
    using sim_close [OF assms(1)] by blast
  then show ?thesis using a_close_open [OF assms(2)] by simp
qed

lemma live_closes:
  assumes inv: "live_inv before s" and e: "calm e" and x: "l_sessions s t = Some x" "ss_point x = Closing v"
  shows "\<exists>y b. session_close e c (ss_fd x) v (l_broker s) = Inr (y, b) \<and> live_inv before (goes t x y b s)"
proof -
  let ?b = "l_broker s"
  note bok = live_invD(1) [OF inv] and ok = live_invD(4) [OF inv x(1)]
  obtain n i h where h: "ss_fd x = int h" "a_handles (b_afs ?b) h = Some (i, 1024 * n)"
    using session_okD(10) [OF ok] x(2) unfolding stands_def by auto
  obtain u where u: "tfs_close mutex_ok (ss_fd x) (b_fs ?b) = Inr (0, u)" "fs_inv u" "fs_caps u = b_caps ?b"
    "fs_abs u = (b_afs ?b)\<lparr>a_handles := (a_handles (b_afs ?b))(h := None)\<rparr>"
    using close_here [OF boxes_okD(1) [OF bok] h(2)] h(1) by auto
  have tab: "same_table (ss_box x) (b_table ?b) (b_table ?b)" by (simp add: same_table_def)
  have "live_inv before (goes t x (Returned v) \<lparr>b_fs = u, b_table = b_table ?b\<rparr> s)"
    unfolding goes_def
  proof (rule live_goes [OF inv x(1) u(2,3)])
    show "session_ok \<lparr>b_fs = u, b_table = b_table ?b\<rparr> (kept before s (ss_box x)) (x\<lparr>ss_point := Returned v\<rparr>)"
      by (rule session_leaves(1) [OF ok same_boxes_ok(2) [OF bok same_boxesI [OF bok u(2,3) _ tab]]]) (simp add: u(4))
  qed (use u(4) tab x(2) h(1) in \<open>auto simp: published_def opened_def\<close>)
  moreover have "session_close e c (ss_fd x) v ?b = Inr (Returned v, \<lparr>b_fs = u, b_table = b_table ?b\<rparr>)"
    using u(1) calmD [OF e] by (cases ?b) (simp add: session_close_def)
  ultimately show ?thesis by blast
qed

text \<open>An error in the loop leaves the broker as it is.\<close>

lemma live_fails:
  assumes inv: "live_inv before s" and x: "l_sessions s t = Some x" "opened x"
  shows "live_inv before (goes t x (Closing v) (l_broker s) s)"
proof -
  let ?b = "l_broker s"
  note bok = live_invD(1) [OF inv] and ok = live_invD(4) [OF inv x(1)]
  have b: "?b = \<lparr>b_fs = b_fs ?b, b_table = b_table ?b\<rparr>" by (cases ?b) simp
  obtain n where "stands ?b x n" using x(2) session_okD(3,8,10) [OF ok] unfolding opened_def by blast
  from session_leaves(2) [OF ok refl this]
  have "live_inv before (s\<lparr>l_broker := \<lparr>b_fs = b_fs ?b, b_table = b_table ?b\<rparr>, l_sessions := (l_sessions s)(t \<mapsto> x\<lparr>ss_point := Closing v\<rparr>)\<rparr>)"
    by (intro live_goes [OF inv x(1) boxes_okD(1) [OF bok]]) (use x(2) in \<open>simp_all add: same_table_def opened_def flip: b\<close>)
  then show ?thesis by (simp add: goes_def flip: b)
qed

section \<open>Publishers\<close>

text \<open>A file of the broker is one of 63, so that a free block is never missing.\<close>

lemma writable_live:
  assumes "boxes_ok b"
  shows "writable (b_caps b) d (b_afs b)"
proof -
  have "a_filled (b_afs b) \<subseteq> {1..<64}"
    using data_named [OF boxes_okD(1) [OF assms]] boxes_okD(5) [OF assms] broker_caps(2) by (fastforce simp: a_filled_def)
  from card_mono [OF _ this] have "card (a_filled (b_afs b)) \<le> 63" by simp
  then show ?thesis using boxes_okD(5) [OF assms] broker_caps(4) by (simp add: writable_def)
qed

lemma publisher_where:
  assumes inv: "live_inv before s" and x: "l_sessions s t = Some x" "is_pub x"
  shows "\<exists>i h z. ss_fd x = int h \<and> box_file (l_broker s) (ss_box x) i
    \<and> a_handles (b_afs (l_broker s)) h = Some (i, length (concat (kept before s (ss_box x))))
    \<and> heap (b_table (l_broker s)) (ss_box x) = Some z \<and> pub_num z = 1"
  using session_okD(3,4) [OF live_invD(4) [OF inv x(1)]] x(2) pub_claims length_file [OF inv, of "ss_box x"]
  unfolding stands_def published_def by auto

text \<open>Its buffer may change at will.\<close>

lemma publisher_stays:
  assumes inv: "live_inv before s" and x: "l_sessions s t = Some x" "is_pub x"
    and y: "pub_buffer y = Some buffer" "length buffer = 1025"
    and tab: "same_table (ss_box x) (b_table (l_broker s)) tab" "published \<lparr>b_fs = b_fs (l_broker s), b_table = tab\<rparr> (ss_box x)"
  shows "live_inv before (goes t x y ((l_broker s)\<lparr>b_table := tab\<rparr>) s)"
proof -
  note ns = point_kinds(1) [OF y(1)]
  have b: "(l_broker s)\<lparr>b_table := tab\<rparr> = \<lparr>b_fs = b_fs (l_broker s), b_table = tab\<rparr>" by (cases "l_broker s") simp
  note ok = session_okD [OF live_invD(4) [OF inv x(1)]] and bok = live_invD(1) [OF inv]
  have same: "box_file \<lparr>b_fs = b_fs (l_broker s), b_table = tab\<rparr> = box_file (l_broker s)"
    by (rule same_boxes_ok(2) [OF bok same_boxesI [OF bok boxes_okD(1) [OF bok] refl refl tab(1)]])
  show ?thesis
    unfolding goes_def b
  proof (rule live_goes [OF inv x(1) boxes_okD(1) [OF bok] refl refl refl refl tab(1)])
    show "session_ok \<lparr>b_fs = b_fs (l_broker s), b_table = tab\<rparr> (kept before s (ss_box x)) (x\<lparr>ss_point := y\<rparr>)"
      using ok(1,9) ok(3) [OF x(2)] y tab(2) ns by (simp add: session_ok_def stands_def same)
  qed (use x(2) ns pub_claims in \<open>auto simp: opened_def\<close>)
qed

lemma pub_counts_live:
  assumes inv: "live_inv before s" and e: "calm e" and x: "l_sessions s t = Some x" "ss_point x = Pub_Count wrote buffer"
  shows "\<exists>y b. pub_count e c (ss_box x) wrote buffer (l_broker s) = Inr (y, b) \<and> live_inv before (goes t x y b s)"
proof -
  have p: "is_pub x" "length buffer = 1025" using session_okD(2) [OF live_invD(4) [OF inv x(1)]] x(2) by simp_all
  obtain z where z: "heap (b_table (l_broker s)) (ss_box x) = Some z" "pub_num z = 1" using publisher_where [OF inv x(1) p(1)] by blast
  let ?t = "set_box (ss_box x) (z\<lparr>box_size := box_size z + of_int wrote\<rparr>) (b_table (l_broker s))"
  let ?y = "Pub_Read (patch 1 (replicate 1024 0) buffer)"
  have "pub_count e c (ss_box x) wrote buffer (l_broker s) = Inr (?y, (l_broker s)\<lparr>b_table := ?t\<rparr>)"
    using z(1) calmD [OF e] by (simp add: pub_count_def deref_def Let_def set_box_def)
  moreover have "live_inv before (goes t x ?y ((l_broker s)\<lparr>b_table := ?t\<rparr>) s)"
    by (rule publisher_stays [OF inv x(1) p(1), where buffer = "patch 1 (replicate 1024 0) buffer"])
      (use z p(2) in \<open>simp_all add: same_table_set published_def\<close>)
  ultimately show ?thesis by blast
qed

text \<open>A message goes into the file.\<close>

lemma live_stores:
  assumes inv: "live_inv before s" and x: "l_sessions s t = Some x" "is_pub x" and m: "length m = 1024"
    and y: "\<And>n. pub_buffer (y n) = Some buffer" "length buffer = 1025"
  shows "\<exists>n u. tfs_write mutex_ok (ss_fd x) m 1024 (b_fs (l_broker s)) = Inr (int n, u)
    \<and> live_inv before (s\<lparr>l_broker := (l_broker s)\<lparr>b_fs := u\<rparr>, l_sessions := (l_sessions s)(t \<mapsto> x\<lparr>ss_point := y (int n)\<rparr>),
        l_stored := (l_stored s)(ss_box x := l_stored s (ss_box x) @ [m])\<rparr>)"
proof -
  let ?b = "l_broker s" and ?p = "ss_box x"
  let ?ms = "kept before s ?p" and ?new = "take message_limit (before ?p @ l_stored s ?p @ [m])"
  note bok = live_invD(1) [OF inv] and ok = session_okD [OF live_invD(4) [OF inv x(1)]]
  obtain i h z where h: "ss_fd x = int h" "box_file ?b ?p i" "a_handles (b_afs ?b) h = Some (i, length (concat ?ms))"
    "heap (b_table ?b) ?p = Some z" "pub_num z = 1"
    using publisher_where [OF inv x] by blast
  note dat = live_invD(3) [OF inv h(2)]
  have caps: "c_bsize (b_caps ?b) = 102400" using boxes_okD(5) [OF bok] broker_caps(1) by simp
  have fit: "length (concat ?ms) \<le> c_bsize (b_caps ?b)" by (rule file_fits [OF boxes_okD(1) [OF bok] dat])
  obtain r u where u: "tfs_write mutex_ok (ss_fd x) m 1024 (b_fs ?b) = Inr (r, u)" "fs_inv u" "fs_caps u = b_caps ?b"
    "a_write (b_caps ?b) (ss_fd x) m (b_afs ?b) = (r, fs_abs u)"
    using sim_write [OF boxes_okD(1) [OF bok] m] by blast
  have "take k (take k zs @ [m]) = take k (zs @ [m])" for k zs by (cases "length zs \<le> k") simp_all
  from this [of message_limit "before ?p @ l_stored s ?p"]
  have new: "take message_limit (?ms @ [m]) = ?new" by (simp only: kept_def append_assoc)
  have w: "whole ?ms" "whole ?new" using whole_kept [OF inv] live_invD(2) [OF inv, of ?p] m by simp_all
  have app: "appended (b_caps ?b) (concat ?ms) m = concat ?new"
    unfolding new [symmetric] using appended_messages [OF w(1) _ caps, of "[m]"] m by (simp del: take_append service_limits)
  have r: "r = int (length (concat ?new) - length (concat ?ms))" "fs_abs u = put_data i (concat ?new) h (b_afs ?b)"
    using u(4) a_write_append [OF h(3) dat fit writable_live [OF bok], of m] unfolding h(1) app by simp_all
  have same: "same_boxes ?b (?b\<lparr>b_fs := u\<rparr>)"
    using same_boxesI [OF bok u(2,3), of ?p "b_table ?b"] r(2) by (cases ?b) (simp add: same_table_def)
  note bf = same_boxes_ok(2) [OF bok same]
  note ns = point_kinds(1) [OF y(1)]
  have lens: "length (concat ?new) = 1024 * length ?new" by (rule length_concat_whole [OF w(2)])
  have grows: "?ms = take (length (before ?p @ l_stored s ?p)) ?new"
  proof -
    have "take k zs = take (length zs) (take k (zs @ [m]))" for k and zs :: "u8 list list"
      by (metis append_eq_conv_conj take_take min.commute)
    from this [of message_limit "before ?p @ l_stored s ?p"] show ?thesis by (simp only: kept_def append_assoc)
  qed
  have "live_inv before (s\<lparr>l_broker := ?b\<lparr>b_fs := u\<rparr>, l_sessions := (l_sessions s)(t \<mapsto> x\<lparr>ss_point := y r\<rparr>),
        l_stored := (l_stored s)(?p := l_stored s ?p @ [m])\<rparr>)"
  proof (rule live_update [OF inv same, where new = "[m]"])
    show "undisturbed ?b (?b\<lparr>b_fs := u\<rparr>) ?p [m] v \<and> apart (x\<lparr>ss_point := y r\<rparr>) v"
      if "w \<noteq> t" "l_sessions s w = Some v" for w v
      using others_apart [OF inv x(1) _ _ _ _ _ _ _ _ that, of "?b\<lparr>b_fs := u\<rparr>" "[m]" "x\<lparr>ss_point := y r\<rparr>"]
        x(2) ns pub_claims h(1) by (auto simp: r(2) opened_def published_def)
    show "session_ok (?b\<lparr>b_fs := u\<rparr>) ?new (x\<lparr>ss_point := y r\<rparr>)"
      using prefix_grows [OF ok(1) grows] ok(9) y ns h(1,2,4,5) lens
      unfolding session_ok_def stands_def bf by (simp add: published_def r(2))
    show "a_data (b_afs (?b\<lparr>b_fs := u\<rparr>)) j = a_data (b_afs ?b) j" if "\<not> box_file ?b ?p j" for j
      using that h(2) by (cases "j = i") (simp_all add: r(2))
    show "a_data (b_afs (?b\<lparr>b_fs := u\<rparr>)) j = Some (concat ?new)" if "box_file ?b ?p j" for j
      using that box_file_inj(2) [OF bok h(2)] by (simp add: r(2))
  qed (use x(2) m y ns in simp_all)
  then show ?thesis using u(1) unfolding r(1) by blast
qed

lemma pub_ends_live:
  assumes inv: "live_inv before s" and e: "calm e" and x: "l_sessions s t = Some x" "is_pub x"
  shows "\<exists>tab. box_unregister_pub (e_box e c) (Some (ss_box x)) (b_table (l_broker s)) = Inr (0, tab)
    \<and> live_inv before (goes t x (Closing 0) ((l_broker s)\<lparr>b_table := tab\<rparr>) s)"
proof -
  let ?b = "l_broker s"
  note bok = live_invD(1) [OF inv] and ok = live_invD(4) [OF inv x(1)]
  obtain i h z where h: "ss_fd x = int h" "box_file ?b (ss_box x) i"
    "a_handles (b_afs ?b) h = Some (i, length (concat (kept before s (ss_box x))))" "heap (b_table ?b) (ss_box x) = Some z" "pub_num z = 1"
    using publisher_where [OF inv x] by blast
  let ?t = "set_box (ss_box x) (z\<lparr>pub_num := 0\<rparr>) (b_table ?b)"
  have b: "?b\<lparr>b_table := ?t\<rparr> = \<lparr>b_fs = b_fs ?b, b_table = ?t\<rparr>" by (cases ?b) simp
  have tab: "same_table (ss_box x) (b_table ?b) ?t" by (rule same_table_set [OF h(4)]) simp_all
  have same: "box_file \<lparr>b_fs = b_fs ?b, b_table = ?t\<rparr> = box_file ?b"
    by (rule same_boxes_ok(2) [OF bok same_boxesI [OF bok boxes_okD(1) [OF bok] refl refl tab]])
  have st: "stands \<lparr>b_fs = b_fs ?b, b_table = ?t\<rparr> x (length (kept before s (ss_box x)))"
    using session_okD(3) [OF ok x(2)] unfolding stands_def same by simp
  have "live_inv before (goes t x (Closing 0) (?b\<lparr>b_table := ?t\<rparr>) s)"
    unfolding goes_def b
    by (rule live_goes [OF inv x(1) boxes_okD(1) [OF bok] refl refl refl refl tab])
      (use x(2) pub_claims session_leaves(2) [OF ok same st, of 0] in \<open>auto simp: opened_def\<close>)
  moreover have "box_unregister_pub (e_box e c) (Some (ss_box x)) (b_table ?b) = Inr (0, ?t)"
    using box_unregister_pub_eq [OF h(4)] h(5) calmD [OF e] by simp
  ultimately show ?thesis by blast
qed

lemma pub_reads_live:
  assumes inv: "live_inv before s" and e: "calm e" and x: "l_sessions s t = Some x" "ss_point x = Pub_Read buffer"
  shows "\<exists>y b. pub_receive e c (ss_box x) (ss_fd x) r buffer (l_broker s) = Inr (y, b)
    \<and> live_inv before (recorded (ss_box x) y (goes t x y b s))"
proof -
  have p: "is_pub x" "length buffer = 1025" using session_okD(2) [OF live_invD(4) [OF inv x(1)]] x(2) by simp_all
  obtain bytes where bytes: "take PUBLISHER_BUFFER_SIZE (case r of None \<Rightarrow> [] | Some bs \<Rightarrow> bs) = bytes" by blast
  obtain buffer' where buffer': "patch 0 bytes buffer = buffer'" by blast
  have l: "length buffer' = 1025" "length (drop 1 buffer') = 1024" using p(2) by (simp_all flip: buffer' bytes)
  have fails: "live_inv before (recorded (ss_box x) (Closing (-1)) (goes t x (Closing (-1)) (l_broker s) s))"
    using live_fails [OF inv x(1), of "-1"] p(1) by (simp add: recorded_def opened_def)
  note run = pub_receive_def bytes buffer' Let_def
  consider "r \<noteq> None" "bytes = []" | "r = None \<or> bytes \<noteq> []" "buffer' ! 0 \<noteq> 9"
    | "r = None" "bytes = []" "buffer' ! 0 = 9" | "bytes \<noteq> []" "length bytes = 1" "buffer' ! 0 = 9"
    | "r \<noteq> None" "bytes \<noteq> []" "length bytes \<noteq> 1" "buffer' ! 0 = 9"
    using bytes by (cases r) auto
  then show ?thesis
  proof cases
    case 1
    then show ?thesis using pub_ends_live [OF inv e x(1) p(1), of c] unfolding run by (auto simp: recorded_def)
  next
    case 2
    then show ?thesis using fails unfolding run by auto
  next
    case 3
    then show ?thesis using fails unfolding run by auto
  next
    case 4
    have "live_inv before (goes t x (Pub_Read buffer') ((l_broker s)\<lparr>b_table := b_table (l_broker s)\<rparr>) s)"
      by (rule publisher_stays [OF inv x(1) p(1), where buffer = buffer'])
        (use session_okD(4) [OF live_invD(4) [OF inv x(1)]] pub_claims p(1) l(1) in \<open>simp_all add: same_table_def published_def\<close>)
    then show ?thesis using 4 unfolding run by (simp add: recorded_def)
  next
    case 5
    have "\<exists>n u. tfs_write mutex_ok (ss_fd x) (drop 1 buffer') 1024 (b_fs (l_broker s)) = Inr (int n, u)
      \<and> live_inv before (recorded (ss_box x) (Pub_Broadcast (int n) buffer')
          (goes t x (Pub_Broadcast (int n) buffer') ((l_broker s)\<lparr>b_fs := u\<rparr>) s))"
      using live_stores [OF inv x(1) p(1) l(2), of "\<lambda>n. Pub_Broadcast n buffer'" buffer'] l(1) by (simp add: recorded_def goes_def)
    then show ?thesis using 5 calmD [OF e] unfolding run by auto
  qed
qed

section \<open>Subscribers\<close>

lemma message_at: "whole ms \<Longrightarrow> n < length ms \<Longrightarrow> take 1024 (drop (1024 * n) (concat ms)) = ms ! n"
proof (induction ms arbitrary: n)
  case (Cons m ms)
  then show ?case by (cases n) simp_all
qed simp

lemma subscriber_where:
  assumes inv: "live_inv before s" and x: "l_sessions s t = Some x" "is_sub x"
  shows "\<exists>i h z. ss_fd x = int h \<and> box_file (l_broker s) (ss_box x) i
    \<and> a_handles (b_afs (l_broker s)) h = Some (i, 1024 * length (taken x)) \<and> heap (b_table (l_broker s)) (ss_box x) = Some z"
proof -
  obtain i h where h: "ss_fd x = int h" "box_file (l_broker s) (ss_box x) i"
    "a_handles (b_afs (l_broker s)) h = Some (i, 1024 * length (taken x))"
    using session_okD(8) [OF live_invD(4) [OF inv x(1)] x(2)] unfolding stands_def by blast
  obtain n where "box_lookup n (b_table (l_broker s)) = Some (ss_box x)" using h(2) unfolding box_file_def by blast
  then show ?thesis using h lookup_name [OF boxes_okD(2) [OF live_invD(1) [OF inv]]] by blast
qed

text \<open>A subscriber has taken what there is, or takes the next message.\<close>

lemma sub_tries_live:
  assumes inv: "live_inv before s" and e: "calm e" and x: "l_sessions s t = Some x" "ss_point x = Sub_Read response"
  shows "\<exists>y b. sub_try e c (ss_box x) (ss_fd x) response (l_broker s) = Inr (y, b)
    \<and> (\<not> held (ss_box x) s \<longrightarrow> live_inv before (goes t x y b s))
    \<and> y = (if length (ss_sent x) = length (kept before s (ss_box x)) then Sub_Wait response
           else Sub_Send (10 # kept before s (ss_box x) ! length (ss_sent x)))"
proof -
  let ?b = "l_broker s" and ?p = "ss_box x" and ?n = "length (ss_sent x)"
  let ?ms = "kept before s ?p"
  note bok = live_invD(1) [OF inv] and ok = session_okD [OF live_invD(4) [OF inv x(1)]]
  have sub: "is_sub x" "\<not> is_pub x" "taken x = ss_sent x" using x(2) by (simp_all add: taken_def)
  have resp: "length response = 1025" "response ! 0 = 10" using ok(5,6) [OF sub(1)] x(2) by simp_all
  then have r10: "take 1 response = [10]" by (cases response) auto
  have lb: "length (drop 1 response) = 1024" using resp(1) by simp
  obtain i h z where h: "ss_fd x = int h" "box_file ?b ?p i" "a_handles (b_afs ?b) h = Some (i, 1024 * ?n)" "heap (b_table ?b) ?p = Some z"
    using subscriber_where [OF inv x(1) sub(1)] sub(3) by auto
  note dat = live_invD(3) [OF inv h(2)]
  have n: "?n \<le> length ?ms" using ok(1) by (metis length_map length_take min.cobounded1)
  let ?new = "take 1024 (drop (1024 * ?n) (concat ?ms))"
  obtain r bs u where u: "tfs_read mutex_ok (ss_fd x) 1024 (drop 1 response, b_fs ?b) = Inr (r, patch 0 bs (drop 1 response), u)"
    "fs_inv u" "fs_caps u = b_caps ?b" "a_read (ss_fd x) 1024 (b_afs ?b) = (r, bs, fs_abs u)"
    using sim_read [OF boxes_okD(1) [OF bok] lb, where fd = "ss_fd x"] by blast
  have r: "r = int (length ?new)" "bs = ?new" "fs_abs u = move_to i (1024 * ?n + length ?new) h (b_afs ?b)"
    using trans [OF u(4) [unfolded h(1), symmetric] a_read_here [OF h(3) dat, of 1024]] by (simp_all only: prod.inject)
  have bf: "box_file (?b\<lparr>b_fs := u\<rparr>) = box_file ?b"
    using same_boxes_ok(2) [OF bok same_boxesI [OF bok u(2,3), of ?p "b_table ?b"]] r(3) by (cases ?b) (simp add: same_table_def)
  have moves: "live_inv before (goes t x y (?b\<lparr>b_fs := u\<rparr>) s)"
    if y: "\<not> claiming y" "session_ok (?b\<lparr>b_fs := u\<rparr>) ?ms (x\<lparr>ss_point := y\<rparr>)" "\<not> held ?p s" for y
  proof -
    have b: "?b\<lparr>b_fs := u\<rparr> = \<lparr>b_fs = u, b_table = b_table ?b\<rparr>" by (cases ?b) simp
    show ?thesis
      unfolding goes_def b
      by (rule live_goes [OF inv x(1) u(2,3)])
        (use sub y r(3) h(1) in \<open>auto simp: b same_table_def published_def opened_def\<close>)
  qed
  show ?thesis
  proof (cases "?n = length ?ms")
    case True
    then have "?new = []" using length_file [OF inv, of ?p] by simp
    then have e0: "r = 0" "bs = []" "fs_abs u = b_afs ?b" using r move_to_same [OF h(3)] by simp_all
    have "session_ok (?b\<lparr>b_fs := u\<rparr>) ?ms (x\<lparr>ss_point := Sub_Wait response\<rparr>)"
      using ok(1,9) ok(8) [OF sub(1)] resp sub(3) unfolding session_ok_def stands_def bf e0(3) by (simp add: taken_def e0(3))
    moreover have "sub_try e c ?p (ss_fd x) response ?b = Inr (Sub_Wait response, ?b\<lparr>b_fs := u\<rparr>)"
      using u(1) e0(1,2) h(4) calmD [OF e] by (simp add: sub_try_def deref_def Let_def patch_def)
    ultimately show ?thesis using moves [of "Sub_Wait response"] True by auto
  next
    case False
    then have lt: "?n < length ?ms" using n by simp
    have new: "?new = ?ms ! ?n" by (rule message_at [OF whole_kept [OF inv] lt])
    have l: "length (?ms ! ?n) = 1024" using whole_kept [OF inv, of ?p] lt unfolding whole_def by simp
    let ?y = "Sub_Send (10 # ?ms ! ?n)"
    have "ss_sent x @ [10 # ?ms ! ?n] = map ((#) 10) (take (Suc ?n) ?ms)"
      using ok(1) lt by (simp add: take_Suc_conv_app_nth)
    then have "session_ok (?b\<lparr>b_fs := u\<rparr>) ?ms (x\<lparr>ss_point := ?y\<rparr>)"
      using ok(1,9) h(1,2) l unfolding session_ok_def stands_def bf
      by (simp add: taken_def r(3) new min_absorb2 [OF Suc_leI [OF lt]])
    moreover have "sub_try e c ?p (ss_fd x) response ?b = Inr (?y, ?b\<lparr>b_fs := u\<rparr>)"
      using u(1) r(1,2) h(4) calmD [OF e] l r10 resp(1) patch_whole [of "?ms ! ?n" "drop 1 response"]
      by (simp add: sub_try_def deref_def Let_def new)
    ultimately show ?thesis using moves [of ?y] False by auto
  qed
qed

lemma sub_sends_live:
  assumes inv: "live_inv before s" and e: "calm e" and x: "l_sessions s t = Some x" "ss_point x = Sub_Send response"
  shows "\<exists>y b. sub_send e c (ss_box x) w response (l_broker s) = Inr (y, b)
    \<and> live_inv before (goes t (x\<lparr>ss_sent := (if 0 < fst w then ss_sent x @ [response] else ss_sent x)\<rparr>) y b s)
    \<and> (0 < fst w \<longrightarrow> y = Sub_Read (patch 1 (replicate MESSAGE_LEN 0) response))"
proof -
  let ?b = "l_broker s" and ?p = "ss_box x"
  note bok = live_invD(1) [OF inv] and ok = session_okD [OF live_invD(4) [OF inv x(1)]]
  have sub: "is_sub x" "\<not> is_pub x" "taken x = ss_sent x @ [response]" using x(2) by (simp_all add: taken_def)
  have resp: "length response = 1025" "response ! 0 = 10" using ok(5,6) [OF sub(1)] x(2) by simp_all
  obtain i h z where h: "ss_fd x = int h" "box_file ?b ?p i" "a_handles (b_afs ?b) h = Some (i, 1024 * length (taken x))" "heap (b_table ?b) ?p = Some z"
    using subscriber_where [OF inv x(1) sub(1)] by auto
  have b: "?b = \<lparr>b_fs = b_fs ?b, b_table = b_table ?b\<rparr>" by (cases ?b) simp
  have x0: "x\<lparr>ss_sent := ss_sent x\<rparr> = x" by simp
  obtain wrote epipe where w: "w = (wrote, epipe)" by (cases w)
  consider "0 < wrote" | "wrote \<le> 0" "epipe" | "wrote \<le> 0" "\<not> epipe" by linarith
  then show ?thesis
  proof cases
    case 1
    let ?r = "patch 1 (replicate 1024 0) response"
    let ?x = "x\<lparr>ss_sent := ss_sent x @ [response], ss_point := Sub_Read ?r\<rparr>"
    have tk: "taken ?x = taken x" unfolding sub(3) by (simp add: taken_def)
    have "?r ! 0 = 10" using resp by (simp add: nth_patch)
    moreover have sent: "ss_sent ?x = taken x" by (simp add: sub(3))
    ultimately have "session_ok ?b (kept before s ?p) ?x"
      using ok(7,8) [OF sub(1)] ok(9) resp(1) unfolding session_ok_def tk sent stands_def by simp
    then have "live_inv before (s\<lparr>l_broker := \<lparr>b_fs = b_fs ?b, b_table = b_table ?b\<rparr>, l_sessions := (l_sessions s)(t \<mapsto> ?x)\<rparr>)"
      by (intro live_goes [OF inv x(1) boxes_okD(1) [OF bok]]) (use sub(1,2) in \<open>simp_all add: same_table_def opened_def flip: b\<close>)
    then show ?thesis using 1 by (simp add: sub_send_def w goes_def flip: b)
  next
    case 2
    obtain v tab where u: "box_unregister_sub mutex_ok (Some ?p) (b_table ?b) = Inr (v, tab)" "same_table ?p (b_table ?b) tab"
      "published ?b ?p \<longrightarrow> published \<lparr>b_fs = b_fs ?b, b_table = tab\<rparr> ?p"
      using box_unregister_sub_eq [OF h(4)] boxes_okD(6) [OF bok h(4)] same_table_set [OF h(4), of "z\<lparr>sub_num := sub_num z - 1\<rparr>"] h(4)
      by (cases "sub_num z = 0") (simp_all add: same_table_def published_def)
    have bf: "box_file \<lparr>b_fs = b_fs ?b, b_table = tab\<rparr> = box_file ?b"
      by (rule same_boxes_ok(2) [OF bok same_boxesI [OF bok boxes_okD(1) [OF bok] refl refl u(2)]])
    let ?v = "if v = -1 then -1 else 0"
    have "live_inv before (s\<lparr>l_broker := \<lparr>b_fs = b_fs ?b, b_table = tab\<rparr>, l_sessions := (l_sessions s)(t \<mapsto> x\<lparr>ss_point := Returned ?v\<rparr>)\<rparr>)"
      by (rule live_goes [OF inv x(1) boxes_okD(1) [OF bok] refl refl refl refl u(2)])
        (use sub u(3) session_leaves(1) [OF live_invD(4) [OF inv x(1)] bf] in \<open>auto simp: opened_def\<close>)
    moreover have "sub_send e c ?p w response ?b = Inr (Returned ?v, \<lparr>b_fs = b_fs ?b, b_table = tab\<rparr>)"
      using 2 u(1) calmD [OF e] by (subst b) (simp add: sub_send_def w)
    ultimately show ?thesis using 2 by (simp add: goes_def w)
  next
    case 3
    then show ?thesis using live_fails [OF inv x(1), of "-1"] sub(1) by (simp add: sub_send_def w x0 opened_def)
  qed
qed

section \<open>Steps between the sections\<close>

text \<open>Sleeping and waking change nothing but where a session stands.\<close>

definition alike :: "session \<Rightarrow> session \<Rightarrow> bool" where
  "alike x y \<longleftrightarrow> ss_box y = ss_box x \<and> ss_fd y = ss_fd x \<and> ss_sent y = ss_sent x \<and> taken y = taken x
     \<and> pub_buffer (ss_point y) = pub_buffer (ss_point x) \<and> sub_buffer (ss_point y) = sub_buffer (ss_point x)
     \<and> claiming (ss_point y) = claiming (ss_point x) \<and> entering (ss_point y) = entering (ss_point x)
     \<and> closing (ss_point y) = closing (ss_point x) \<and> (waits y \<longrightarrow> waits x)"

lemma alike_same:
  assumes "alike x y"
  shows "ss_box y = ss_box x" and "session_ok b ms y \<longleftrightarrow> session_ok b ms x" and "alike x' y' \<Longrightarrow> apart x x' \<Longrightarrow> apart y y'"
proof -
  show "ss_box y = ss_box x" "session_ok b ms y \<longleftrightarrow> session_ok b ms x" using assms by (simp_all add: alike_def session_ok_def stands_def)
  show "apart y y'" if "alike x' y'" "apart x x'"
    using assms that unfolding alike_def apart_def opened_def by metis
qed

lemma live_relabel:
  assumes inv: "live_inv before s" and s': "l_broker s' = l_broker s" "l_stored s' = l_stored s"
    and f: "\<And>u y. l_sessions s' u = Some y \<Longrightarrow> \<exists>x. l_sessions s u = Some x \<and> alike x y"
  shows "live_inv before s'"
proof -
  note d = live_invD [OF inv]
  have k: "kept before s' = kept before s" by (simp add: kept_def s'(2) fun_eq_iff)
  have "session_ok (l_broker s) (kept before s (ss_box y)) y" if y: "l_sessions s' u = Some y" for u y
  proof -
    obtain x where x: "l_sessions s u = Some x" "alike x y" using f [OF y] by blast
    then show ?thesis using d(4) [OF x(1)] alike_same(1,2) [OF x(2)] by simp
  qed
  moreover have "apart y z" if a: "u \<noteq> v" "l_sessions s' u = Some y" "l_sessions s' v = Some z" for u v y z
  proof -
    obtain y' z' where "l_sessions s u = Some y'" "alike y' y" "l_sessions s v = Some z'" "alike z' z"
      using f [OF a(2)] f [OF a(3)] by blast
    then show ?thesis using d(5) [OF a(1)] alike_same(3) by blast
  qed
  ultimately show ?thesis using d(1-3) unfolding live_inv_def k s' by blast
qed

lemma alike_refl [simp]: "alike x x"
  by (simp add: alike_def)

lemma alike_points:
  "ss_point x = Sub_Wait response \<Longrightarrow> alike x (x\<lparr>ss_point := Sub_Asleep response\<rparr>)"
  "ss_point x = Sub_Asleep response \<Longrightarrow> alike x (x\<lparr>ss_point := Sub_Read response\<rparr>)"
  "ss_point x = Pub_Broadcast wrote buffer \<Longrightarrow> alike x (x\<lparr>ss_point := Pub_Count wrote buffer\<rparr>)"
  by (simp_all add: alike_def taken_def)

lemma alike_woken: "alike x (woken p x)"
  using alike_points(2) [of x] by (cases "ss_point x") simp_all

lemma alike_trans: "alike x y \<Longrightarrow> alike y z \<Longrightarrow> alike x z"
  by (simp add: alike_def)

lemma pub_wakes_live:
  assumes inv: "live_inv before s" and x: "l_sessions s t = Some x" "ss_point x = Pub_Broadcast wrote buffer"
    and s': "s' = goes t x (Pub_Count wrote buffer) (l_broker s) s"
  shows "live_inv before (s'\<lparr>l_sessions := (\<lambda>u. map_option (woken (ss_box x)) (l_sessions s' u))\<rparr>)"
proof (rule live_relabel [OF inv])
  fix u y assume y: "l_sessions (s'\<lparr>l_sessions := (\<lambda>u. map_option (woken (ss_box x)) (l_sessions s' u))\<rparr>) u = Some y"
  show "\<exists>z. l_sessions s u = Some z \<and> alike z y"
  proof (cases "u = t")
    case True
    then have "y = x\<lparr>ss_point := Pub_Count wrote buffer\<rparr>" using y by (simp add: s' goes_def)
    then show ?thesis using alike_points(3) [OF x(2)] x(1) True by blast
  next
    case False
    then show ?thesis using y alike_woken by (auto simp: s' goes_def simp del: woken.simps)
  qed
qed (simp_all add: s' goes_def)

lemma sub_moves_live:
  assumes inv: "live_inv before s" and x: "l_sessions s t = Some x" and y: "alike x (x\<lparr>ss_point := y\<rparr>)"
  shows "live_inv before (goes t x y (l_broker s) s)"
  by (rule live_relabel [OF inv]) (use x y in \<open>auto simp: goes_def split: if_splits\<close>)

end
