(* ===== verification/Live_Sections.thy ===== *)
theory Live_Sections
  imports Live
begin

text \<open>
  A thread that nobody interrupts: the sections of \<open>Live\<close>, one after the other, are the
  handlers of \<open>Broker\<close>. No property rests on it: it keeps the two models of a session in step.
\<close>

lemma bindE_assoc: "bindE (bindE m f) g = bindE m (\<lambda>x. bindE (f x) g)"
  by (cases m) simp_all

lemma publisher_sections: "publisher_run e c p fd buffer rs b = publisher_loop e c p fd buffer rs b"
proof (induction rs arbitrary: c buffer b)
  case (Cons r rs)
  obtain bytes where bytes: "take PUBLISHER_BUFFER_SIZE (case r of None \<Rightarrow> [] | Some bs \<Rightarrow> bs) = bytes" by blast
  obtain buffer' where buffer': "patch 0 bytes buffer = buffer'" by blast
  note run = publisher_run.simps publisher_loop.simps pub_receive_def Let_def bytes buffer'
  have ends: "bindE (session_close e c fd v b) (\<lambda>(y, b). case y of Returned v \<Rightarrow> Inr (Over v, b) | _ \<Rightarrow> Inl Undefined)
      = bindE (tfs_close (e_tfs e c) fd (b_fs b)) (\<lambda>(r, s). Inr (Over (if r = -1 then -1 else v), b\<lparr>b_fs := s\<rparr>))" for c v b
    by (cases "tfs_close (e_tfs e c) fd (b_fs b)") (auto simp: session_close_def)
  show ?case
  proof (cases "(r \<noteq> None \<and> bytes = []) \<or> buffer' ! 0 \<noteq> 9 \<or> length bytes = 1 \<or> r = None")
    case True
    then show ?thesis
      unfolding run by (cases "box_unregister_pub (e_box e c) (Some p) (b_table b)")
        (auto simp: ends publisher_end_def publisher_fail_def Cons.IH simp del: One_nat_def)
  next
    case False
    then obtain bs where r: "r = Some bs" "bytes \<noteq> []" "buffer' ! 0 = 9" "length bytes \<noteq> 1" by blast
    note f = run [unfolded r(1)] publisher_store_def
    show ?thesis
    proof (cases "tfs_write (e_tfs e c) fd (drop 1 buffer') (of_nat MESSAGE_LEN) (b_fs b)")
      case Inl
      then show ?thesis using r(2-4) unfolding r(1) f by (simp del: One_nat_def)
    next
      case (Inr v)
      obtain wrote u where v: "v = (wrote, u)" by (cases v)
      show ?thesis
      proof (cases "wrote < 0")
        case True
        then show ?thesis using r(2-4) Inr v unfolding r(1) f by (simp add: ends publisher_fail_def del: One_nat_def)
      next
        case ok: False
        then show ?thesis using r(2-4) Inr v unfolding r(1) f
          by (cases "deref p (b_table b)") (simp_all add: pub_count_def Let_def Cons.IH del: One_nat_def)
      qed
    qed
  qed
qed simp

lemma subscriber_sections: "subscriber_run e c tx p fd response ws b = subscriber_loop e c tx p fd response ws b"
proof (induction ws arbitrary: c response b)
  case (Cons w ws)
  obtain wrote epipe where w: "w = (wrote, epipe)" by (cases w)
  show ?case
  proof (cases "deref p (b_table b)")
    case Inl
    then show ?thesis by (simp add: w sub_try_def)
  next
    case box: (Inr box)
    show ?thesis
    proof (cases "tfs_read (e_tfs e c) fd (of_nat MESSAGE_LEN) (drop 1 response, b_fs b)")
      case Inl
      then show ?thesis using box by (simp add: w sub_try_def)
    next
      case (Inr v)
      obtain readd buffer u where v: "v = (readd, buffer, u)" by (cases v)
      show ?thesis using box Inr
        by (cases "tfs_close (e_tfs e (Suc c)) fd u"; cases "box_unregister_sub (e_box e (Suc c)) (Some p) (b_table b)")
          (auto simp: v w sub_try_def sub_send_def session_close_def Let_def Cons.IH)
    qed
  qed
qed simp

lemma publisher_session_sections: "publisher_session_run e request reads b = publisher_register e request reads b"
  by (auto simp: publisher_session_run_def publisher_register_def publisher_start_def pub_enter_def pub_open_def
      publisher_sections bindE_assoc Let_def intro!: bindE_cong split: option.splits)

lemma subscriber_session_sections: "subscriber_session_run e request ws b = subscriber_register e request ws b"
  by (auto simp: subscriber_session_run_def subscriber_register_def subscriber_start_def sub_enter_def sub_open_def
      subscriber_sections bindE_assoc Let_def intro!: bindE_cong split: option.splits)

lemma remove_sections: "remove_run e request b = manager_remove_box e request b"
  by (auto simp: remove_run_def remove_check_def remove_finish_def manager_remove_box_def bindE_assoc Let_def
      intro!: bindE_cong split: option.splits)

text \<open>A session that has started has been registered and has opened its file.\<close>

lemma publisher_startD:
  assumes "publisher_start e request b = Inr (Some (p, fd), b')"
  shows "\<exists>b1. pub_enter e request b = Inr (Some p, b1)
    \<and> pub_open e request b1 = Inr (fd, Pub_Read (replicate PUBLISHER_BUFFER_SIZE 0), b')"
proof -
  obtain pipe name t where o: "\<not> e_signal_fails e" "string_at 1 request = Inr pipe" "e_open e pipe \<noteq> -1" "string_at 257 request = Inr name"
    "box_register_pub (e_table e 0) (e_box e 0) name (b_table b) = Inr (Some p, t)"
    using assms by (auto simp: publisher_start_def Let_def bindE_Inr_iff split: if_splits option.splits)
  show ?thesis
    using o assms
    by (intro exI [of _ "b\<lparr>b_table := t\<rparr>"]) (auto simp: publisher_start_def pub_enter_def pub_open_def Let_def bindE_Inr_iff split: if_splits)
qed

lemma subscriber_startD:
  assumes "subscriber_start e request b = Inr (Some (tx, p, fd), b')"
  shows "\<exists>b1. sub_enter e request b = Inr (Some (tx, p), b1)
    \<and> sub_open e request b1 = Inr (fd, Sub_Read ((replicate SUBSCRIBER_BUFFER_SIZE 0)[0 := 10]), b')"
proof -
  obtain pipe name t where o: "string_at 1 request = Inr pipe" "e_open e pipe \<noteq> -1" "string_at 257 request = Inr name"
    "box_register_sub (e_table e 0) (e_box e 0) name (b_table b) = Inr (Some p, t)"
    using assms by (auto simp: subscriber_start_def Let_def bindE_Inr_iff split: if_splits option.splits)
  show ?thesis
    using o assms
    by (intro exI [of _ "b\<lparr>b_table := t\<rparr>"]) (auto simp: subscriber_start_def sub_enter_def sub_open_def Let_def bindE_Inr_iff split: if_splits)
qed

text \<open>
  The sections are the handlers: for every environment, request, state and list of the
  results of calls, faults included, \<open>publisher_register\<close> is the sections of a publisher in
  order, from the registration to the close, so is \<open>subscriber_register\<close>, and removing a box
  is the check followed, when it allows it, by the removal.
\<close>

lemma sections_make_handlers:
  "publisher_session_run = publisher_register \<and> subscriber_session_run = subscriber_register \<and> remove_run = manager_remove_box"
  by (intro conjI ext publisher_session_sections subscriber_session_sections remove_sections)

end
