(* ===== verification/Service.thy ===== *)
theory Service
  imports Service_Inv
begin

text \<open>
  The handlers of the broker implement the service: one lemma for each kind of request, the
  interpretation of the \<open>simulation\<close> interface, and the refinement of whole sequences of
  requests.
\<close>

section \<open>Publishing\<close>

lemma supplied_calm [simp]: "calm (supplied e m b) \<longleftrightarrow> calm e"
  by (simp add: calm_def supplied_def)

lemma serve_publish:
  assumes inv: "service_inv b" and e: "calm e" and req: "carries buffer code pipe name"
    and msgs: "whole msgs" and free: "s_waiting (service_abs b) < session_limit"
  shows "\<exists>r b'. publisher_register e buffer (publisher_reads msgs) b = Inr (Over r, b') \<and> service_inv b' \<and> keeps (-1) b b'
    \<and> publish_spec name msgs (service_abs b) = (Sent [], service_abs b')"
proof (cases "box_lookup name (b_table b)")
  case None
  have "publisher_register e buffer reads b = Inr (Over (-1), b)" for reads
    using calmD [OF e] carriesD(3,4) [OF req] box_count_eqs(1) [OF broker_invD(2) [OF service_invD(1) [OF inv]] None]
    by (simp add: publisher_register_def publisher_start_def)
  moreover have "s_boxes (service_abs b) name = None" using None by simp
  ultimately show ?thesis using inv keeps_same [of b b] by (simp add: publish_spec_def del: service_none)
next
  case (Some p)
  note bi = service_invD(1) [OF inv] and caps = service_invD(2) [OF inv]
  obtain x i ms where x: "heap (b_table b) p = Some x" "a_names (b_afs b) name = Some i" "a_data (b_afs b) i = Some (concat ms)"
    "whole ms" "pub_num x = 0" "box_size x = of_nat (1024 * length ms)" "unat (sub_num x) \<le> s_waiting (service_abs b)"
    "s_boxes (service_abs b) name = Some \<lparr>mb_messages = ms, mb_subs = unat (sub_num x)\<rparr>"
    using service_box [OF inv Some] by blast
  let ?all = "take message_limit (ms @ msgs)"
  have free': "\<exists>h<c_files (b_caps b). a_handles (b_afs b) h = None" using free_handle [OF inv] free by simp
  have room: "writable (b_caps b) (concat ms) (b_afs b)"
    using service_bounds(3) [OF inv] by (simp add: writable_def caps broker_caps)
  have typed: "\<forall>m\<in>set (map ((#) 9) msgs). pub_message m" using msgs by (auto simp: pub_message_def whole_def)
  have app: "appended (b_caps b) (concat ms) (payloads (map ((#) 9) msgs)) = concat ?all"
    using appended_messages [OF x(4) msgs, of "b_caps b"] by (simp add: payloads_typed caps broker_caps)
  obtain b' where b': "publisher_register e buffer (map Some (map ((#) 9) msgs) @ [Some []]) b = Inr (Over 0, b')" "broker_inv b'"
    "b_caps b' = b_caps b" "a_data (b_afs b') = (a_data (b_afs b))(i \<mapsto> concat ?all)" "a_names (b_afs b') = a_names (b_afs b)"
    "a_handles (b_afs b') = a_handles (b_afs b)"
    "b_table b' = set_box p (x\<lparr>box_size := box_size x + of_nat (length (concat ?all) - length (concat ms))\<rparr>) (b_table b)"
    using publisher_runs [OF bi e req Some x(1,5,2,3) room free' typed] unfolding app by blast
  let ?y = "x\<lparr>box_size := box_size x + of_nat (length (concat ?all) - length (concat ms))\<rparr>"
  have fn: "file_name ?y = file_name x" by simp
  have t: "box_lookup m (b_table b') = box_lookup m (b_table b)" for m
    unfolding b'(7) by (rule set_box_inv(2) [OF broker_invD(2) [OF bi] x(1) fn])
  have wall: "whole ?all" using x(4) msgs by simp
  have "length (concat ms) \<le> 102400"
    using file_fits [OF broker_invD(1) [OF bi] x(3)] by (simp add: caps broker_caps)
  then have "length ms \<le> length ?all" using length_concat_whole [OF x(4)] by simp
  then have sz: "box_size ?y = of_nat (1024 * length ?all)"
    using x(6) length_concat_whole [OF x(4)] length_concat_whole [OF wall] by (simp flip: of_nat_add of_nat_mult del: length_take)
  have hp: "heap (b_table b') p = Some ?y" using b'(7) by simp
  have now: "box_ok (b_afs b') (b_table b') name"
    "mailbox_of (b_afs b') (b_table b') name = Some \<lparr>mb_messages = ?all, mb_subs = unat (sub_num x)\<rparr>"
    using box_now [of name "b_table b'" p ?y "b_afs b'" i ?all] Some t hp b'(4-6) x(2,5,7) wall sz by simp_all
  have other: "q \<noteq> p" if "m \<noteq> name" "box_lookup m (b_table b) = Some q" for m q
    using lookup_inj [OF broker_invD(2) [OF bi] that(2)] Some that(1) by blast
  have sep: "j \<noteq> i" if "m \<noteq> name" "a_names (b_afs b) m = Some j" for m j
    using a_names_inj [OF broker_invD(1) [OF bi] that(2)] x(2) that(1) by blast
  have "service_inv b' \<and> service_abs b' = \<lparr>s_boxes = (s_boxes (service_abs b))(name := mailbox_of (b_afs b') (b_table b') name),
        s_waiting = card (dom (a_handles (b_afs b')))\<rparr>"
    by (rule conjI; rule service_update [OF inv b'(2,3) t])
      (use now(1) t other sep x(1) Some b'(4-7) service_invD(6) [OF inv] in \<open>auto split: if_splits\<close>)
  moreover have "length (concat ms) \<le> length (concat ?all)"
    using \<open>length ms \<le> length ?all\<close> unfolding length_concat_whole [OF x(4)] length_concat_whole [OF wall] by simp
  then have "keeps (-1) b b'"
    by (intro keeps_update [of name]) (use t other sep x(1-3) Some b'(4-7) in \<open>auto split: if_splits\<close>)
  ultimately show ?thesis using b'(1,6) now(2) x(8)
    by (intro exI [of _ 0] exI [of _ b']) (simp add: publish_spec_def publisher_reads_def comp_def)
qed

section \<open>Subscribing\<close>

lemma serve_subscribe:
  assumes inv: "service_inv b" and e: "calm e" and req: "carries buffer code pipe name"
    and free: "s_waiting (service_abs b) < session_limit"
  shows "\<exists>w ws b'. subscriber_register e buffer subscriber_writes b = Inr (w, ws, b') \<and> service_inv b' \<and> keeps (-1) b b'
    \<and> subscribe_spec pipe name (service_abs b) = (Sent ws, service_abs b') \<and> waits_ok b' w
    \<and> activity_of b' w = (case s_boxes (service_abs b) name of None \<Rightarrow> Ready | Some x \<Rightarrow> Following pipe name (length (mb_messages x)))
    \<and> (\<forall>fd. handle_of w = Some fd \<longrightarrow> (\<exists>h. fd = int h \<and> a_handles (b_afs b) h = None))"
proof (cases "box_lookup name (b_table b)")
  case None
  have "subscriber_register e buffer ws b = Inr (Over (-1), [], b)" for ws
    using calmD [OF e] carriesD(3,4) [OF req] box_count_eqs(4) [OF broker_invD(2) [OF service_invD(1) [OF inv]] None]
    by (simp add: subscriber_register_def subscriber_start_def)
  moreover have "s_boxes (service_abs b) name = None" using None by simp
  ultimately show ?thesis using inv keeps_same [of b b]
    by (simp add: subscribe_spec_def waits_ok_def activity_of_def del: service_none)
next
  case (Some p)
  note bi = service_invD(1) [OF inv] and caps = service_invD(2) [OF inv]
  obtain x i ms where x: "heap (b_table b) p = Some x" "a_names (b_afs b) name = Some i" "a_data (b_afs b) i = Some (concat ms)"
    "whole ms" "pub_num x = 0" "box_size x = of_nat (1024 * length ms)" "unat (sub_num x) \<le> s_waiting (service_abs b)"
    "s_boxes (service_abs b) name = Some \<lparr>mb_messages = ms, mb_subs = unat (sub_num x)\<rparr>"
    using service_box [OF inv Some] by blast
  have free': "\<exists>h<c_files (b_caps b). a_handles (b_afs b) h = None" using free_handle [OF inv] free by simp
  have few: "unat (sub_num x) < 16" using x(7) free by simp
  then have inc: "unat (sub_num x + 1) = Suc (unat (sub_num x))" by (simp add: unat_word_ariths)
  then have nz: "sub_num x + 1 \<noteq> 0" by auto
  have "length (concat ms) \<le> 102400"
    using file_fits [OF broker_invD(1) [OF bi] x(3)] by (simp add: caps broker_caps)
  then have "length ms \<le> 100" using length_concat_whole [OF x(4)] by simp
  then have io: "\<forall>w\<in>set subscriber_writes. 0 < fst w"
    "length ms \<le> length subscriber_writes"
    by (simp_all add: subscriber_writes_def)
  have pls: "\<forall>m\<in>set ms. length m = 1024" using x(4) by (simp add: whole_def)
  let ?y = "x\<lparr>sub_num := sub_num x + 1\<rparr>"
  obtain b' h where b': "subscriber_register e buffer subscriber_writes b
      = Inr (Subscribing pipe p (int h) idle_response, map (\<lambda>m. (pipe, 10 # m)) ms, b')" "broker_inv b'" "b_caps b' = b_caps b"
    "a_data (b_afs b') = a_data (b_afs b)" "a_names (b_afs b') = a_names (b_afs b)" "b_table b' = set_box p ?y (b_table b)"
    "a_handles (b_afs b) h = None" "a_handles (b_afs b') = (a_handles (b_afs b))(h \<mapsto> (i, length (concat ms)))"
    using subscriber_runs [OF bi e req Some x(1) nz x(2,3) pls free' io] by blast
  have fn: "file_name ?y = file_name x" by simp
  have t: "box_lookup m (b_table b') = box_lookup m (b_table b)" for m
    unfolding b'(6) by (rule set_box_inv(2) [OF broker_invD(2) [OF bi] x(1) fn])
  have cards: "card (dom (a_handles (b_afs b'))) = Suc (card (dom (a_handles (b_afs b))))"
    using b'(7) service_bounds(4) [OF inv] unfolding b'(8) by (simp add: domIff)
  have hp: "heap (b_table b') p = Some ?y" using b'(6) by simp
  have now: "box_ok (b_afs b') (b_table b') name"
    "mailbox_of (b_afs b') (b_table b') name = Some \<lparr>mb_messages = ms, mb_subs = Suc (unat (sub_num x))\<rparr>"
    using box_now [of name "b_table b'" p ?y "b_afs b'" i ms] Some t hp b'(4,5) x(2-7) inc cards by simp_all
  have other: "q \<noteq> p" if "m \<noteq> name" "box_lookup m (b_table b) = Some q" for m q
    using lookup_inj [OF broker_invD(2) [OF bi] that(2)] Some that(1) by blast
  have waits: "waits_ok b' (Subscribing pipe p (int h) idle_response)"
    unfolding waits_ok_def using t Some hp nz b'(4,5,8) x(2,3) length_concat_whole [OF x(4)]
    by (auto intro!: exI [of _ name])
  have nm: "name_of (b_table b') p = name"
    using lookup_name [OF broker_invD(2) [OF b'(2)], of name p] t Some by (auto simp: name_of_def)
  have act: "activity_of b' (Subscribing pipe p (int h) idle_response) = Following pipe name (length ms)"
    using nm b'(8) length_concat_whole [OF x(4)] by (simp add: activity_of_def)
  have "keeps (-1) b b'"
    by (intro keeps_update [of name]) (use t other x(1) Some b'(4-8) nz in \<open>auto split: if_splits\<close>)
  moreover have "service_inv b' \<and> service_abs b' = \<lparr>s_boxes = (s_boxes (service_abs b))(name := mailbox_of (b_afs b') (b_table b') name),
        s_waiting = card (dom (a_handles (b_afs b')))\<rparr>"
    by (rule conjI; rule service_update [OF inv b'(2,3) t])
      (use now(1) t other x(1) Some b'(4-6) cards service_invD(6) [OF inv] in \<open>auto split: if_splits\<close>)
  ultimately show ?thesis using b'(1,7) now(2) x(8) cards waits act
    by (intro exI [of _ "Subscribing pipe p (int h) idle_response"] exI [of _ "map (\<lambda>m. (pipe, 10 # m)) ms"] exI [of _ b'])
      (simp add: subscribe_spec_def)
qed

text \<open>A worker that follows a box, on its turn, sends what has been stored since.\<close>

lemma drop_concat: "whole ms \<Longrightarrow> drop (1024 * n) (concat ms) = concat (drop n ms)"
proof (induction ms arbitrary: n)
  case (Cons m ms)
  then show ?case by (cases n) simp_all
qed simp

lemma serve_waiting:
  assumes inv: "service_inv b" and e: "calm e" and w: "waits_ok b (Subscribing tx p fd response)"
  shows "\<exists>name k b'. activity_of b (Subscribing tx p fd response) = Following tx name k
    \<and> subscriber_loop e c tx p fd response subscriber_writes b
        = Inr (Subscribing tx p fd response, map (\<lambda>m. (tx, 10 # m)) (new_messages name k (service_abs b)), b')
    \<and> service_inv b' \<and> service_abs b' = service_abs b \<and> keeps fd b b' \<and> waits_ok b' (Subscribing tx p fd response)
    \<and> activity_of b' (Subscribing tx p fd response) = Following tx name (k + length (new_messages name k (service_abs b)))"
proof -
  note bi = service_invD(1) [OF inv] and caps = service_invD(2) [OF inv]
  obtain name h i k y where w': "response = idle_response" "fd = int h" "box_lookup name (b_table b) = Some p"
    "heap (b_table b) p = Some y" "sub_num y \<noteq> 0" "a_names (b_afs b) name = Some i" "a_handles (b_afs b) h = Some (i, 1024 * k)"
    "1024 * k \<le> length (the (a_data (b_afs b) i))"
    using w by (auto simp: waits_ok_def)
  obtain ms where x: "a_data (b_afs b) i = Some (concat ms)" "whole ms"
    "s_boxes (service_abs b) name = Some \<lparr>mb_messages = ms, mb_subs = unat (sub_num y)\<rparr>"
    using service_box [OF inv w'(3)] w'(4,6) by auto
  have new: "new_messages name k (service_abs b) = drop k ms" using x(3) by (simp add: new_messages_def)
  have km: "k \<le> length ms" using w'(8) x(1) length_concat_whole [OF x(2)] by simp
  have nm: "name_of (b_table b) p = name"
    using lookup_name [OF broker_invD(2) [OF bi] w'(3)] by (auto simp: name_of_def)
  have "length (concat ms) \<le> 102400"
    using file_fits [OF broker_invD(1) [OF bi] x(1)] by (simp add: caps broker_caps)
  then have "length ms \<le> 100" using length_concat_whole [OF x(2)] by simp
  then have io: "\<forall>w\<in>set subscriber_writes. 0 < fst w" "length (drop k ms) \<le> length subscriber_writes"
    by (simp_all add: subscriber_writes_def)
  have pls: "\<forall>m\<in>set (drop k ms). length m = 1024" using x(2) by (auto simp: whole_def dest: in_set_dropD)
  have hp: "heap (b_table b) p \<noteq> None" and le: "1024 * k \<le> length (concat ms)" using w'(4,8) x(1) by simp_all
  obtain s where s: "subscriber_loop e c tx p (int h) idle_response subscriber_writes b
      = Inr (Subscribing tx p (int h) idle_response, map (\<lambda>m. (tx, 10 # m)) (drop k ms), b\<lparr>b_fs := s\<rparr>)"
    "fs_inv s" "fs_caps s = b_caps b" "fs_abs s = move_to i (length (concat ms)) h (b_afs b)"
    using subscriber_loop_delivers [OF e pls io broker_invD(1) [OF bi] hp w'(7) x(1) drop_concat [OF x(2)] le] by blast
  let ?b = "b\<lparr>b_fs := s\<rparr>" and ?w = "Subscribing tx p fd response"
  have views: "a_names (b_afs ?b) = a_names (b_afs b)" "a_data (b_afs ?b) = a_data (b_afs b)" "b_table ?b = b_table b"
    "a_handles (b_afs ?b) = (a_handles (b_afs b))(h \<mapsto> (i, length (concat ms)))"
    using s(4) by simp_all
  have "active y" using w'(5) by (simp add: active_def word_gt_0)
  then have "broker_inv ?b" using broker_inv_handle [OF bi w'(3,4) _ w'(6) s(2)] views by simp
  moreover have dom: "dom (a_handles (b_afs ?b)) = dom (a_handles (b_afs b))" using views(4) w'(7) by auto
  ultimately have inv': "service_inv ?b"
    using inv s(3) unfolding service_inv_def box_ok_def views(1-3) dom by simp
  have abs: "service_abs ?b = service_abs b" unfolding service_abs_def mailbox_of_def views(1-3) dom ..
  have keep: "keeps fd b ?b" unfolding keeps_def views using w'(2,5) by auto
  have waits: "waits_ok ?b ?w"
    unfolding waits_ok_def views using w' x(1) length_concat_whole [OF x(2)]
    by (auto intro!: exI [of _ name] exI [of _ i] exI [of _ y])
  have "activity_of b ?w = Following tx name k" "activity_of ?b ?w = Following tx name (length ms)"
    using nm w'(2,7) views(3,4) length_concat_whole [OF x(2)] by (simp_all add: activity_of_def)
  then show ?thesis
    using s(1) inv' abs keep waits km w'(1,2) new by (intro exI [of _ name] exI [of _ k] exI [of _ ?b]) simp
qed

section \<open>Creating and removing\<close>

lemma serve_create:
  assumes inv: "service_inv b" and e: "calm e" and m: "memory_ok m" and req: "carries buffer code pipe name" and len: "length name < 32"
    and free: "s_waiting (service_abs b) < session_limit"
  shows "\<exists>r ws b'. manager_create_box (supplied e m b) buffer b = Inr (r, ws, b') \<and> service_inv b' \<and> keeps (-1) b b'
    \<and> create_spec pipe name (service_abs b) = (Sent ws, service_abs b')"
proof -
  note bi = service_invD(1) [OF inv] and caps = service_invD(2) [OF inv]
  let ?p = "mem_malloc m (b_table b)" and ?e = "supplied e m b" and ?t = "b_table b"
  have fresh: "heap ?t ?p = None" using m service_bounds(5) [OF inv] by (simp add: memory_ok_def)
  have sup: "calm ?e" "e_malloc ?e = Some ?p" "e_realloc ?e = Some (mem_realloc m (unat (capacity ?t)))"
    using e by simp (simp_all add: supplied_def)
  have "unat (capacity ?t) < 2 ^ 62" using service_invD(6) [OF inv] by (simp add: small_def)
  then have room: "table_room (e_realloc ?e) ?t"
    using m service_invD(6) [OF inv] unfolding sup(3) by (simp add: table_room_def memory_ok_def small_def)
  note runs = create_runs [OF bi calm_mutexes [OF sup(1)] calmD(1) [OF sup(1)] req len sup(2) fresh,
      unfolded answered_simps(2) [OF sup(1)]]
  have doms: "card (dom (s_boxes (service_abs b))) = card (dom (a_names (b_afs b)))" using service_names(1) [OF inv] by simp
  show ?thesis
  proof (cases "box_lookup name ?t")
    case (Some q)
    then have "s_boxes (service_abs b) name \<noteq> None" by simp
    then show ?thesis using runs(1) [OF Some] inv keeps_same [of b b] by (simp add: create_spec_def del: service_none)
  next
    case None
    then have none: "s_boxes (service_abs b) name = None" by simp
    have free': "card (dom (a_handles (b_afs b))) < session_limit" using free by simp
    note opens = create_opens [OF inv None len free']
    show ?thesis
    proof (cases "name = [] \<or> 63 \<le> card (dom (a_names (b_afs b)))")
      case True
      obtain s where s: "manager_create_box ?e buffer b
          = Inr (-1, [(pipe, manager_response 4 (-1) ''tfs_open error: could not open the box file.'')], b\<lparr>b_fs := s\<rparr>)"
        "broker_inv (b\<lparr>b_fs := s\<rparr>)" "fs_abs s = b_afs b" "fs_caps s = b_caps b"
        using runs(2) [OF None opens(1) [OF True]] by blast
      then have "service_inv (b\<lparr>b_fs := s\<rparr>)" "service_abs (b\<lparr>b_fs := s\<rparr>) = service_abs b"
        using inv by (simp_all add: service_inv_def service_abs_def)
      moreover have "keeps (-1) b (b\<lparr>b_fs := s\<rparr>)" by (rule keeps_same) (simp_all add: s(3))
      ultimately show ?thesis using s(1) none True doms by (auto simp: create_spec_def)
    next
      case False
      then obtain j h where o: "a_open (b_caps b) (Some (47 # name)) TFS_O_CREAT (b_afs b)
          = (int h, (b_afs b)\<lparr>a_names := (a_names (b_afs b))(name \<mapsto> j), a_data := (a_data (b_afs b))(j \<mapsto> []),
                        a_handles := (a_handles (b_afs b))(h \<mapsto> (j, 0))\<rparr>)" "a_data (b_afs b) j = None"
        using opens(2) by auto
      have "int h \<noteq> -1" by simp
      then obtain s t where st: "manager_create_box ?e buffer b = Inr (0, [(pipe, manager_response 4 0 '''')], \<lparr>b_fs = s, b_table = t\<rparr>)"
        "broker_inv \<lparr>b_fs = s, b_table = t\<rparr>" "fs_caps s = b_caps b"
        "a_names (fs_abs s) = (a_names (b_afs b))(name \<mapsto> j)" "a_data (fs_abs s) = (a_data (b_afs b))(j \<mapsto> [])"
        "a_handles (fs_abs s) = a_handles (b_afs b)"
        "box_add mutex_ok (Some ?p) (e_realloc ?e) name ?t = Inr (0, t)" "heap t = (heap ?t)(?p \<mapsto> new_box name)"
        "\<And>m. box_lookup m t = (if m = name then Some ?p else box_lookup m ?t)"
        using runs(3) [OF None o(1) _ room] by auto
      let ?b = "\<lparr>b_fs = s, b_table = t\<rparr>"
      have sm: "small t"
      proof -
        note z = box_add_sizes [OF st(7)]
        have c: "0 < unat (capacity ?t)" "unat (capacity ?t) \<le> 128" "unat (bt_size ?t) \<le> 63"
          using service_invD(6) [OF inv] by (simp_all add: small_def)
        have "unat (num_elem ?t) < 63" using table_count [OF inv] False by simp
        then have "unat (bt_size t) \<le> 63" using c(3) unfolding z(2) by (auto simp: unat_word_ariths)
        moreover have "0 < unat (capacity t)" "unat (capacity t) \<le> 128"
          using c unfolding z(1) by (auto simp: unat_word_ariths)
        ultimately show ?thesis by (simp add: small_def)
      qed
      have nb: "pub_num (new_box name) = 0" "box_size (new_box name) = 0" "sub_num (new_box name) = 0" by (simp_all add: new_box_def)
      have now: "box_ok (b_afs ?b) (b_table ?b) name" "mailbox_of (b_afs ?b) (b_table ?b) name = Some \<lparr>mb_messages = [], mb_subs = 0\<rparr>"
        using box_now [of name t ?p "new_box name" "fs_abs s" j "[]"] st nb by simp_all
      have other: "q \<noteq> ?p" if q: "box_lookup m ?t = Some q" for m q
        using service_box [OF inv q] fresh by auto
      have sep: "i \<noteq> j" if i: "a_names (b_afs b) m = Some i" for m i
      proof -
        obtain q where "box_lookup m ?t = Some q" using service_invD(3) [OF inv, of m] i by auto
        from service_box [OF inv this] show ?thesis using i o(2) by auto
      qed
      have "service_inv ?b \<and> service_abs ?b = \<lparr>s_boxes = (s_boxes (service_abs b))(name := mailbox_of (b_afs ?b) (b_table ?b) name),
          s_waiting = card (dom (a_handles (b_afs ?b)))\<rparr>"
        by (rule conjI; rule service_update [OF inv st(2)])
          (use now(1) st(3-6,8,9) other sep None sm in \<open>auto split: if_splits\<close>)
      moreover have "keeps (-1) b ?b"
        by (intro keeps_update [of name]) (use st(3-6,8,9) other sep None in \<open>auto split: if_splits\<close>)
      ultimately show ?thesis using st(1,6) none False doms now(2)
        by (intro exI [of _ 0] exI [of _ "[(pipe, manager_response 4 0 '''')]"] exI [of _ ?b]) (simp add: create_spec_def)
    qed
  qed
qed

lemma serve_remove:
  assumes inv: "service_inv b" and e: "calm e" and req: "carries buffer code pipe name" and len: "length name < 32"
  shows "\<exists>r ws b'. manager_remove_box e buffer b = Inr (r, ws, b') \<and> service_inv b' \<and> keeps (-1) b b'
    \<and> remove_spec pipe name (service_abs b) = (Sent ws, service_abs b')"
proof (cases "box_lookup name (b_table b)")
  case None
  then have "s_boxes (service_abs b) name = None" by simp
  then show ?thesis
    using remove_runs(1) [OF service_invD(1) [OF inv] e req len None] inv keeps_same [of b b] by (simp add: remove_spec_def del: service_none)
next
  case (Some p)
  note bi = service_invD(1) [OF inv]
  obtain x i ms where x: "heap (b_table b) p = Some x" "a_names (b_afs b) name = Some i" "pub_num x = 0"
    "s_boxes (service_abs b) name = Some \<lparr>mb_messages = ms, mb_subs = unat (sub_num x)\<rparr>"
    using service_box [OF inv Some] by blast
  note runs = remove_runs(2,3) [OF bi e req len Some x(1)]
  show ?thesis
  proof (cases "active x")
    case True
    then have "0 < unat (sub_num x)" using x(3) by (auto simp: active_def unat_gt_0 word_gt_0)
    then show ?thesis using runs(1) [OF True] x(4) inv keeps_same [of b b] by (simp add: remove_spec_def)
  next
    case False
    then have idle: "unat (sub_num x) = 0" by (auto simp: active_def word_gt_0)
    obtain s t where st: "manager_remove_box e buffer b = Inr (0, [(pipe, manager_response 6 0 '''')], \<lparr>b_fs = s, b_table = t\<rparr>)"
      "broker_inv \<lparr>b_fs = s, b_table = t\<rparr>" "fs_caps s = b_caps b" "a_names (fs_abs s) = (a_names (b_afs b))(name := None)"
      "a_data (fs_abs s) = (a_data (b_afs b))(i := None)" "a_handles (fs_abs s) = a_handles (b_afs b)"
      "box_remove mutex_ok name (b_table b) = Inr (0, t)" "heap t = (heap (b_table b))(p := None)"
      "\<And>m. box_lookup m t = (if m = name then None else box_lookup m (b_table b))"
      using runs(2) [OF False x(2)] by auto
    let ?b = "\<lparr>b_fs = s, b_table = t\<rparr>"
    have sm: "small t"
    proof -
      have c: "0 < unat (capacity (b_table b))" "unat (capacity (b_table b)) \<le> 128" "unat (bt_size (b_table b)) \<le> 63"
        using service_invD(6) [OF inv] by (simp_all add: small_def)
      moreover have "unat (bt_size (b_table b) - 1) \<le> unat (bt_size (b_table b))" if "bt_size (b_table b) \<noteq> 0"
        using that by (metis le_diff_conv le_add1 unat_minus_one)
      ultimately show ?thesis using box_remove_sizes [OF st(7)] by (auto simp: small_def)
    qed
    have now: "box_ok (b_afs ?b) (b_table ?b) name" "mailbox_of (b_afs ?b) (b_table ?b) name = None"
      using st(9) by (simp_all add: box_ok_def mailbox_of_def)
    have other: "q \<noteq> p" if "m \<noteq> name" "box_lookup m (b_table b) = Some q" for m q
      using lookup_inj [OF broker_invD(2) [OF bi] that(2)] Some that(1) by blast
    have sep: "j \<noteq> i" if "m \<noteq> name" "a_names (b_afs b) m = Some j" for m j
      using a_names_inj [OF broker_invD(1) [OF bi] that(2)] x(2) that(1) by blast
    have "service_inv ?b \<and> service_abs ?b = \<lparr>s_boxes = (s_boxes (service_abs b))(name := mailbox_of (b_afs ?b) (b_table ?b) name),
        s_waiting = card (dom (a_handles (b_afs ?b)))\<rparr>"
      by (rule conjI; rule service_update [OF inv st(2)])
        (use now(1) st(3-6,8,9) other sep Some sm in \<open>auto split: if_splits\<close>)
    moreover have "keeps (-1) b ?b"
      by (intro keeps_update [of name]) (use st(3-6,8,9) other sep Some x(1,3) False in \<open>auto simp: active_def word_gt_0 split: if_splits\<close>)
    ultimately show ?thesis using st(1,6) x(4) idle now(2)
      by (intro exI [of _ 0] exI [of _ "[(pipe, manager_response 6 0 '''')]"] exI [of _ ?b]) (simp add: remove_spec_def)
  qed
qed

section \<open>Listing\<close>

lemma no_boxes:
  assumes inv: "service_inv b"
  shows "num_elem (b_table b) = 0 \<longleftrightarrow> dom (s_boxes (service_abs b)) = {}"
proof -
  let ?t = "b_table b"
  note i = broker_invD [OF service_invD(1) [OF inv]] and v = boxes_invD [OF broker_invD(2) [OF service_invD(1) [OF inv]]]
  have "dom (s_boxes (service_abs b)) = {} \<longleftrightarrow> (\<forall>name. box_lookup name ?t = None)"
    by (simp only: set_eq_iff domIff empty_iff service_none simp_thms)
  also have "\<dots> \<longleftrightarrow> (\<forall>j<length (slots ?t). slots ?t ! j = None)"
    unfolding box_lookup_None [OF i(2)] v(2) by (metis not_None_eq)
  also have "\<dots> \<longleftrightarrow> count_boxes (slots ?t) = 0"
    using count_boxes_none [of "slots ?t"] count_boxes_pos [of _ "slots ?t"] by fastforce
  finally show ?thesis using v(4) by (simp add: unat_eq_0 flip: unat_eq_0)
qed

lemma printed_empty: "fst (print_boxes [empty_list_response 8]) = [Out_no_boxes]"
  by (simp add: empty_list_response_def)

lemma serve_list:
  assumes inv: "service_inv b" and e: "calm e" and req: "carries buffer 7 pipe name"
  shows "\<exists>r ws. manager_list_box e buffer b = Inr (r, ws, b) \<and> list_spec pipe (service_abs b) = (observed ws, service_abs b)"
proof (cases "num_elem (b_table b) = 0")
  case True
  then have d: "dom (s_boxes (service_abs b)) = {}" using no_boxes [OF inv] by simp
  have "\<exists>r. manager_list_box e buffer b = Inr (r, [(pipe, empty_list_response 8)], b)"
    using True calmD [OF e] carriesD(3) [OF req] by (simp add: manager_list_box_def)
  moreover have "observed [(pipe, empty_list_response 8)] = Listed {(pipe, Out_no_boxes)}"
    using printed_empty by (simp add: observed_def) (simp add: empty_list_response_def)
  moreover have "list_spec pipe (service_abs b) = (Listed {(pipe, Out_no_boxes)}, service_abs b)"
    unfolding list_spec_def d by simp
  ultimately show ?thesis by metis
next
  case False
  let ?t = "b_table b"
  let ?n = "unat (bt_size ?t)" and ?js = "listed 0 (unat (bt_size ?t)) ?t"
  let ?f = "list_entry (unat (bt_size ?t)) ?t"
  note bi = broker_invD [OF service_invD(1) [OF inv]]
  have d: "dom (s_boxes (service_abs b)) \<noteq> {}" using False no_boxes [OF inv] by simp
  have run: "manager_list_box e buffer b = Inr (0, map (Pair pipe) (map ?f ?js), b)"
    by (rule list_box_sends [OF bi(2) e carriesD(3) [OF req] False])
  have line: "fst (print_boxes [?f jp]) = [box_line (the (heap ?t (snd jp)))]" if "jp \<in> set ?js" for jp
    using list_entry_views(5) [OF bi(2,3) that, of ?n "[]"] by simp
  have "(\<Union>(tx, m)\<in>set (map (Pair pipe) (map ?f ?js)). Pair tx ` set (fst (print_boxes [m])))
      = (\<lambda>jp. (pipe, box_line (the (heap ?t (snd jp))))) ` set ?js"
    using line by auto
  also have "\<dots> = {(pipe, mailbox_line name x) |name x. s_boxes (service_abs b) name = Some x}" (is "?A = ?B")
  proof (intro equalityI subsetI)
    have entry: "\<exists>x. s_boxes (service_abs b) name = Some x \<and> box_line (the (heap ?t p)) = mailbox_line name x"
      if p: "box_lookup name ?t = Some p" for name p
    proof -
      obtain x i ms where x: "heap ?t p = Some x" "pub_num x = 0" "box_size x = of_nat (1024 * length ms)"
        "s_boxes (service_abs b) name = Some \<lparr>mb_messages = ms, mb_subs = unat (sub_num x)\<rparr>"
        using service_box [OF inv p] by blast
      moreover have "file_name x = name" using lookup_name [OF bi(2) p] x(1) by simp
      ultimately show ?thesis by (simp add: box_line_def mailbox_line_def)
    qed
    {
      fix z assume "z \<in> ?A"
      then obtain j p where j: "z = (pipe, box_line (the (heap ?t p)))" "j < ?n" "slots ?t ! j = Some p"
        by (auto simp: set_listed)
      then have "j < unat (capacity ?t)" using boxes_invD(3) [OF bi(2)] by simp
      then have "box_lookup (name_of ?t p) ?t = Some p" using j(3) unfolding box_lookup_Some [OF bi(2)] by blast
      from entry [OF this] show "z \<in> ?B" unfolding j(1) by blast
    next
      fix z assume "z \<in> ?B"
      then obtain name x where z: "z = (pipe, mailbox_line name x)" "s_boxes (service_abs b) name = Some x" by blast
      then have "box_lookup name ?t \<noteq> None" using service_none [of b name] by simp
      then obtain p where p: "box_lookup name ?t = Some p" by blast
      then obtain j where j: "j < unat (capacity ?t)" "slots ?t ! j = Some p" unfolding box_lookup_Some [OF bi(2)] by blast
      then have "(j, p) \<in> set ?js" using boxes_invD(6) [OF bi(2) j] by (auto simp: set_listed)
      moreover have "z = (pipe, box_line (the (heap ?t (snd (j, p)))))" using entry [OF p] z by auto
      ultimately show "z \<in> ?A" by (rule rev_image_eqI)
    }
  qed
  finally have lines: "(\<Union>(tx, m)\<in>set (map (Pair pipe) (map ?f ?js)). Pair tx ` set (fst (print_boxes [m])))
      = {(pipe, mailbox_line name x) |name x. s_boxes (service_abs b) name = Some x}" .
  have "?js \<noteq> []" using lines d by fastforce
  then have "snd (hd (map (Pair pipe) (map ?f ?js))) ! 0 = 8" using list_entry_views(2) [OF bi(2,3)] by (simp add: hd_map)
  then have "observed (map (Pair pipe) (map ?f ?js))
      = Listed {(pipe, mailbox_line name x) |name x. s_boxes (service_abs b) name = Some x}"
    using \<open>?js \<noteq> []\<close> unfolding observed_def lines by simp
  then show ?thesis using run d by (auto simp: list_spec_def)
qed

section \<open>The simulation\<close>

lemma bindE_run: "x = Inr v \<Longrightarrow> bindE x f = f v"
  by simp

text \<open>No other answer has the type 8.\<close>

lemma patch_head: "0 < off \<Longrightarrow> 0 < length xs \<Longrightarrow> patch off bs xs ! 0 = xs ! 0"
  by (cases xs; cases off) (simp_all add: patch_def)

lemma response_types:
  "manager_response c rc msg ! 0 = c" "empty_list_response c ! 0 = c"
  by (simp_all add: manager_response_def empty_list_response_def patch_head Let_def) (simp add: patch_def)

lemma observed_sent:
  "publish_spec name msgs a = (Sent ws, a') \<Longrightarrow> observed ws = Sent ws"
  "subscribe_spec pipe name a = (Sent ws, a') \<Longrightarrow> observed ws = Sent ws"
  "create_spec pipe name a = (Sent ws, a') \<Longrightarrow> observed ws = Sent ws"
  "remove_spec pipe name a = (Sent ws, a') \<Longrightarrow> observed ws = Sent ws"
  "observed [(pipe, empty_list_response 12)] = Sent [(pipe, empty_list_response 12)]" "observed [] = Sent []"
  by (auto simp: observed_def publish_spec_def subscribe_spec_def create_spec_def remove_spec_def response_types hd_map
      split: if_splits option.splits)

text \<open>A request, and where its handler is afterwards.\<close>

lemma serve_request:
  assumes inv: "service_inv b" and duty: "serve_duty r (service_abs b)"
  shows "\<exists>w ws b'. handle_request (supplied (r_env r) (r_memory r) b) (publisher_reads (r_msgs r)) subscriber_writes (r_buffer r) b
        = Inr (w, ws, b')
    \<and> service_inv b' \<and> keeps (-1) b b' \<and> serve_spec (r_msgs r) (r_buffer r) (service_abs b) = (observed ws, service_abs b')
    \<and> waits_ok b' w \<and> activity_of b' w = activity_spec (r_buffer r) (service_abs b)
    \<and> (\<forall>fd. handle_of w = Some fd \<longrightarrow> (\<exists>h. fd = int h \<and> a_handles (b_afs b) h = None))"
proof -
  let ?buf = "r_buffer r" and ?e = "supplied (r_env r) (r_memory r) b" and ?code = "r_buffer r ! 0"
  have e: "calm (r_env r)" "calm ?e" and mem: "memory_ok (r_memory r)" and msgs: "whole (r_msgs r)"
    using duty by (simp_all add: serve_duty_def whole_def)
  obtain pipe name where req: "carries ?buf ?code pipe name" "length name < 32" using duty unfolding serve_duty_def by blast
  have free: "s_waiting (service_abs b) < session_limit" if "?code \<in> {1, 2, 3}"
    using duty that unfolding serve_duty_def by blast
  have strs: "cstr (drop 1 ?buf) = pipe" "cstr (drop 257 ?buf) = name"
    using carriesD(3,4) [OF req(1)] by (simp_all add: string_at_def split: if_splits)
  have ready: "activity_spec ?buf (service_abs b) = Ready" if "?code \<noteq> 2"
    using that by (simp add: activity_spec_def split: option.split)
  have over: "waits_ok b' (Over v)" "activity_of b' (Over v) = Ready" for b' v
    by (simp_all add: waits_ok_def activity_of_def)
  note same = keeps_same [of b b, OF refl refl]
  consider "?code = 1" | "?code = 2" | "?code = 3" | "?code = 5" | "?code = 7" | "?code = 11"
    | "?code \<noteq> 1" "?code \<noteq> 2" "?code \<noteq> 3" "?code \<noteq> 5" "?code \<noteq> 7" "?code \<noteq> 11" by blast
  then show ?thesis
  proof cases
    case 1
    obtain q b' where "publisher_register ?e ?buf (publisher_reads (r_msgs r)) b = Inr (Over q, b')" "service_inv b'" "keeps (-1) b b'"
      "publish_spec name (r_msgs r) (service_abs b) = (Sent [], service_abs b')"
      using serve_publish [OF inv e(2) req(1) msgs] free 1 by blast
    then show ?thesis using 1 strs ready over by (simp add: handle_request_def observed_sent serve_spec_def)
  next
    case 2
    obtain w ws b' where "subscriber_register ?e ?buf subscriber_writes b = Inr (w, ws, b')" "service_inv b'" "keeps (-1) b b'"
      "subscribe_spec pipe name (service_abs b) = (Sent ws, service_abs b')" "waits_ok b' w"
      "activity_of b' w = (case s_boxes (service_abs b) name of None \<Rightarrow> Ready | Some x \<Rightarrow> Following pipe name (length (mb_messages x)))"
      "\<forall>fd. handle_of w = Some fd \<longrightarrow> (\<exists>h. fd = int h \<and> a_handles (b_afs b) h = None)"
      using serve_subscribe [OF inv e(2) req(1)] free 2 by blast
    then show ?thesis using 2 strs
      by (simp add: handle_request_def observed_sent serve_spec_def activity_spec_def del: service_limits cong: option.case_cong)
  next
    case 3
    obtain q ws b' where "manager_create_box ?e ?buf b = Inr (q, ws, b')" "service_inv b'" "keeps (-1) b b'"
      "create_spec pipe name (service_abs b) = (Sent ws, service_abs b')"
      using serve_create [OF inv e(1) mem req] free 3 by blast
    then show ?thesis using 3 strs ready over by (simp add: handle_request_def observed_sent serve_spec_def)
  next
    case 4
    obtain q ws b' where "manager_remove_box ?e ?buf b = Inr (q, ws, b')" "service_inv b'" "keeps (-1) b b'"
      "remove_spec pipe name (service_abs b) = (Sent ws, service_abs b')"
      using serve_remove [OF inv e(2) req] by blast
    then show ?thesis using 4 strs ready over by (simp add: handle_request_def observed_sent serve_spec_def)
  next
    case 5
    then have "carries ?buf 7 pipe name" using req(1) by simp
    then obtain q ws where "manager_list_box ?e ?buf b = Inr (q, ws, b)"
      "list_spec pipe (service_abs b) = (observed ws, service_abs b)"
      using serve_list [OF inv e(2)] by blast
    then show ?thesis using 5 strs inv same ready over by (simp add: handle_request_def serve_spec_def)
  next
    case 6
    then have "num_elem (b_table b) = 0" using duty no_boxes [OF inv] by (simp add: serve_duty_def)
    then have "\<exists>q. manager_list_subs ?e ?buf b = Inr (q, [(pipe, empty_list_response 12)], b)"
      using calmD [OF e(2)] carriesD(3) [OF req(1)] by (simp add: manager_list_subs_def)
    then show ?thesis using 6 strs inv same ready over by (auto simp: handle_request_def observed_sent serve_spec_def)
  next
    case 7
    then show ?thesis using inv same ready over by (simp add: handle_request_def observed_sent serve_spec_def)
  qed
qed

lemma serve_simulates:
  assumes "service_inv b" and "serve_duty r (service_abs b)"
  shows "\<exists>x b'. serve r b = Inr (x, b') \<and> service_inv b' \<and> serve_step_spec r (service_abs b) = (x, service_abs b')"
proof -
  obtain w ws b' where "handle_request (supplied (r_env r) (r_memory r) b) (publisher_reads (r_msgs r)) subscriber_writes (r_buffer r) b
        = Inr (w, ws, b')"
    "service_inv b'" "serve_spec (r_msgs r) (r_buffer r) (service_abs b) = (observed ws, service_abs b')"
    "activity_of b' w = activity_spec (r_buffer r) (service_abs b)"
    using serve_request [OF assms] by blast
  then show ?thesis by (simp add: serve_def serve_step_spec_def)
qed

interpretation service: simulation service_inv service_abs serve_duty serve serve_step_spec
  by unfold_locales (rule serve_simulates)

end
