(* ===== verification/Pcq_Conc.thy ===== *)
theory Pcq_Conc
  imports Pcq
begin

text \<open>
  The queue used by several threads. A thread is in the middle of a call at one of the
  boundaries of its critical sections, and the sections of different threads interleave in
  any order. A thread asleep on a condition variable goes back to its test when it is
  signalled, or at any time (POSIX allows spurious wake-ups). \<open>puts\<close> and \<open>gets\<close> record, in
  order, what has been stored into and taken from the buffer.
\<close>

section \<open>Threads\<close>

datatype 'e pc =
    Idle
  | Enq_Test 'e | Enq_Asleep 'e | Enq_Store 'e | Enq_Count
  | Deq_Test | Deq_Asleep | Deq_Take | Deq_Count 'e

record 'e conc =
  queue :: "'e pcq"
  pc :: "nat \<Rightarrow> 'e pc"
  puts :: "'e list"
  gets :: "'e list"

text \<open>The section a thread is about to run, as a fault or the next state (nobody woken).\<close>

fun run_section :: "nat \<Rightarrow> 'e conc \<Rightarrow> 'e conc res" where
  "run_section t s = (case pc s t of
      Enq_Test x \<Rightarrow> Inr (s\<lparr>pc := (pc s)(t := if enqueue_sleeps (queue s) then Enq_Asleep x else Enq_Store x)\<rparr>)
    | Enq_Store x \<Rightarrow> bindE (enqueue_store x (queue s)) (\<lambda>q.
        Inr (s\<lparr>queue := q, pc := (pc s)(t := Enq_Count), puts := puts s @ [x]\<rparr>))
    | Enq_Count \<Rightarrow> Inr (s\<lparr>queue := enqueue_count (queue s), pc := (pc s)(t := Idle)\<rparr>)
    | Deq_Test \<Rightarrow> Inr (s\<lparr>pc := (pc s)(t := if dequeue_sleeps (queue s) then Deq_Asleep else Deq_Take)\<rparr>)
    | Deq_Take \<Rightarrow> bindE (dequeue_take (queue s)) (\<lambda>(x, q).
        Inr (s\<lparr>queue := q, pc := (pc s)(t := Deq_Count x), gets := gets s @ [x]\<rparr>))
    | Deq_Count x \<Rightarrow> Inr (s\<lparr>queue := dequeue_count (queue s), pc := (pc s)(t := Idle)\<rparr>)
    | _ \<Rightarrow> Inr s)"

declare run_section.simps [simp del]

text \<open>
  One step, with the threads \<open>P\<close> allowed to enqueue and \<open>C\<close> to dequeue.
  \<open>pthread_cond_signal\<close> wakes one of the threads asleep on the variable, if there is one,
  in the same step as the section that signals.
\<close>

definition asleep :: "('e pc \<Rightarrow> bool) \<Rightarrow> 'e conc \<Rightarrow> nat set" where
  "asleep sleeper s = {u. sleeper (pc s u)}"

fun wake :: "'e pc \<Rightarrow> 'e pc" where
  "wake (Enq_Asleep x) = Enq_Test x"
| "wake Deq_Asleep = Deq_Test"
| "wake p = p"

definition is_pusher :: "'e pc \<Rightarrow> bool" where "is_pusher p \<longleftrightarrow> (\<exists>x. p = Enq_Asleep x)"
definition is_popper :: "'e pc \<Rightarrow> bool" where "is_popper p \<longleftrightarrow> p = Deq_Asleep"

inductive cstep :: "nat set \<Rightarrow> nat set \<Rightarrow> 'e conc \<Rightarrow> 'e conc \<Rightarrow> bool" for P C where
  call_enqueue: "t \<in> P \<Longrightarrow> pc s t = Idle \<Longrightarrow> cstep P C s (s\<lparr>pc := (pc s)(t := Enq_Test x)\<rparr>)"
| call_dequeue: "t \<in> C \<Longrightarrow> pc s t = Idle \<Longrightarrow> cstep P C s (s\<lparr>pc := (pc s)(t := Deq_Test)\<rparr>)"
| critical: "pc s t \<notin> {Enq_Count} \<Longrightarrow> \<not> (\<exists>x. pc s t = Deq_Count x) \<Longrightarrow> run_section t s = Inr s' \<Longrightarrow> cstep P C s s'"
| signal_popper: "pc s t = Enq_Count \<Longrightarrow> run_section t s = Inr s' \<Longrightarrow> u \<in> asleep is_popper s' \<Longrightarrow>
    cstep P C s (s'\<lparr>pc := (pc s')(u := wake (pc s' u))\<rparr>)"
| signal_nobody: "pc s t = Enq_Count \<Longrightarrow> run_section t s = Inr s' \<Longrightarrow> asleep is_popper s' = {} \<Longrightarrow> cstep P C s s'"
| signal_pusher: "pc s t = Deq_Count x \<Longrightarrow> run_section t s = Inr s' \<Longrightarrow> u \<in> asleep is_pusher s' \<Longrightarrow>
    cstep P C s (s'\<lparr>pc := (pc s')(u := wake (pc s' u))\<rparr>)"
| signal_no_pusher: "pc s t = Deq_Count x \<Longrightarrow> run_section t s = Inr s' \<Longrightarrow> asleep is_pusher s' = {} \<Longrightarrow> cstep P C s s'"
| spurious: "cstep P C s (s\<lparr>pc := (pc s)(t := wake (pc s t))\<rparr>)"

definition conc_init :: "'e list \<Rightarrow> size_t \<Rightarrow> 'e conc" where
  "conc_init buffer capacity =
     \<lparr>queue = \<lparr>pcq_buffer = Some buffer, pcq_capacity = capacity, pcq_current_size = 0, pcq_head = 0, pcq_tail = 0\<rparr>,
      pc = (\<lambda>_. Idle), puts = [], gets = []\<rparr>"

definition creachable :: "nat set \<Rightarrow> nat set \<Rightarrow> 'e conc \<Rightarrow> 'e conc \<Rightarrow> bool" where
  "creachable P C = (cstep P C)\<^sup>*\<^sup>*"

section \<open>One producer and one consumer\<close>

definition in_count :: "'e pc \<Rightarrow> nat" where
  "in_count p = (case p of Enq_Count \<Rightarrow> 1 | Deq_Count x \<Rightarrow> 1 | _ \<Rightarrow> 0)"

abbreviation csize :: "'e conc \<Rightarrow> nat" where "csize s \<equiv> unat (pcq_current_size (queue s))"
abbreviation ccap :: "'e conc \<Rightarrow> nat" where "ccap s \<equiv> pcq_limit (queue s)"

text \<open>
  The invariant: \<open>pcq_current_size\<close> counts the elements up to the sections that are still to
  adjust it, the ring holds \<open>puts\<close> from the number of \<open>gets\<close> on, and what was taken is a
  prefix of what was put.
\<close>

definition pc_enq :: "'e conc \<Rightarrow> 'e pc \<Rightarrow> bool" where
  "pc_enq s p = (case p of Idle \<Rightarrow> True | Enq_Test x \<Rightarrow> True | Enq_Asleep x \<Rightarrow> csize s = ccap s
     | Enq_Store x \<Rightarrow> csize s < ccap s | Enq_Count \<Rightarrow> csize s < ccap s | _ \<Rightarrow> False)"

definition pc_deq :: "'e conc \<Rightarrow> 'e pc \<Rightarrow> bool" where
  "pc_deq s p = (case p of Idle \<Rightarrow> True | Deq_Test \<Rightarrow> True | Deq_Asleep \<Rightarrow> csize s = 0
     | Deq_Take \<Rightarrow> 0 < csize s | Deq_Count x \<Rightarrow> 0 < csize s \<and> gets s \<noteq> [] \<and> x = last (gets s) | _ \<Rightarrow> False)"

definition ring_ok :: "'e conc \<Rightarrow> bool" where
  "ring_ok s \<longleftrightarrow> pcq_buffer (queue s) \<noteq> None \<and> length (the (pcq_buffer (queue s))) = ccap s \<and> csize s \<le> ccap s
     \<and> (0 < ccap s \<longrightarrow> unat (pcq_head (queue s)) = length (puts s) mod ccap s
          \<and> unat (pcq_tail (queue s)) = length (gets s) mod ccap s)
     \<and> gets s = take (length (gets s)) (puts s)
     \<and> (\<forall>k<length (puts s). length (gets s) \<le> k \<longrightarrow> the (pcq_buffer (queue s)) ! (k mod ccap s) = puts s ! k)"

definition spsc_inv :: "nat \<Rightarrow> nat \<Rightarrow> 'e conc \<Rightarrow> bool" where
  "spsc_inv p c s \<longleftrightarrow> p \<noteq> c \<and> ring_ok s
     \<and> csize s + length (gets s) + in_count (pc s p) = length (puts s) + in_count (pc s c)
     \<and> pc_enq s (pc s p) \<and> pc_deq s (pc s c) \<and> (\<forall>t. t \<noteq> p \<longrightarrow> t \<noteq> c \<longrightarrow> pc s t = Idle)"

lemma in_count_simps [simp]:
  "in_count Idle = 0" "in_count (Enq_Test x) = 0" "in_count (Enq_Asleep x) = 0" "in_count (Enq_Store x) = 0"
  "in_count Enq_Count = 1" "in_count Deq_Test = 0" "in_count Deq_Asleep = 0" "in_count Deq_Take = 0"
  "in_count (Deq_Count x) = 1"
  by (simp_all add: in_count_def)

lemma pc_enq_simps [simp]:
  "pc_enq s Idle" "pc_enq s (Enq_Test x)" "pc_enq s (Enq_Asleep x) \<longleftrightarrow> csize s = ccap s"
  "pc_enq s (Enq_Store x) \<longleftrightarrow> csize s < ccap s" "pc_enq s Enq_Count \<longleftrightarrow> csize s < ccap s"
  "\<not> pc_enq s Deq_Test" "\<not> pc_enq s Deq_Asleep" "\<not> pc_enq s Deq_Take" "\<not> pc_enq s (Deq_Count x)"
  by (simp_all add: pc_enq_def)

lemma pc_deq_simps [simp]:
  "pc_deq s Idle" "pc_deq s Deq_Test" "pc_deq s Deq_Asleep \<longleftrightarrow> csize s = 0" "pc_deq s Deq_Take \<longleftrightarrow> 0 < csize s"
  "pc_deq s (Deq_Count x) \<longleftrightarrow> 0 < csize s \<and> gets s \<noteq> [] \<and> x = last (gets s)"
  "\<not> pc_deq s (Enq_Test x)" "\<not> pc_deq s (Enq_Asleep x)" "\<not> pc_deq s (Enq_Store x)" "\<not> pc_deq s Enq_Count"
  by (simp_all add: pc_deq_def)

lemma pc_update [simp]:
  "pc_enq (s\<lparr>pc := f\<rparr>) = pc_enq s" "pc_deq (s\<lparr>pc := f\<rparr>) = pc_deq s" "ring_ok (s\<lparr>pc := f\<rparr>) = ring_ok s"
  by (auto simp: fun_eq_iff pc_enq_def pc_deq_def ring_ok_def split: pc.splits)

lemma wake_pc [simp]: "in_count (wake v) = in_count v" "pc_enq s v \<Longrightarrow> pc_enq s (wake v)" "pc_deq s v \<Longrightarrow> pc_deq s (wake v)"
  "wake v = Idle \<longleftrightarrow> v = Idle"
  by (cases v; simp)+

lemma spsc_init:
  assumes "length buffer = unat capacity" and "p \<noteq> c"
  shows "spsc_inv p c (conc_init buffer capacity)"
  using assms by (simp add: spsc_inv_def ring_ok_def conc_init_def pc_enq_def pc_deq_def)

lemma ring_distinct:
  assumes "a < b" and "b < a + (n::nat)"
  shows "a mod n \<noteq> b mod n"
proof
  assume "a mod n = b mod n"
  then have "n dvd b - a" using assms(1) by (metis less_imp_le mod_eq_dvd_iff_nat)
  then show False using assms by (auto dest: dvd_imp_le)
qed

text \<open>The section that stores an element.\<close>

lemma spsc_store:
  assumes inv: "spsc_inv p c s" and x: "pc s p = Enq_Store x"
  obtains s' where "run_section p s = Inr s'" and "spsc_inv p c s'"
proof -
  let ?n = "ccap s" and ?np = "length (puts s)" and ?ng = "length (gets s)" and ?q = "queue s"
  have sz: "csize s < ?n" using inv x by (simp add: spsc_inv_def pc_enq_def)
  have ring: "ring_ok s" using inv by (simp add: spsc_inv_def)
  obtain b where b: "pcq_buffer ?q = Some b" "length b = ?n" using ring by (auto simp: ring_ok_def)
  have hd: "unat (pcq_head ?q) = ?np mod ?n" using ring sz by (simp add: ring_ok_def)
  have room: "?np < ?ng + ?n" using inv x sz by (simp add: spsc_inv_def)
  have gp: "gets s = take ?ng (puts s)" using ring by (simp add: ring_ok_def)
  then have le: "?ng \<le> ?np" by (metis length_take min.cobounded1)
  have h: "unat (pcq_head ?q) < ?n" using sz hd by simp
  have n0: "pcq_capacity ?q \<noteq> 0" using sz by auto
  let ?q' = "?q\<lparr>pcq_buffer := Some (b[?np mod ?n := x]), pcq_head := (pcq_head ?q + 1) mod pcq_capacity ?q\<rparr>"
  let ?s' = "s\<lparr>queue := ?q', pc := (pc s)(p := Enq_Count), puts := puts s @ [x]\<rparr>"
  have "enqueue_store x ?q = Inr ?q'" using b hd h n0 by (simp add: enqueue_store_def)
  then have run: "run_section p s = Inr ?s'" using x by (simp add: run_section.simps)
  have head: "unat ((pcq_head ?q + 1) mod pcq_capacity ?q) = Suc ?np mod ?n"
    using unat_next [OF h] hd by (simp add: mod_simps)
  have cells: "b[?np mod ?n := x] ! (k mod ?n) = (puts s @ [x]) ! k" if "k < Suc ?np" "?ng \<le> k" for k
  proof (cases "k = ?np")
    case True
    then show ?thesis using b h hd by simp
  next
    case False
    then have "k < ?np" using that by simp
    moreover have "k mod ?n \<noteq> ?np mod ?n" using ring_distinct [of k ?np ?n] that room \<open>k < ?np\<close> by simp
    ultimately show ?thesis using ring b that(2) by (simp add: ring_ok_def nth_append)
  qed
  have gp': "gets s = take ?ng (puts s @ [x])" using gp le by simp
  have ring': "ring_ok ?s'"
    using ring b head cells gp' by (simp add: ring_ok_def)
  have "spsc_inv p c ?s'"
    using inv x ring' unfolding spsc_inv_def by (auto simp: pc_enq_def pc_deq_def split: pc.splits)
  with run show thesis by (rule that)
qed

text \<open>The section that takes one.\<close>

lemma spsc_take:
  assumes inv: "spsc_inv p c s" and x: "pc s c = Deq_Take"
  obtains s' where "run_section c s = Inr s'" and "spsc_inv p c s'"
proof -
  let ?n = "ccap s" and ?np = "length (puts s)" and ?ng = "length (gets s)" and ?q = "queue s"
  have sz: "0 < csize s" using inv x by (simp add: spsc_inv_def pc_deq_def)
  have ring: "ring_ok s" using inv by (simp add: spsc_inv_def)
  have n: "0 < ?n" using ring sz by (simp add: ring_ok_def)
  obtain b where b: "pcq_buffer ?q = Some b" "length b = ?n" using ring by (auto simp: ring_ok_def)
  have tl: "unat (pcq_tail ?q) = ?ng mod ?n" using ring n by (simp add: ring_ok_def)
  have lt: "?ng < ?np" using inv x sz by (simp add: spsc_inv_def)
  have t: "unat (pcq_tail ?q) < ?n" using n tl by simp
  have n0: "pcq_capacity ?q \<noteq> 0" using n by auto
  let ?x = "puts s ! ?ng"
  have cell: "b ! (?ng mod ?n) = ?x" using ring lt b by (simp add: ring_ok_def)
  let ?q' = "?q\<lparr>pcq_tail := (pcq_tail ?q + 1) mod pcq_capacity ?q\<rparr>"
  let ?s' = "s\<lparr>queue := ?q', pc := (pc s)(c := Deq_Count ?x), gets := gets s @ [?x]\<rparr>"
  have "dequeue_take ?q = Inr (?x, ?q')" using b tl t n0 cell by (simp add: dequeue_take_def)
  then have run: "run_section c s = Inr ?s'" using x by (simp add: run_section.simps)
  have tail: "unat ((pcq_tail ?q + 1) mod pcq_capacity ?q) = Suc ?ng mod ?n"
    using unat_next [OF t] tl by (simp add: mod_simps)
  have "gets s = take ?ng (puts s)" using ring by (simp add: ring_ok_def)
  then have gp': "gets s @ [?x] = take (Suc ?ng) (puts s)" using lt by (metis take_Suc_conv_app_nth)
  have "min ?np (Suc ?ng) = Suc ?ng" using lt by simp
  then have ring': "ring_ok ?s'"
    using ring b tail gp' by (simp add: ring_ok_def)
  have "spsc_inv p c ?s'"
    using inv x ring' unfolding spsc_inv_def by (auto simp: pc_enq_def pc_deq_def split: pc.splits)
  with run show thesis by (rule that)
qed

text \<open>The sections that adjust the size, without their signals.\<close>

lemma spsc_count:
  assumes inv: "spsc_inv p c s" and x: "pc s p = Enq_Count"
  shows "spsc_inv p c (s\<lparr>queue := enqueue_count (queue s),
    pc := (pc s)(p := Idle, c := wake (pc s c))\<rparr>)"
proof -
  have sz: "csize s < ccap s" using inv x by (simp add: spsc_inv_def pc_enq_def)
  then have "unat (pcq_current_size (queue s) + 1) = csize s + 1" by (rule unat_inc)
  then show ?thesis
    using inv x sz unfolding spsc_inv_def ring_ok_def
    by (auto simp: enqueue_count_def pc_enq_def pc_deq_def split: pc.splits)
qed

lemma spsc_uncount:
  assumes inv: "spsc_inv p c s" and x: "pc s c = Deq_Count v"
  shows "spsc_inv p c (s\<lparr>queue := dequeue_count (queue s),
    pc := (pc s)(c := Idle, p := wake (pc s p))\<rparr>)"
proof -
  have sz: "0 < csize s" using inv x by (simp add: spsc_inv_def pc_deq_def)
  then have "unat (pcq_current_size (queue s) - 1) = csize s - 1" by (rule unat_dec)
  then show ?thesis
    using inv x sz unfolding spsc_inv_def ring_ok_def
    by (auto simp: dequeue_count_def pc_enq_def pc_deq_def split: pc.splits)
qed

section \<open>Every step keeps the invariant\<close>

lemma spsc_wake:
  "spsc_inv p c s \<Longrightarrow> spsc_inv p c (s\<lparr>pc := (pc s)(t := wake (pc s t))\<rparr>)"
  by (auto simp: spsc_inv_def)

lemma spsc_test:
  assumes inv: "spsc_inv p c s"
  shows "pc s p = Enq_Test x \<Longrightarrow>
      spsc_inv p c (s\<lparr>pc := (pc s)(p := if enqueue_sleeps (queue s) then Enq_Asleep x else Enq_Store x)\<rparr>)"
    and "pc s c = Deq_Test \<Longrightarrow>
      spsc_inv p c (s\<lparr>pc := (pc s)(c := if dequeue_sleeps (queue s) then Deq_Asleep else Deq_Take)\<rparr>)"
proof -
  have le: "csize s \<le> ccap s" using inv by (simp add: spsc_inv_def ring_ok_def)
  have full: "enqueue_sleeps (queue s) \<longleftrightarrow> csize s = ccap s"
    by (metis enqueue_sleeps_def unsigned_word_eqI)
  have empty: "dequeue_sleeps (queue s) \<longleftrightarrow> csize s = 0"
    by (simp add: dequeue_sleeps_def unat_eq_0)
  show "spsc_inv p c (s\<lparr>pc := (pc s)(p := if enqueue_sleeps (queue s) then Enq_Asleep x else Enq_Store x)\<rparr>)"
    if "pc s p = Enq_Test x"
    using inv that le full by (auto simp: spsc_inv_def)
  show "spsc_inv p c (s\<lparr>pc := (pc s)(c := if dequeue_sleeps (queue s) then Deq_Asleep else Deq_Take)\<rparr>)"
    if "pc s c = Deq_Test"
    using inv that empty by (auto simp: spsc_inv_def)
qed

text \<open>Only the producer is ever in a section of \<open>pcq_enqueue\<close>, only the consumer in one of \<open>pcq_dequeue\<close>.\<close>

lemma spsc_who:
  assumes "spsc_inv p c s"
  shows "pc s t \<in> {Enq_Count} \<union> range Enq_Test \<union> range Enq_Store \<union> range Enq_Asleep \<Longrightarrow> t = p"
    and "pc s t \<in> {Deq_Test, Deq_Take, Deq_Asleep} \<union> range Deq_Count \<Longrightarrow> t = c"
proof -
  have other: "t \<noteq> p \<Longrightarrow> t \<noteq> c \<Longrightarrow> pc s t = Idle" and "pc_enq s (pc s p)" "pc_deq s (pc s c)"
    using assms by (simp_all add: spsc_inv_def)
  then have d: "t \<noteq> p \<Longrightarrow> pc_deq s (pc s t)" and e: "t \<noteq> c \<Longrightarrow> pc_enq s (pc s t)" by force+
  show "pc s t \<in> {Enq_Count} \<union> range Enq_Test \<union> range Enq_Store \<union> range Enq_Asleep \<Longrightarrow> t = p"
    using d by (cases "t = p") auto
  show "pc s t \<in> {Deq_Test, Deq_Take, Deq_Asleep} \<union> range Deq_Count \<Longrightarrow> t = c"
    using e by (cases "t = c") auto
qed

lemma spsc_no_fault:
  assumes inv: "spsc_inv p c s"
  shows "run_section t s \<noteq> Inl e"
proof (cases "pc s t")
  case (Enq_Store x)
  then have "t = p" using spsc_who(1) [OF inv, of t] by simp
  then show ?thesis using spsc_store [OF inv, of x] Enq_Store by (metis sum.distinct(1))
next
  case Deq_Take
  then have "t = c" using spsc_who(2) [OF inv, of t] by simp
  then show ?thesis using spsc_take [OF inv] Deq_Take by (metis sum.distinct(1))
qed (simp_all add: run_section.simps)

lemma spsc_section:
  assumes inv: "spsc_inv p c s" and run: "run_section t s = Inr s'"
    and no: "pc s t \<noteq> Enq_Count" "\<And>x. pc s t \<noteq> Deq_Count x"
  shows "spsc_inv p c s'"
proof (cases "pc s t")
  case (Enq_Test x)
  then have "t = p" using spsc_who(1) [OF inv, of t] by simp
  then show ?thesis using spsc_test(1) [OF inv, of x] Enq_Test run by (simp add: run_section.simps)
next
  case (Enq_Store x)
  then have t: "t = p" using spsc_who(1) [OF inv, of t] by simp
  obtain u where "run_section p s = Inr u" "spsc_inv p c u"
    using spsc_store [OF inv, of x] Enq_Store t by blast
  then show ?thesis using run t by simp
next
  case Deq_Test
  then have "t = c" using spsc_who(2) [OF inv, of t] by simp
  then show ?thesis using spsc_test(2) [OF inv] Deq_Test run by (simp add: run_section.simps)
next
  case Deq_Take
  then have t: "t = c" using spsc_who(2) [OF inv, of t] by simp
  obtain u where "run_section c s = Inr u" "spsc_inv p c u"
    using spsc_take [OF inv] Deq_Take t by blast
  then show ?thesis using run t by simp
qed (use run inv no in \<open>simp_all add: run_section.simps\<close>)

text \<open>A counting section with its signal, which reaches the other side if it is asleep.\<close>

lemma spsc_signal_popper:
  assumes inv: "spsc_inv p c s" and t: "pc s t = Enq_Count" and run: "run_section t s = Inr s'"
  shows "u \<in> asleep is_popper s' \<Longrightarrow> spsc_inv p c (s'\<lparr>pc := (pc s')(u := wake (pc s' u))\<rparr>)"
    and "asleep is_popper s' = {} \<Longrightarrow> spsc_inv p c s'"
proof -
  have tp: "t = p" using spsc_who(1) [OF inv, of t] t by simp
  have pc: "p \<noteq> c" using inv by (simp add: spsc_inv_def)
  have s': "s' = s\<lparr>queue := enqueue_count (queue s), pc := (pc s)(p := Idle)\<rparr>"
    using run t tp by (simp add: run_section.simps)
  note c = spsc_count [OF inv t [unfolded tp]]
  show "spsc_inv p c (s'\<lparr>pc := (pc s')(u := wake (pc s' u))\<rparr>)" if "u \<in> asleep is_popper s'"
  proof -
    have u: "pc s u = Deq_Asleep" "u \<noteq> p"
      using that s' by (auto simp: asleep_def is_popper_def split: if_splits)
    then have "u = c" using spsc_who(2) [OF inv, of u] by simp
    then show ?thesis using c s' pc by simp
  qed
  show "spsc_inv p c s'" if "asleep is_popper s' = {}"
  proof -
    have "pc s c \<noteq> Deq_Asleep" using that s' pc by (auto simp: asleep_def is_popper_def split: if_splits)
    then have "wake (pc s c) = pc s c"
      using inv by (cases "pc s c") (simp_all add: spsc_inv_def pc_deq_def)
    moreover have "(pc s)(p := Idle, c := pc s c) = (pc s)(p := Idle)" using pc by auto
    ultimately show ?thesis using c s' by simp
  qed
qed

lemma spsc_signal_pusher:
  assumes inv: "spsc_inv p c s" and t: "pc s t = Deq_Count x" and run: "run_section t s = Inr s'"
  shows "u \<in> asleep is_pusher s' \<Longrightarrow> spsc_inv p c (s'\<lparr>pc := (pc s')(u := wake (pc s' u))\<rparr>)"
    and "asleep is_pusher s' = {} \<Longrightarrow> spsc_inv p c s'"
proof -
  have tc: "t = c" using spsc_who(2) [OF inv, of t] t by simp
  have pc: "p \<noteq> c" using inv by (simp add: spsc_inv_def)
  have s': "s' = s\<lparr>queue := dequeue_count (queue s), pc := (pc s)(c := Idle)\<rparr>"
    using run t tc by (simp add: run_section.simps)
  note c = spsc_uncount [OF inv t [unfolded tc]]
  show "spsc_inv p c (s'\<lparr>pc := (pc s')(u := wake (pc s' u))\<rparr>)" if "u \<in> asleep is_pusher s'"
  proof -
    have "u \<noteq> c" "is_pusher (pc s u)" using that s' by (auto simp: asleep_def is_pusher_def split: if_splits)
    then obtain y where u: "pc s u = Enq_Asleep y" "u \<noteq> c" by (auto simp: is_pusher_def)
    then have "u = p" using spsc_who(1) [OF inv, of u] by simp
    then show ?thesis using c s' pc by simp
  qed
  show "spsc_inv p c s'" if "asleep is_pusher s' = {}"
  proof -
    have "\<not> is_pusher (pc s p)" using that s' pc by (auto simp: asleep_def split: if_splits)
    then have "wake (pc s p) = pc s p"
      using inv by (cases "pc s p") (simp_all add: spsc_inv_def pc_enq_def is_pusher_def)
    moreover have "(pc s)(c := Idle, p := pc s p) = (pc s)(c := Idle)" using pc by auto
    ultimately show ?thesis using c s' by simp
  qed
qed

lemma spsc_step:
  assumes "cstep {p} {c} s s'" and "spsc_inv p c s"
  shows "spsc_inv p c s'"
  using assms
proof (cases rule: cstep.cases)
  case (call_enqueue t x)
  then show ?thesis using assms(2) by (auto simp: spsc_inv_def)
next
  case (call_dequeue t)
  then show ?thesis using assms(2) by (auto simp: spsc_inv_def)
next
  case (critical t)
  then show ?thesis using spsc_section [OF assms(2)] by auto
next
  case (signal_popper t u w)
  then show ?thesis using spsc_signal_popper(1) [OF assms(2)] by simp
next
  case (signal_nobody t)
  then show ?thesis using spsc_signal_popper(2) [OF assms(2)] by simp
next
  case (signal_pusher t x u w)
  then show ?thesis using spsc_signal_pusher(1) [OF assms(2)] by simp
next
  case (signal_no_pusher t x)
  then show ?thesis using spsc_signal_pusher(2) [OF assms(2)] by simp
next
  case (spurious t)
  then show ?thesis using spsc_wake [OF assms(2)] by simp
qed

interpretation spsc: machine "cstep {p} {c}" "spsc_inv p c" for p c
  by unfold_locales (rule spsc_step)

lemma spsc_reachable:
  assumes "creachable {p} {c} s s'" and "spsc_inv p c s"
  shows "spsc_inv p c s'"
  using assms unfolding creachable_def by (rule spsc.holds_after)

end
