(* ===== verification/Pcq_Props.thy ===== *)
theory Pcq_Props
  imports Pcq_Conc
begin

text \<open>
  What the queue promises: the order of the elements, safety and wake-ups with one producer
  and one consumer, and the run with two consumers that breaks it, which is the way
  \<open>mbroker.c\<close> uses it (one \<open>main\<close> thread enqueues, \<open>max_sessions\<close> threads dequeue).
\<close>

text \<open>
  C9. On a buffer of the size asked for, whatever it holds, every sequence of calls made by
  one thread at a time returns what a list of at most \<open>capacity\<close> elements returns, oldest
  first; a call sleeps exactly when the list is full, or empty.
\<close>

theorem pcq_runs_fifo:
  assumes "length buffer = unat capacity"
  shows "\<exists>q xs q'. pcq_create (Some buffer) capacity q0 = (0, q) \<and> run_all pcq_step rs q = Inr (xs, q')
    \<and> pcq_inv q' \<and> spec_all fifo_step rs (unat capacity, []) = (xs, pcq_abs q')"
proof -
  have duty: "duty_all fifo_step (\<lambda>_ _. True) rs a" for a
    by (induction rs arbitrary: a) auto
  note c = pcq_create_inv [OF assms, of q0]
  from pcq.run_simulates [OF c(2) duty] c(1,3) show ?thesis by metis
qed

definition scratch_queue :: "nat pcq" where
  "scratch_queue = \<lparr>pcq_buffer = None, pcq_capacity = 9, pcq_current_size = 9, pcq_head = 9, pcq_tail = 9\<rparr>"

theorem pcq_runs_fifo_witness:
  "\<exists>q xs q'. pcq_create (Some [70, 80]) 2 scratch_queue = (0, q)
    \<and> run_all pcq_step [Enqueue 1, Enqueue 2, Enqueue 3, Dequeue] q = Inr (xs, q')
    \<and> pcq_inv q' \<and> spec_all fifo_step [Enqueue 1, Enqueue 2, Enqueue 3, Dequeue] (unat (2 :: size_t), []) = (xs, pcq_abs q')"
  by (rule pcq_runs_fifo) simp

lemma spec_enqueues:
  "length ys + length xs \<le> n \<Longrightarrow>
     spec_all fifo_step (map Enqueue xs @ rs) (n, ys) =
       (case spec_all fifo_step rs (n, ys @ xs) of (os, a) \<Rightarrow> (replicate (length xs) (Some None) @ os, a))"
  by (induction xs arbitrary: ys) (auto split: prod.splits)

lemma spec_dequeues:
  "spec_all fifo_step (replicate (length xs) Dequeue) (n, xs @ ys) = (map (\<lambda>x. Some (Some x)) xs, n, ys)"
  by (induction xs) auto

text \<open>
  Up to \<open>capacity\<close> elements enqueued on a new queue come out in the order they went in.
\<close>

theorem pcq_first_in_first_out:
  assumes "length buffer = unat capacity" and "length xs \<le> unat capacity"
  shows "\<exists>q q'. pcq_create (Some buffer) capacity q0 = (0, q)
    \<and> run_all pcq_step (map Enqueue xs @ replicate (length xs) Dequeue) q
      = Inr (replicate (length xs) (Some None) @ map (\<lambda>x. Some (Some x)) xs, q')"
proof -
  let ?rs = "map Enqueue xs @ replicate (length xs) Dequeue"
  have duty: "duty_all fifo_step (\<lambda>_ _. True) rs a" for rs a
    by (induction rs arbitrary: a) auto
  note c = pcq_create_inv [OF assms(1), of q0]
  obtain os q' where r: "run_all pcq_step ?rs (snd (pcq_create (Some buffer) capacity q0)) = Inr (os, q')"
    "spec_all fifo_step ?rs (unat capacity, []) = (os, pcq_abs q')"
    using pcq.run_simulates [OF c(2) duty, of ?rs] c(3) by auto
  have "os = replicate (length xs) (Some None) @ map (\<lambda>x. Some (Some x)) xs"
    using r(2) spec_enqueues [of "[]" xs "unat capacity" "replicate (length xs) Dequeue"] assms(2)
      spec_dequeues [of xs "unat capacity" "[]"] by simp
  then show ?thesis using c(1) r(1) by metis
qed

theorem pcq_first_in_first_out_witness:
  "\<exists>q q'. pcq_create (Some [70, 80, 90]) 3 scratch_queue = (0, q)
    \<and> run_all pcq_step (map Enqueue [1, 2] @ replicate (length [1, 2::nat]) Dequeue) q
      = Inr (replicate (length [1, 2::nat]) (Some None) @ map (\<lambda>x. Some (Some x)) [1, 2], q')"
  by (rule pcq_first_in_first_out) simp_all

section \<open>Reachable states of small runs\<close>

lemma reach_one: "cstep P C s t \<Longrightarrow> creachable P C s t"
  unfolding creachable_def by blast

lemma reach_more: "creachable P C s t \<Longrightarrow> cstep P C t u \<Longrightarrow> creachable P C s u"
  unfolding creachable_def by (rule rtranclp.rtrancl_into_rtrancl)

lemma reach_section:
  assumes "creachable P C s u" and "run_section t u = Inr v" and "pc u t \<noteq> Enq_Count" and "\<And>x. pc u t \<noteq> Deq_Count x"
  shows "creachable P C s v"
  using assms by (auto intro: reach_more critical)

text \<open>The state after the producer's first test on a queue of two.\<close>

definition conc_a :: "nat conc" where
  "conc_a = (conc_init [70, 80] 2)\<lparr>pc := (\<lambda>_. Idle)(0 := Enq_Test 5)\<rparr>"

lemma conc_a_step: "0 \<in> P \<Longrightarrow> cstep P C (conc_init [70, 80] 2) conc_a"
  using call_enqueue [of 0 P "conc_init [70, 80] 2" C 5] by (simp add: conc_a_def conc_init_def)

text \<open>A queue of two whose element 5 is in it, or has been taken.\<close>

definition conc_race :: "(nat \<Rightarrow> nat pc) \<Rightarrow> size_t \<Rightarrow> size_t \<Rightarrow> nat list \<Rightarrow> nat conc" where
  "conc_race f sz ti gs = \<lparr>queue = \<lparr>pcq_buffer = Some [5, 80], pcq_capacity = 2, pcq_current_size = sz, pcq_head = 1, pcq_tail = ti\<rparr>,
     pc = f, puts = [5], gets = gs\<rparr>"

lemma race_run:
  fixes f :: "nat \<Rightarrow> nat pc"
  shows "f t = Deq_Test \<Longrightarrow> sz \<noteq> 0 \<Longrightarrow> run_section t (conc_race f sz ti gs) = Inr (conc_race (f(t := Deq_Take)) sz ti gs)"
    and "f t = Deq_Take \<Longrightarrow> ti = 0 \<Longrightarrow> run_section t (conc_race f sz ti gs) = Inr (conc_race (f(t := Deq_Count 5)) sz 1 (gs @ [5]))"
    and "f t = Deq_Take \<Longrightarrow> ti = 1 \<Longrightarrow> run_section t (conc_race f sz ti gs) = Inr (conc_race (f(t := Deq_Count 80)) sz 0 (gs @ [80]))"
    and "f t = Deq_Count x \<Longrightarrow> run_section t (conc_race f sz ti gs) = Inr (conc_race (f(t := Idle)) (sz - 1) ti gs)"
  by (simp_all add: run_section.simps conc_race_def dequeue_sleeps_def dequeue_take_def dequeue_count_def)

lemma race_start: "creachable {0} C (conc_init [70, 80] 2) (conc_race (\<lambda>_. Idle) 1 0 [])"
proof -
  let ?i = "conc_init [70, 80 :: nat] 2"
  let ?s1 = "?i\<lparr>pc := (\<lambda>_. Idle)(0 := Enq_Store 5)\<rparr>"
  let ?s2 = "conc_race ((\<lambda>_. Idle)(0 := Enq_Count)) 0 0 []"
  have r1: "creachable {0} C ?i conc_a" by (rule reach_one, rule conc_a_step) simp
  have run1: "run_section 0 conc_a = Inr ?s1"
    by (simp add: run_section.simps conc_a_def conc_init_def enqueue_sleeps_def)
  have r2: "creachable {0} C ?i ?s1"
    by (rule reach_section [OF r1 run1]) (simp_all add: conc_a_def)
  have run2: "run_section 0 ?s1 = Inr ?s2"
    by (simp add: run_section.simps conc_init_def enqueue_store_def conc_race_def)
  have r3: "creachable {0} C ?i ?s2"
    by (rule reach_section [OF r2 run2]) simp_all
  have run: "run_section 0 ?s2 = Inr (conc_race (\<lambda>_. Idle) 1 0 [])"
    by (simp add: run_section.simps conc_race_def enqueue_count_def fun_upd_idem)
  have "pc ?s2 0 = Enq_Count" by (simp add: conc_race_def)
  moreover have "asleep is_popper (conc_race (\<lambda>_. Idle) 1 0 []) = {}"
    by (simp add: asleep_def is_popper_def conc_race_def)
  ultimately show ?thesis using reach_more [OF r3] signal_nobody [OF _ run] by blast
qed

text \<open>Consumer 1 has taken the element and is about to count it.\<close>

definition conc_b :: "nat conc" where
  "conc_b = conc_race ((\<lambda>_. Idle)(1 := Deq_Count 5)) 1 1 [5]"

lemma conc_b_reach: "creachable {0} {1} (conc_init [70, 80] 2) conc_b"
proof -
  let ?R = "creachable {0} {1} (conc_init [70, 80 :: nat] 2)"
  have "?R (conc_race ((\<lambda>_. Idle)(1 := Deq_Test)) 1 0 [])"
    using reach_more [OF race_start call_dequeue [of 1]] by (simp add: conc_race_def)
  then have "?R (conc_race ((\<lambda>_. Idle)(1 := Deq_Test, 1 := Deq_Take)) 1 0 [])"
    by (rule reach_section [OF _ race_run(1)]) (simp_all add: conc_race_def)
  then have "?R (conc_race ((\<lambda>_. Idle)(1 := Deq_Test, 1 := Deq_Take, 1 := Deq_Count 5)) 1 1 ([] @ [5]))"
    by (rule reach_section [OF _ race_run(2)]) (simp_all add: conc_race_def)
  then show ?thesis by (simp add: conc_b_def)
qed

text \<open>Consumer 1 asleep on the empty queue.\<close>

definition conc_s :: "nat conc" where
  "conc_s = (conc_init [70, 80] 2)\<lparr>pc := (\<lambda>_. Idle)(1 := Deq_Asleep)\<rparr>"

lemma conc_s_reach: "creachable {0} {1} (conc_init [70, 80] 2) conc_s"
proof -
  let ?i = "conc_init [70, 80 :: nat] 2"
  have 1: "creachable {0} {1} ?i (?i\<lparr>pc := (\<lambda>_. Idle)(1 := Deq_Test)\<rparr>)"
    using reach_one [OF call_dequeue [of 1 "{1}" ?i "{0}"]] by (simp add: conc_init_def)
  have 2: "run_section 1 (?i\<lparr>pc := (\<lambda>_. Idle)(1 := Deq_Test)\<rparr>) = Inr conc_s"
    by (simp add: run_section.simps conc_s_def conc_init_def dequeue_sleeps_def)
  show ?thesis by (rule reach_section [OF 1 2]) simp_all
qed

section \<open>One producer and one consumer\<close>

text \<open>
  C8. With one producer and one consumer, in every interleaving of their critical sections
  and with any spurious wake-ups: no access leaves the buffer, what was taken is at every
  moment a prefix of what was put (nothing lost, duplicated, reordered or made up), at most
  \<open>capacity\<close> elements are in flight, and the value a call is about to return is the one it took.
\<close>

theorem pcq_one_producer_one_consumer:
  assumes "length buffer = unat capacity" and "p \<noteq> c" and "creachable {p} {c} (conc_init buffer capacity) s"
  shows "(\<forall>t e. run_section t s \<noteq> Inl e) \<and> gets s = take (length (gets s)) (puts s)
    \<and> length (puts s) \<le> length (gets s) + unat capacity
    \<and> (\<forall>x. pc s c = Deq_Count x \<longrightarrow> gets s \<noteq> [] \<and> x = last (gets s))"
proof -
  have inv: "spsc_inv p c s" using spsc_reachable [OF assms(3) spsc_init [OF assms(1,2)]] .
  have cap_step: "pcq_capacity (queue t) = capacity"
    if "cstep {p} {c} u t" "pcq_capacity (queue u) = capacity" for u t :: "'a conc"
    using that
    by (cases rule: cstep.cases)
      (auto simp: run_section.simps enqueue_store_def dequeue_take_def enqueue_count_def dequeue_count_def bindE_Inr_iff
        split: pc.splits if_splits)
  have "pcq_capacity (queue s) = capacity"
    using assms(3) unfolding creachable_def
  proof (induction rule: rtranclp_induct)
    case base
    then show ?case by (simp add: conc_init_def)
  next
    case (step y z)
    then show ?case using cap_step by blast
  qed
  then have cap: "ccap s = unat capacity" by simp
  have "csize s \<le> ccap s" "pc_enq s (pc s p)" "csize s + length (gets s) + in_count (pc s p) = length (puts s) + in_count (pc s c)"
    using inv by (simp_all add: spsc_inv_def ring_ok_def)
  then have "length (puts s) \<le> length (gets s) + ccap s" by (cases "pc s p") simp_all
  then show ?thesis
    using spsc_no_fault [OF inv] inv cap by (auto simp: spsc_inv_def ring_ok_def)
qed

theorem pcq_one_producer_one_consumer_witness:
  "run_section 1 conc_b \<noteq> Inl Undefined \<and> gets conc_b = take (length (gets conc_b)) (puts conc_b)
    \<and> length (puts conc_b) \<le> length (gets conc_b) + unat (2 :: size_t)
    \<and> pc conc_b 1 = Deq_Count 5 \<and> gets conc_b \<noteq> [] \<and> 5 = last (gets conc_b)"
proof -
  have "pc conc_b 1 = Deq_Count 5" by (simp add: conc_b_def conc_race_def)
  with pcq_one_producer_one_consumer [OF _ _ conc_b_reach] show ?thesis by simp
qed

text \<open>
  C23. With one producer and one consumer no wake-up is lost: a consumer asleep has taken
  every element but one that the producer is just about to count and signal, a producer
  asleep faces a full queue, and both are asleep together only on a queue of capacity 0.
\<close>

theorem pcq_no_lost_wakeup:
  assumes "length buffer = unat capacity" and "p \<noteq> c" and "creachable {p} {c} (conc_init buffer capacity) s"
  shows "(pc s c = Deq_Asleep \<longrightarrow> pcq_current_size (queue s) = 0 \<and> (pc s p \<noteq> Enq_Count \<longrightarrow> puts s = gets s))
    \<and> (\<forall>x. pc s p = Enq_Asleep x \<longrightarrow> pcq_current_size (queue s) = pcq_capacity (queue s))
    \<and> (\<forall>x. pc s c = Deq_Asleep \<longrightarrow> pc s p = Enq_Asleep x \<longrightarrow> pcq_capacity (queue s) = 0)"
proof -
  have inv: "spsc_inv p c s" using spsc_reachable [OF assms(3) spsc_init [OF assms(1,2)]] .
  then have i: "pc_enq s (pc s p)" "pc_deq s (pc s c)" "gets s = take (length (gets s)) (puts s)"
    "csize s + length (gets s) + in_count (pc s p) = length (puts s) + in_count (pc s c)"
    by (simp_all add: spsc_inv_def ring_ok_def)
  have e: "pcq_current_size (queue s) = pcq_capacity (queue s)" if "pc s p = Enq_Asleep x" for x
    using i(1) that by (simp, metis unsigned_word_eqI)
  have z: "pcq_current_size (queue s) = 0" if "pc s c = Deq_Asleep"
    using i(2) that by (simp add: unat_eq_0)
  have all: "puts s = gets s" if "pc s c = Deq_Asleep" "pc s p \<noteq> Enq_Count"
  proof -
    have "in_count (pc s p) = 0" using i(1) that(2) by (cases "pc s p") simp_all
    then have "length (gets s) = length (puts s)" using i(4) z [OF that(1)] that(1) by simp
    then show ?thesis using i(3) by simp
  qed
  show ?thesis using e z all by metis
qed

theorem pcq_no_lost_wakeup_witness:
  "pc conc_s 1 = Deq_Asleep \<and> pcq_current_size (queue conc_s) = 0 \<and> puts conc_s = gets conc_s"
proof -
  have "pc conc_s 1 = Deq_Asleep" "pc conc_s 0 \<noteq> Enq_Count" by (simp_all add: conc_s_def)
  with pcq_no_lost_wakeup [OF _ _ conc_s_reach] show ?thesis by simp
qed

section \<open>Two consumers\<close>

text \<open>
  C33. With two consumers the queue is not safe. The test and the decrement of
  \<open>pcq_current_size\<close> are in different critical sections, so two consumers can both pass the
  test for the one element there is: the second one returns a cell of the buffer that was
  never written, and \<open>pcq_current_size\<close> wraps around to its largest value.
\<close>

theorem pcq_two_consumers_break:
  "\<exists>s. creachable {0} {1, 2} (conc_init [70, 80] 2) s \<and> puts s = [5 :: nat] \<and> gets s = [5, 80]
    \<and> pcq_current_size (queue s) = - 1 \<and> pc s = (\<lambda>_. Idle)"
proof -
  let ?i = "conc_init [70, 80 :: nat] 2" and ?R = "creachable {0} {1, 2} (conc_init [70, 80 :: nat] 2)"
  let ?idle = "\<lambda>_ :: nat. Idle :: nat pc"
  have call: "?R (conc_race (f(t := Deq_Test)) sz ti gs)"
    if "?R (conc_race f sz ti gs)" "f t = Idle" "t \<in> {1, 2}" for f t sz ti gs
    using reach_more [OF that(1) call_dequeue [of t]] that(2,3) by (simp add: conc_race_def)
  have run: "?R v" if "?R (conc_race f sz ti gs)" "run_section t (conc_race f sz ti gs) = Inr v"
    "f t \<noteq> Enq_Count" "\<And>x. f t \<noteq> Deq_Count x" for f t sz ti gs v
    using reach_section [OF that(1,2)] that(3,4) by (simp add: conc_race_def)
  have count: "?R (conc_race (f(t := Idle)) (sz - 1) ti gs)"
    if "?R (conc_race f sz ti gs)" "f t = Deq_Count x" "\<And>u y. f u \<noteq> Enq_Asleep y" for f t x sz ti gs
  proof -
    have "asleep is_pusher (conc_race (f(t := Idle)) (sz - 1) ti gs) = {}"
      using that(3) by (auto simp: asleep_def is_pusher_def conc_race_def)
    moreover have "pc (conc_race f sz ti gs) t = Deq_Count x" using that(2) by (simp add: conc_race_def)
    moreover have "run_section t (conc_race f sz ti gs) = Inr (conc_race (f(t := Idle)) (sz - 1) ti gs)"
      using that(2) by (rule race_run(4))
    ultimately show ?thesis
      using reach_more [OF that(1)] signal_no_pusher [of "conc_race f sz ti gs" t x] by blast
  qed
  have "?R (conc_race (?idle(1 := Deq_Test)) 1 0 [])" by (rule call [OF race_start]) simp_all
  then have "?R (conc_race (?idle(1 := Deq_Test, 2 := Deq_Test)) 1 0 [])" by (rule call) simp_all
  then have "?R (conc_race (?idle(1 := Deq_Test, 2 := Deq_Test, 1 := Deq_Take)) 1 0 [])"
    by (rule run [OF _ race_run(1)]) simp_all
  then have "?R (conc_race (?idle(1 := Deq_Test, 2 := Deq_Test, 1 := Deq_Take, 2 := Deq_Take)) 1 0 [])"
    by (rule run [OF _ race_run(1)]) simp_all
  then have "?R (conc_race (?idle(1 := Deq_Test, 2 := Deq_Test, 1 := Deq_Take, 2 := Deq_Take, 1 := Deq_Count 5)) 1 1 ([] @ [5]))"
    by (rule run [OF _ race_run(2)]) simp_all
  then have "?R (conc_race (?idle(1 := Deq_Test, 2 := Deq_Test, 1 := Deq_Take, 2 := Deq_Take, 1 := Deq_Count 5,
      2 := Deq_Count 80)) 1 0 (([] @ [5]) @ [80]))"
    by (rule run [OF _ race_run(3)]) simp_all
  then have "?R (conc_race (?idle(1 := Deq_Count 5, 2 := Deq_Count 80)) 1 0 [5, 80])"
    by (simp add: fun_upd_twist)
  then have "?R (conc_race (?idle(1 := Deq_Count 5, 2 := Deq_Count 80, 1 := Idle)) (1 - 1) 0 [5, 80])"
    by (rule count) auto
  then have "?R (conc_race (?idle(1 := Deq_Count 5, 2 := Deq_Count 80, 1 := Idle, 2 := Idle)) (1 - 1 - 1) 0 [5, 80])"
    by (rule count) auto
  moreover have "?idle(1 := Deq_Count 5, 2 := Deq_Count 80, 1 := Idle, 2 := Idle) = ?idle" by auto
  ultimately have "?R (conc_race ?idle (- 1) 0 [5, 80])" by simp
  then show ?thesis by (intro exI [of _ "conc_race ?idle (- 1) 0 [5, 80]"]) (simp add: conc_race_def)
qed

end
