(* ===== verification/Failures.thy ===== *)
theory Failures
  imports Sessions Pcq_Props
begin

text \<open>
  What goes wrong in the broker, each as a theorem about the handlers: a bad message locks a
  box for good, a subscriber that leaves keeps its handle, the end of the program trips
  over a grown table. The start of the program, which sets everything up, is here as well.
\<close>

section \<open>A locked box\<close>

lemma publisher_start_taken:
  assumes inv: "boxes_inv (b_table b)" and e: "calm e" and req: "carries request code rx name"
    and box: "box_lookup name (b_table b) = Some p" "heap (b_table b) p = Some x" "pub_num x = 1"
  shows "publisher_register e request reads b = Inr (Over (-1), b)"
  using calmD [OF e] carriesD(3,4) [OF req] box_count_eqs(2) [OF inv box(1,2)] box(3)
  by (simp add: publisher_register_def publisher_start_def)

text \<open>
  C37. One message of a wrong type locks a box for ever: the handler closes the file and
  returns \<open>-1\<close> but never unregisters the publisher. From then on every publisher of that box
  is refused, and the manager cannot remove it and gets no answer.
\<close>

theorem bad_message_locks_box:
  assumes inv: "broker_inv b" and e: "calm e" and req: "carries request code rx name"
    and box: "box_find mutex_ok name (b_table b) = Inr (Some p)" "heap (b_table b) p = Some x" "pub_num x = 0"
    and dat: "a_names (b_afs b) name = Some i" "a_data (b_afs b) i = Some d"
    and free: "\<exists>h<c_files (b_caps b). a_handles (b_afs b) h = None" and m: "m \<noteq> []" "hd m \<noteq> 9"
  shows "\<exists>b'. publisher_register e request (Some m # rs) b = Inr (Over (-1), b') \<and> broker_inv b'
    \<and> (\<forall>e' request' code' rx' reads. calm e' \<longrightarrow> carries request' code' rx' name \<longrightarrow>
         publisher_register e' request' reads b' = Inr (Over (-1), b')
         \<and> manager_remove_box e' request' b' = Inr (0, [], b'))"
proof -
  note i = broker_invD [OF inv]
  note fsd = fs_abs_simps fs_caps_simps
  have look: "box_lookup name (b_table b) = Some p" using box(1) box_find_eq [OF i(2)] by simp
  let ?y = "x\<lparr>pub_num := 1\<rparr>"
  obtain h s where s: "publisher_start e request b = Inr (Some (p, int h), \<lparr>b_fs = s, b_table = set_box p ?y (b_table b)\<rparr>)"
    "fs_inv s" "a_handles (b_afs b) h = None"
    "fs_abs s = (b_afs b)\<lparr>a_handles := (a_handles (b_afs b))(h \<mapsto> (i, length d))\<rparr>"
    using publisher_start_eq [OF broker_invD(1-3) [OF inv] e carriesD(3,4) [OF req] look box(2,3) dat free] by blast
  obtain r v where v: "tfs_close mutex_ok (int h) s = Inr (r, v)" "fs_inv v" "a_close (int h) (fs_abs s) = (r, fs_abs v)"
    using sim_close [OF s(2)] by blast
  have "a_handles (fs_abs s) h = Some (i, length d)" by (simp add: s(4) del: fsd)
  then have cl: "fs_abs v = (fs_abs s)\<lparr>a_handles := (a_handles (fs_abs s))(h := None)\<rparr>"
    using v(3) a_close_open [of "fs_abs s" h] by (simp del: fsd)
  have views: "a_names (fs_abs v) = a_names (b_afs b)" "a_handles (fs_abs v) = a_handles (b_afs b)"
    using s(3) by (simp_all add: cl s(4) fun_upd_idem del: fsd)
  let ?b = "\<lparr>b_fs = v, b_table = set_box p ?y (b_table b)\<rparr>"
  have fn: "file_name ?y = file_name x" by simp
  have inv': "broker_inv ?b"
  proof -
    have "broker_inv (b\<lparr>b_fs := v\<rparr>)" by (rule broker_inv_fs [OF inv v(2)]) (simp_all add: views del: fsd)
    from broker_inv_box [OF this, of p x ?y] show ?thesis
      using box(2) by (cases b) (simp add: active_def)
  qed
  obtain c cs where mc: "m = c # cs" using m(1) by (cases m) auto
  have first: "patch 0 (take 1025 m) (replicate 1025 0) ! 0 = c" by (simp add: mc patch_def)
  have "publisher_register e request (Some m # rs) b = Inr (Over (-1), ?b)"
    using s(1) v(1) m first calmD [OF e] by (simp add: publisher_register_def publisher_fail_def Let_def mc)
  moreover have "publisher_register e' request' reads ?b = Inr (Over (-1), ?b) \<and> manager_remove_box e' request' ?b = Inr (0, [], ?b)"
    if e': "calm e'" and req': "carries request' code' rx' name" for e' request' code' rx' reads
  proof
    have l: "box_lookup name (b_table ?b) = Some p" "heap (b_table ?b) p = Some ?y"
      using set_box_inv(2) [OF i(2) box(2) fn] look by simp_all
    show "publisher_register e' request' reads ?b = Inr (Over (-1), ?b)"
      by (rule publisher_start_taken [OF broker_invD(2) [OF inv'] e' req' l]) simp
    have "length name < 32" using i(3) look unfolding names_ok_lookup [OF i(2)] by blast
    moreover have "box_find mutex_ok name (b_table ?b) = Inr (Some p)"
      using box_find_eq [OF broker_invD(2) [OF inv']] l(1) by simp
    moreover have "deref p (b_table ?b) = Inr ?y" using l(2) by (simp add: deref_def)
    ultimately show "manager_remove_box e' request' ?b = Inr (0, [], ?b)"
      using calmD [OF e'] carriesD(3,4) [OF req'] by (simp add: manager_remove_box_def box_path_def Let_def)
  qed
  ultimately show ?thesis using inv' by blast
qed

theorem bad_message_locks_box_witness:
  "\<exists>b'. publisher_register calm_env (demo_request 1) (Some [7, 104] # []) live_b = Inr (Over (-1), b') \<and> broker_inv b'
    \<and> (\<forall>e' request' code' rx' reads. calm e' \<longrightarrow> carries request' code' rx' [97] \<longrightarrow>
         publisher_register e' request' reads b' = Inr (Over (-1), b')
         \<and> manager_remove_box e' request' b' = Inr (0, [], b'))"
  by (rule bad_message_locks_box [OF live_b_views(1) calm_env_calm demo_request_carries
        live_box(1,2) [where s = live_fs2, folded live_b_def] live_box(3) live_b_views(2,3,4)]) simp_all

section \<open>A lost handle\<close>

text \<open>
  C38. A subscriber that has gone away leaves its handle behind: when the write fails with
  \<open>EPIPE\<close> the handler takes the subscriber off the count and returns 0, but does not close
  the file. The table is as before, a handle is taken for good, and on a box with nobody
  else the invariant is lost, so that removing the box unlinks an open file.
\<close>

theorem subscriber_leaves_handle:
  assumes inv: "broker_inv b" and e: "calm e" and req: "carries request code tx name"
    and box: "box_find mutex_ok name (b_table b) = Inr (Some p)" "heap (b_table b) p = Some x" "sub_num x + 1 \<noteq> 0"
    and dat: "a_names (b_afs b) name = Some i" "a_data (b_afs b) i = Some (m @ rest)" "length m = 1024"
    and free: "\<exists>h<c_files (b_caps b). a_handles (b_afs b) h = None" and w: "w \<le> 0"
  shows "\<exists>h b'. subscriber_register e request [(w, True)] b = Inr (Over 0, [(tx, 10 # m)], b')
    \<and> a_handles (b_afs b) h = None \<and> a_handles (b_afs b') = (a_handles (b_afs b))(h \<mapsto> (i, 1024))
    \<and> b_table b' = b_table b \<and> (\<not> active x \<longrightarrow> \<not> broker_inv b')"
proof -
  note i = broker_invD [OF inv]
  note fsd = fs_abs_simps fs_caps_simps
  have look: "box_lookup name (b_table b) = Some p" using box(1) box_find_eq [OF i(2)] by simp
  let ?y = "x\<lparr>sub_num := sub_num x + 1\<rparr>" and ?resp = "(replicate 1025 (0 :: u8))[0 := 10]"
  obtain h s where s: "subscriber_start e request b = Inr (Some (tx, p, int h), \<lparr>b_fs = s, b_table = set_box p ?y (b_table b)\<rparr>)"
    "fs_inv s" "a_handles (b_afs b) h = None" "fs_abs s = move_to i 0 h (b_afs b)"
    using subscriber_start_eq [OF broker_invD(1-3) [OF inv] e carriesD(3,4) [OF req] look box(2) dat(1) free] unfolding move_to_def by blast
  have lb: "length (drop 1 ?resp) = 1024" by simp
  obtain r bs u where u: "tfs_read mutex_ok (int h) 1024 (drop 1 ?resp, s) = Inr (r, patch 0 bs (drop 1 ?resp), u)"
    "fs_inv u" "a_read (int h) 1024 (fs_abs s) = (r, bs, fs_abs u)"
    using sim_read [OF s(2) lb] by blast
  have hs: "a_handles (fs_abs s) h = Some (i, 0)" and ds: "a_data (fs_abs s) i = Some (m @ rest)"
    using s(4) dat(2) by (simp_all del: fsd)
  have rd: "r = 1024" "bs = m" "fs_abs u = move_to i 1024 h (b_afs b)"
    using u(3) a_read_here [OF hs ds, of 1024] dat(3) s(4) by (simp_all del: fsd)
  have resp: "take 1 ?resp @ patch 0 bs (drop 1 ?resp) = 10 # m"
  proof -
    have "replicate 1025 (0 :: u8) = 0 # replicate 1024 0" by (simp flip: replicate_Suc)
    then have "take 1 ?resp = [10]" by simp
    then show ?thesis using patch_whole [of m "drop 1 ?resp"] dat(3) lb rd(2) by simp
  qed
  have hp: "heap (set_box p ?y (b_table b)) p = Some ?y" by simp
  have "?y\<lparr>sub_num := sub_num ?y - 1\<rparr> = x" by (cases x) simp
  then have un: "box_unregister_sub mutex_ok (Some p) (set_box p ?y (b_table b)) = Inr (0, b_table b)"
    using box_count_eqs(6) [OF hp] box(3) set_box_same [OF box(2)] by simp
  let ?b = "\<lparr>b_fs = u, b_table = b_table b\<rparr>"
  have "subscriber_register e request [(w, True)] b = Inr (Over 0, [(tx, 10 # m)], ?b)"
    using s(1) u(1) rd(1) resp un w calmD [OF e] hp
    by (simp add: subscriber_register_def deref_def Let_def)
  moreover have views: "a_handles (b_afs ?b) = (a_handles (b_afs b))(h \<mapsto> (i, 1024))" "a_names (b_afs ?b) = a_names (b_afs b)"
    using rd(3) by (simp_all del: fsd)
  moreover have "\<not> broker_inv ?b" if "\<not> active x"
  proof
    assume b: "broker_inv ?b"
    have "a_names (b_afs ?b) name = Some i" using views(2) dat(1) by (simp del: fsd)
    then have "none_open (b_afs ?b) i" using idle_closed [OF b, of name p x i] look box(2) that by (simp del: fsd)
    then show False using views(1) unfolding none_open_def by (metis fun_upd_same)
  qed
  ultimately show ?thesis using s(3) by (intro exI [of _ h] exI [of _ ?b]) simp
qed

theorem subscriber_leaves_handle_witness:
  "\<exists>h b'. subscriber_register calm_env (demo_request 2) [(-1, True)] live_b3 = Inr (Over 0, [([99], 10 # live_msg)], b')
    \<and> a_handles (b_afs live_b3) h = None \<and> a_handles (b_afs b') = (a_handles (b_afs live_b3))(h \<mapsto> (1, 1024))
    \<and> b_table b' = b_table live_b3 \<and> (\<not> active (new_box [97]) \<longrightarrow> \<not> broker_inv b')"
  by (rule subscriber_leaves_handle [OF live_b3_views(1) calm_env_calm demo_request_carries
        live_box(1,2) [where s = live_fs3, folded live_b3_def] live_box(4) live_b3_views(2) _ _ live_b3_views(4), where rest = "[]"])
    (use live_b3_views(3) in \<open>simp_all add: live_msg_def del: fs_abs_simps\<close>)

section \<open>The end of the program\<close>

lemma destroy_loop_runs:
  assumes sb: "subs t = Some sb" and b: "boxes t = Some bs" "unat (bt_size t) \<le> length bs"
    and free: "\<And>i p. i < unat (bt_size t) \<Longrightarrow> bs ! i = Some p \<Longrightarrow> heap t p \<noteq> None"
    and distinct: "\<And>i j p. i < unat (bt_size t) \<Longrightarrow> j < unat (bt_size t) \<Longrightarrow> i \<noteq> j \<Longrightarrow> bs ! i = Some p \<Longrightarrow> bs ! j \<noteq> Some p"
    and i: "i \<le> unat (bt_size t)"
    and u: "boxes u = Some bs" "subs u = Some sb" "heap u = (\<lambda>p. if \<exists>j<i. bs ! j = Some p then None else heap t p)"
  shows "if i \<le> length sb \<and> length sb < unat (bt_size t) then destroy_loop i (unat (bt_size t)) u = Inl Undefined
    else unat (bt_size t) \<le> length sb \<longrightarrow> (\<exists>v. destroy_loop i (unat (bt_size t)) u = Inr v
      \<and> heap v = (\<lambda>p. if \<exists>j<unat (bt_size t). bs ! j = Some p then None else heap t p))"
  using i u
proof (induction "unat (bt_size t) - i" arbitrary: i u)
  case 0
  then show ?case by (subst destroy_loop.simps) auto
next
  case (Suc n)
  let ?N = "unat (bt_size t)"
  have i: "i < ?N" using Suc.hyps(2) by simp
  let ?u = "case bs ! i of None \<Rightarrow> u | Some p \<Rightarrow> u\<lparr>heap := (heap u)(p := None)\<rparr>"
  have fr: "heap u p \<noteq> None" if "bs ! i = Some p" for p
  proof -
    have "\<not> (\<exists>j<i. bs ! j = Some p)" using distinct [of _ i p] i that by force
    then show ?thesis using free [OF i that] Suc.prems(4) by simp
  qed
  have u': "boxes ?u = Some bs" "subs ?u = Some sb" using Suc.prems(2,3) by (simp_all split: option.splits)
  have h': "heap ?u = (\<lambda>p. if \<exists>j<Suc i. bs ! j = Some p then None else heap t p)"
    using Suc.prems(4) by (auto simp: fun_eq_iff less_Suc_eq split: option.splits)
  have step: "destroy_loop i ?N u = (if i < length sb then destroy_loop (Suc i) ?N ?u else Inl Undefined)"
    using i b(2) Suc.prems(2,3) fr by (subst destroy_loop.simps) (auto simp: deref_def split: option.splits)
  have IH: "if Suc i \<le> length sb \<and> length sb < ?N then destroy_loop (Suc i) ?N ?u = Inl Undefined
    else ?N \<le> length sb \<longrightarrow> (\<exists>v. destroy_loop (Suc i) ?N ?u = Inr v
      \<and> heap v = (\<lambda>p. if \<exists>j<?N. bs ! j = Some p then None else heap t p))"
    by (rule Suc.hyps(1)) (use Suc.hyps(2) i u' h' in simp_all)
  then show ?case using step i by (auto split: if_splits)
qed

text \<open>
  C30. \<open>close_server\<close> frees every box and ends the program, unless the table has ever held
  more than eight boxes at once: \<open>subs\<close> keeps its eight entries when the table grows, and
  \<open>box_table_destroy\<close> then reads past them.
\<close>

theorem close_server_outcome:
  assumes inv: "boxes_inv (b_table b)" and sb: "subs (b_table b) = Some sb" and io: "0 \<le> closed" "unlinked = 0 \<or> enoent"
  shows "if length sb < unat (bt_size (b_table b)) then close_server closed unlinked enoent (b, q) = Inl Undefined
    else \<exists>b' q'. close_server closed unlinked enoent (b, q) = Inr (b', q') \<and> pcq_buffer q' = None
      \<and> inode_table (b_fs b') = None \<and> (\<forall>name p. box_find mutex_ok name (b_table b) = Inr (Some p) \<longrightarrow> heap (b_table b') p = None)"
proof -
  let ?t = "b_table b"
  let ?bs = "slots ?t" and ?N = "unat (bt_size ?t)"
  note v = boxes_invD [OF inv]
  have run: "if 0 \<le> length sb \<and> length sb < ?N then destroy_loop 0 ?N ?t = Inl Undefined
    else ?N \<le> length sb \<longrightarrow> (\<exists>u. destroy_loop 0 ?N ?t = Inr u
      \<and> heap u = (\<lambda>p. if \<exists>j<?N. ?bs ! j = Some p then None else heap ?t p))"
  proof (rule destroy_loop_runs [OF sb v(1)])
    show "heap ?t p \<noteq> None" if "i < ?N" "?bs ! i = Some p" for i p
      using v(6) [of i p] that v(3) by auto
    show "?bs ! j \<noteq> Some p" if "i < ?N" "j < ?N" "i \<noteq> j" "?bs ! i = Some p" for i j p
      using v(7) [of i j p p] that v(3) by auto
  qed (use v(1-3) sb in \<open>simp_all\<close>)
  show ?thesis
  proof (cases "length sb < ?N")
    case True
    then have "box_table_destroy ?t = Inl Undefined" using run by (simp add: box_table_destroy_def)
    then show ?thesis using True io by (auto simp: close_server_def tfs_destroy_def state_destroy_def)
  next
    case False
    then obtain u where u: "destroy_loop 0 ?N ?t = Inr u" "heap u = (\<lambda>p. if \<exists>j<?N. ?bs ! j = Some p then None else heap ?t p)"
      using run by auto
    have "box_table_destroy ?t = Inr (u\<lparr>boxes := None, subs := None\<rparr>)" using u(1) by (simp add: box_table_destroy_def)
    moreover have "heap u p = None" if "box_find mutex_ok name ?t = Inr (Some p)" for name p
    proof -
      have "box_lookup name ?t = Some p" using that box_find_eq [OF inv] by simp
      then obtain k where "k < unat (capacity ?t)" "?bs ! k = Some p" unfolding box_lookup_Some [OF inv] by blast
      then have "\<exists>j<?N. ?bs ! j = Some p" using v(6) [of k p] by blast
      then show ?thesis by (simp add: u(2))
    qed
    ultimately show ?thesis using False io by (auto simp: close_server_def tfs_destroy_def state_destroy_def pcq_destroy_def)
  qed
qed

theorem close_server_outcome_witness:
  "\<exists>b' q'. close_server 0 0 False (live_b, scratch_queue) = Inr (b', q') \<and> pcq_buffer q' = None
      \<and> inode_table (b_fs b') = None
      \<and> (\<forall>name p. box_find mutex_ok name (b_table live_b) = Inr (Some p) \<longrightarrow> heap (b_table b') p = None)"
proof -
  have "boxes_inv (b_table live_b)" "subs (b_table live_b) = Some (replicate 8 None)"
    "\<not> length (replicate 8 (None :: addr option)) < unat (bt_size (b_table live_b))"
    using box_a_table_inv by (simp_all add: live_b_def) (simp_all add: box_a_table_def)
  from close_server_outcome [OF this(1,2), of 0 0 False scratch_queue] this(3) show ?thesis by simp
qed

section \<open>The start of the program\<close>

lemma digits_value:
  "list_all is_digit s \<Longrightarrow> 0 \<le> v \<Longrightarrow> 0 \<le> foldl (\<lambda>v c. v * 10 + (int (unat c) - 48)) v s"
proof (induction s arbitrary: v)
  case (Cons c s)
  then have "48 \<le> uint c" by (simp add: is_digit_def word_le_def)
  then have "0 \<le> v * 10 + (uint c - 48)" using Cons.prems(2) by simp
  then show ?case using Cons.IH [of "v * 10 + (uint c - 48)"] Cons.prems(1) by simp
qed simp

lemma main_runs:
  assumes m: "mallocs_ok broker_params (me_tfs e)" "me_boxes e = Some bx" "length bx = 8" "me_subs e = Some sb" "length sb = 8"
    and f: "me_unlink e = 0 \<or> me_enoent e" "me_mkfifo e = 0" and args: "list_all is_digit number" "atoi number = Inr n"
    and q: "me_queue e = Some buffer" "length buffer = nat n" and b0: "inode_table (b_fs b0) = None"
  shows "\<exists>s t q. broker_main e [prog, pipe, number] (b0, q0) = Inr (n, \<lparr>b_fs = s, b_table = t\<rparr>, q)
    \<and> fs_inv s \<and> fs_caps s = params_caps broker_params \<and> fs_abs s = empty_afs
    \<and> boxes_inv t \<and> (\<forall>name. box_lookup name t = None) \<and> heap t = heap (b_table b0) \<and> capacity t = 8 \<and> bt_size t = 0
    \<and> pcq_inv q \<and> pcq_abs q = (nat n, [])"
proof -
  have p: "params_ok broker_params" "0 < unat (max_inode_count broker_params)" "0 < unat (max_block_count broker_params)"
    by (simp_all add: params_ok_def broker_params_def)
  obtain s where s: "tfs_init (Some broker_params) (me_tfs e) (b_fs b0) = Inr (0, s)" "fs_inv s"
    "tfs_abs s = (params_caps broker_params, empty_afs)"
    using tfs_init_abs [OF p(1) m(1) b0 p(2,3)] by blast
  let ?t = "(b_table b0)\<lparr>boxes := Some (replicate 8 None), subs := Some (replicate 8 None), capacity := 8, bt_size := 0, num_elem := 0\<rparr>"
  have t: "box_table_init (me_boxes e) (me_subs e) (b_table b0) = Inr (0, ?t)"
    using clear_slots_eq [OF _ m(3) [symmetric], of 0] clear_slots_eq [OF _ m(5) [symmetric], of 0] m(2,4)
    by (simp add: box_table_init_def Let_def)
  have "count_boxes (replicate 8 None) = 0" by (rule count_boxes_none) simp
  then have ti: "boxes_inv ?t" by (simp add: boxes_inv_def)
  have look: "box_lookup name ?t = None" for name using box_lookup_None [OF ti] by simp
  have n: "0 \<le> n" "n < 2 ^ 31"
    using args digits_value [of number 0] by (auto simp: atoi_def Let_def split: if_splits)
  have un: "unat (of_int n :: size_t) = nat n" using n by (intro unat_of_int_nat) simp_all
  have lb: "length buffer = unat (of_int n :: size_t)" using q(2) un by simp
  obtain q' where q': "pcq_create (Some buffer) (of_int n) q0 = (0, q')" "pcq_inv q'" "pcq_abs q' = (nat n, [])"
    using pcq_create_inv [OF lb, of q0] un by metis
  have "start_fifo (me_unlink e) (me_enoent e) (me_mkfifo e) = 0" using f by (auto simp: start_fifo_def)
  then have "broker_main e [prog, pipe, number] (b0, q0) = Inr (n, \<lparr>b_fs = s, b_table = ?t\<rparr>, q')"
    using s(1) t args q(1) q'(1) by (simp add: broker_main_def check_input_args_def)
  then show ?thesis using s ti look q'(2,3)
    by (intro exI [of _ s] exI [of _ ?t] exI [of _ q']) (simp add: tfs_abs_def del: fs_abs_simps fs_caps_simps)
qed

text \<open>
  Started with a number of sessions, and when its allocations and the making of its pipe
  succeed, the broker has an initialised file system, an empty table, an empty queue of that
  many places, and satisfies its invariant, whatever the memory it got holds.
\<close>

theorem broker_starts:
  assumes m: "mallocs_ok broker_params (me_tfs e)" "me_boxes e = Some bx" "length bx = 8" "me_subs e = Some sb" "length sb = 8"
    and f: "me_unlink e = 0 \<or> me_enoent e" "me_mkfifo e = 0" and args: "list_all is_digit number" "atoi number = Inr n"
    and q: "me_queue e = Some buffer" "length buffer = nat n" and b0: "inode_table (b_fs b0) = None"
  shows "\<exists>b q. broker_main e [prog, pipe, number] (b0, q0) = Inr (n, b, q) \<and> broker_inv b \<and> b_afs b = empty_afs
    \<and> (\<forall>name. box_find mutex_ok name (b_table b) = Inr None) \<and> pcq_inv q \<and> pcq_abs q = (nat n, [])"
proof -
  obtain s t q' where r: "broker_main e [prog, pipe, number] (b0, q0) = Inr (n, \<lparr>b_fs = s, b_table = t\<rparr>, q')"
    "fs_inv s" "fs_abs s = empty_afs" "boxes_inv t" "\<And>name. box_lookup name t = None" "pcq_inv q'" "pcq_abs q' = (nat n, [])"
    using main_runs [OF assms] by metis
  have "broker_inv \<lparr>b_fs = s, b_table = t\<rparr>"
    by (rule no_handles_inv [OF r(2) _ r(4,5)]) (simp add: r(3) empty_afs_def del: fs_abs_simps)
  then show ?thesis using r box_find_eq [OF r(4)] by (simp del: fs_abs_simps)
qed

definition demo_main :: "nat main_env" where
  "demo_main = \<lparr>me_tfs = live_mallocs, me_boxes = Some (replicate 8 (Some 3)), me_subs = Some (replicate 8 (Some 4)),
     me_queue = Some (replicate 12 70), me_unlink = -1, me_enoent = True, me_mkfifo = 0\<rparr>"

theorem broker_starts_witness:
  "\<exists>b q. broker_main demo_main [[109], [112], [49, 50]] (\<lparr>b_fs = no_fs, b_table = gap_table\<rparr>, scratch_queue) = Inr (12, b, q)
    \<and> broker_inv b \<and> b_afs b = empty_afs
    \<and> (\<forall>name. box_find mutex_ok name (b_table b) = Inr None) \<and> pcq_inv q \<and> pcq_abs q = (nat 12, [])"
  by (rule broker_starts [where bx = "replicate 8 (Some 3)" and sb = "replicate 8 (Some 4)" and buffer = "replicate 12 70"])
    (simp_all add: demo_main_def live_mallocs_def mallocs_ok_def broker_params_def is_digit_def atoi_def no_fs_def)

section \<open>The array of the list\<close>

lemma receive_loop_inside:
  "i < cap \<Longrightarrow> i = 0 \<and> 1 < cap \<or> 0 < i \<Longrightarrow> receive_loop (\<lambda>_. True) op rs k i cap i es \<noteq> Inl Undefined"
proof (induction rs arbitrary: k i cap es)
  case (Cons r rs)
  have "receive_loop (\<lambda>_. True) op rs k' (Suc i) (if i \<noteq> 0 \<and> i = cap - 1 then cap * 2 else cap) (Suc i) es' \<noteq> Inl Undefined" for k' es'
    by (rule Cons.IH) (use Cons.prems in auto)
  then show ?case using Cons.prems by (auto simp: Let_def)
qed simp

text \<open>
  C29. The receive loop of the manager never writes outside its array of pointers: as long as
  memory lasts, whatever the broker sends, the array has doubled before the index reaches
  its end.
\<close>

theorem receive_loop_bounds:
  assumes "\<forall>k. mem k"
  shows "receive_loop mem op_code reads 1 0 8 0 [] \<noteq> Inl Undefined"
proof -
  have "mem = (\<lambda>_. True)" using assms by auto
  then show ?thesis using receive_loop_inside [of 0 8] by simp
qed

theorem receive_loop_bounds_witness:
  "receive_loop (\<lambda>_. True) 8 (replicate 9 (Some (replicate 58 0))) 1 0 8 0 [] \<noteq> Inl Undefined"
  by (rule receive_loop_bounds) simp

end
