(* ===== verification/Server.thy ===== *)
theory Server
  imports Service Failures
begin

text \<open>
  The running broker: \<open>main\<close> puts what it reads into the queue, and as many workers as the
  program was started for take the requests out and serve them. A worker that serves a
  subscriber stays with it and is lost for the queue; on its turns it sends what has been
  stored in the box since. The specification is a bounded list of pending requests and a list
  of what the workers are doing, in front of the service; together with the start of the
  program this gives what a client may rely on from the first request on. A turn is a request
  of a manager from beginning to end, the whole session of a publisher, or what a subscriber
  is sent between two waits. Turns follow each other; how the sections of several sessions
  interleave is the subject of \<open>Live\<close> and \<open>Interleaving\<close>, how those of the calls on the queue
  do is the subject of \<open>Pcq_Conc\<close>.
\<close>

section \<open>Turns\<close>

record server =
  sv_broker :: broker
  sv_queue :: "u8 list pcq"
  sv_workers :: "handler list"

text \<open>\<open>main\<close> has created the threads: each is at the top of the loop of \<open>handle_request\<close>.\<close>

definition server_start :: "int \<Rightarrow> broker \<times> u8 list pcq \<Rightarrow> server" where
  "server_start max_sessions state =
     (case state of (b, q) \<Rightarrow> \<lparr>sv_broker = b, sv_queue = q, sv_workers = replicate (nat max_sessions) (Over 0)\<rparr>)"

text \<open>
  A message arrives at the register pipe, or a worker takes its turn. A turn of \<open>main\<close> that
  finds the queue full changes nothing: the message is still to be delivered. A publisher
  sends its messages and hangs up, a subscriber reads what it is sent.
\<close>

datatype turn = Arrive "u8 list" | Work nat env memory "u8 list list"

datatype effect = Accepted | Full | Idle | Answered reply

definition arriving :: "u8 list \<Rightarrow> recv_env" where
  "arriving bytes = \<lparr>re_malloc = True, re_open = 3, re_read = Some bytes, re_close = 0, re_unlink = 0, re_enoent = False\<rparr>"

fun server_step :: "turn \<Rightarrow> server \<Rightarrow> (effect \<times> server) res" where
  "server_step (Arrive bytes) s =
     bindE (receive_one (arriving bytes) (sv_broker s, sv_queue s)) (\<lambda>(r, b, q).
     Inr (if r = None then Full else Accepted, s\<lparr>sv_broker := b, sv_queue := q\<rparr>))"
| "server_step (Work i e m msgs) s =
     (if i < length (sv_workers s) then
        bindE (work_one (supplied e m (sv_broker s)) (publisher_reads msgs) subscriber_writes (sv_workers s ! i) (sv_broker s, sv_queue s))
        (\<lambda>(w, r, b, q).
        Inr (case r of None \<Rightarrow> Idle | Some ws \<Rightarrow> Answered (observed ws),
          s\<lparr>sv_broker := b, sv_queue := q, sv_workers := (sv_workers s)[i := w]\<rparr>))
      else Inr (Idle, s))"

section \<open>Specification\<close>

type_synonym server_state = "(nat \<times> u8 list list) \<times> service \<times> activity list"

fun server_spec :: "turn \<Rightarrow> server_state \<Rightarrow> effect \<times> server_state" where
  "server_spec (Arrive bytes) ((n, pending), a, workers) =
     (if length pending = n then (Full, (n, pending), a, workers)
      else (Accepted, (n, pending @ [receive_request bytes]), a, workers))"
| "server_spec (Work i e m msgs) ((n, pending), a, workers) =
     (if i < length workers then
        case workers ! i of
          Following pipe name k \<Rightarrow>
            let new = new_messages name k a in
            (Answered (Sent (map (\<lambda>m. (pipe, 10 # m)) new)), (n, pending), a, workers[i := Following pipe name (k + length new)])
        | Ready \<Rightarrow>
            (case pending of
               [] \<Rightarrow> (Idle, (n, pending), a, workers)
             | buffer # pending \<Rightarrow>
                 (case serve_spec msgs buffer a of
                    (x, a') \<Rightarrow> (Answered x, (n, pending), a', workers[i := activity_spec buffer a])))
      else (Idle, (n, pending), a, workers))"

fun server_duty :: "turn \<Rightarrow> server_state \<Rightarrow> bool" where
  "server_duty (Arrive bytes) s \<longleftrightarrow> True"
| "server_duty (Work i e m msgs) ((n, pending), a, workers) \<longleftrightarrow>
     i < length workers \<longrightarrow>
       (case workers ! i of
          Following pipe name k \<Rightarrow> calm e
        | Ready \<Rightarrow> pending \<noteq> [] \<longrightarrow> serve_duty \<lparr>r_env = e, r_memory = m, r_msgs = msgs, r_buffer = hd pending\<rparr> a)"

section \<open>Refinement\<close>

text \<open>The workers that wait have handles of their own.\<close>

definition own_handles :: "handler list \<Rightarrow> bool" where
  "own_handles workers \<longleftrightarrow> (\<forall>i<length workers. \<forall>j<length workers. \<forall>fd.
     handle_of (workers ! i) = Some fd \<longrightarrow> handle_of (workers ! j) = Some fd \<longrightarrow> i = j)"

definition server_inv :: "server \<Rightarrow> bool" where
  "server_inv s \<longleftrightarrow> service_inv (sv_broker s) \<and> pcq_inv (sv_queue s)
     \<and> (\<forall>w\<in>set (sv_workers s). waits_ok (sv_broker s) w) \<and> own_handles (sv_workers s)"

definition server_abs :: "server \<Rightarrow> server_state" where
  "server_abs s = (pcq_abs (sv_queue s), service_abs (sv_broker s), map (activity_of (sv_broker s)) (sv_workers s))"

lemma waits_handle: "waits_ok b w \<Longrightarrow> handle_of w = Some fd \<Longrightarrow> \<exists>h. fd = int h \<and> a_handles (b_afs b) h \<noteq> None"
proof (cases w)
  case (Subscribing tx p fd' response)
  assume "waits_ok b w" "handle_of w = Some fd"
  then show ?thesis unfolding Subscribing waits_ok_def by (simp del: fs_abs_simps not_None_eq) blast
qed simp_all

text \<open>A turn of one worker, as far as the others are concerned.\<close>

lemma worker_turn:
  assumes inv: "server_inv s" and i: "i < length (sv_workers s)"
    and b: "service_inv b" "pcq_inv q" "keeps fd (sv_broker s) b" "waits_ok b w"
    and others: "\<And>j. j < length (sv_workers s) \<Longrightarrow> j \<noteq> i \<Longrightarrow>
      handle_of (sv_workers s ! j) \<noteq> Some fd \<and> (handle_of w \<noteq> None \<longrightarrow> handle_of (sv_workers s ! j) \<noteq> handle_of w)"
  shows "server_inv (s\<lparr>sv_broker := b, sv_queue := q, sv_workers := (sv_workers s)[i := w]\<rparr>)"
    and "server_abs (s\<lparr>sv_broker := b, sv_queue := q, sv_workers := (sv_workers s)[i := w]\<rparr>)
      = (pcq_abs q, service_abs b, (map (activity_of (sv_broker s)) (sv_workers s))[i := activity_of b w])"
proof -
  let ?ws = "sv_workers s"
  have old: "service_inv (sv_broker s)" "\<And>j. j < length ?ws \<Longrightarrow> waits_ok (sv_broker s) (?ws ! j)" "own_handles ?ws"
    using inv by (simp_all add: server_inv_def)
  have kept: "waits_ok b (?ws ! j)" "activity_of b (?ws ! j) = activity_of (sv_broker s) (?ws ! j)"
    if "j < length ?ws" "j \<noteq> i" for j
    using waits_kept [OF old(1) b(1,3) old(2)] others that by blast+
  have "\<forall>j<length ?ws. waits_ok b (?ws[i := w] ! j)" using kept(1) b(4) by (simp add: nth_list_update [OF i])
  then have "\<forall>v\<in>set (?ws[i := w]). waits_ok b v" by (metis in_set_conv_nth length_list_update)
  moreover have "own_handles (?ws[i := w])"
  proof -
    have "k = j" if kj: "k < length ?ws" "j < length ?ws" "handle_of (?ws[i := w] ! k) = Some g" "handle_of (?ws[i := w] ! j) = Some g" for j k g
      using old(3) kj others [of k] others [of j] unfolding own_handles_def
      by (cases "k = i"; cases "j = i") (simp_all add: nth_list_update [OF i])
    then show ?thesis by (simp add: own_handles_def)
  qed
  ultimately show "server_inv (s\<lparr>sv_broker := b, sv_queue := q, sv_workers := ?ws[i := w]\<rparr>)"
    using b(1,2) by (simp add: server_inv_def)
  have "map (activity_of b) (?ws[i := w]) = (map (activity_of (sv_broker s)) ?ws)[i := activity_of b w]"
    using kept(2) by (intro nth_equalityI) (simp_all add: nth_list_update i)
  then show "server_abs (s\<lparr>sv_broker := b, sv_queue := q, sv_workers := ?ws[i := w]\<rparr>)
      = (pcq_abs q, service_abs b, (map (activity_of (sv_broker s)) ?ws)[i := activity_of b w])"
    by (simp add: server_abs_def)
qed

lemma observed_following: "observed (map (\<lambda>m. (tx, 10 # m)) ms) = Sent (map (\<lambda>m. (tx, 10 # m)) ms)"
  by (auto simp: observed_def hd_map)

lemma server_simulates:
  assumes inv: "server_inv s" and duty: "server_duty t (server_abs s)"
  shows "\<exists>x s'. server_step t s = Inr (x, s') \<and> server_inv s' \<and> server_spec t (server_abs s) = (x, server_abs s')"
proof (cases t)
  case (Arrive bytes)
  have q: "pcq_inv (sv_queue s)" using inv by (simp add: server_inv_def)
  let ?q = "sv_queue s"
  obtain q' where "pcq_enqueue (receive_request bytes) ?q
      = Inr (if length (pcq_contents ?q) = pcq_limit ?q then None else Some 0, q')" "pcq_inv q'" "pcq_limit q' = pcq_limit ?q"
    "pcq_contents q' = (if length (pcq_contents ?q) = pcq_limit ?q then pcq_contents ?q else pcq_contents ?q @ [receive_request bytes])"
    using pcq_enqueue_eq [OF q] by blast
  then show ?thesis using inv Arrive
    by (auto simp: server_inv_def server_abs_def pcq_abs_def receive_one_def arriving_def)
next
  case (Work i e m msgs)
  let ?b = "sv_broker s" and ?q = "sv_queue s" and ?ws = "sv_workers s"
  have old: "service_inv ?b" "pcq_inv ?q" "\<And>j. j < length ?ws \<Longrightarrow> waits_ok ?b (?ws ! j)"
    "\<And>i j fd. i < length ?ws \<Longrightarrow> j < length ?ws \<Longrightarrow> handle_of (?ws ! i) = Some fd \<Longrightarrow> handle_of (?ws ! j) = Some fd \<Longrightarrow> i = j"
    using inv by (simp_all add: server_inv_def own_handles_def)
  show ?thesis
  proof (cases "i < length ?ws")
    case False
    then show ?thesis using inv Work by (simp add: server_abs_def pcq_abs_def)
  next
    case i: True
    show ?thesis
    proof (cases "?ws ! i")
      case (Publishing p fd buffer)
      then show ?thesis using old(3) [OF i] by (simp add: waits_ok_def)
    next
      case (Subscribing tx p fd response)
      let ?w = "Subscribing tx p fd response"
      have w: "waits_ok ?b ?w" using old(3) [OF i] Subscribing by simp
      obtain name k where x: "activity_of ?b ?w = Following tx name k" using serve_waiting [OF old(1) calm_env_calm w] by blast
      have "calm e" using duty Work i Subscribing x by (simp add: server_abs_def pcq_abs_def)
      then have "calm (supplied e m ?b)" by simp
      from serve_waiting [OF old(1) this w, of 0] obtain b' where b': "subscriber_loop (supplied e m ?b) 0 tx p fd response subscriber_writes ?b
          = Inr (?w, map (\<lambda>m. (tx, 10 # m)) (new_messages name k (service_abs ?b)), b')"
        "service_inv b'" "service_abs b' = service_abs ?b" "keeps fd ?b b'" "waits_ok b' ?w"
        "activity_of b' ?w = Following tx name (k + length (new_messages name k (service_abs ?b)))"
        unfolding x by auto
      have others: "handle_of (?ws ! j) \<noteq> Some fd \<and> (handle_of ?w \<noteq> None \<longrightarrow> handle_of (?ws ! j) \<noteq> handle_of ?w)"
        if "j < length ?ws" "j \<noteq> i" for j
        using old(4) [OF that(1) i, of fd] that(2) Subscribing by auto
      note turn = worker_turn [OF inv i b'(2) old(2) b'(4,5) others]
      show ?thesis
        using Work i Subscribing x b'(1,3,6) turn observed_following
        by (simp add: work_one_def resume_def server_abs_def pcq_abs_def Let_def)
    next
      case (Over v)
      have ready: "activity_of ?b (?ws ! i) = Ready" using Over by (simp add: activity_of_def)
      obtain q' where q': "pcq_dequeue ?q = Inr (case pcq_contents ?q of [] \<Rightarrow> None | x # _ \<Rightarrow> Some x, q')" "pcq_inv q'"
        "pcq_limit q' = pcq_limit ?q" "pcq_contents q' = tl (pcq_contents ?q)"
        using pcq_dequeue_eq [OF old(2)] by blast
      show ?thesis
      proof (cases "pcq_contents ?q")
        case Nil
        have same: "?ws[i := Over v] = ?ws" by (subst Over [symmetric]) (rule list_update_id)
        show ?thesis using inv Work i Over ready Nil q' same by (auto simp: server_inv_def server_abs_def pcq_abs_def work_one_def)
      next
        case (Cons buffer pending)
        let ?r = "\<lparr>r_env = e, r_memory = m, r_msgs = msgs, r_buffer = buffer\<rparr>"
        have "serve_duty ?r (service_abs ?b)" using duty Work Cons i ready by (simp add: server_abs_def pcq_abs_def)
        from serve_request [OF old(1) this] obtain w ws b' where b': "handle_request (supplied e m ?b) (publisher_reads msgs) subscriber_writes buffer ?b = Inr (w, ws, b')"
          "service_inv b'" "keeps (-1) ?b b'" "serve_spec msgs buffer (service_abs ?b) = (observed ws, service_abs b')"
          "waits_ok b' w" "activity_of b' w = activity_spec buffer (service_abs ?b)"
          "\<And>fd. handle_of w = Some fd \<Longrightarrow> \<exists>h. fd = int h \<and> a_handles (b_afs ?b) h = None"
          by auto
        have others: "handle_of (?ws ! j) \<noteq> Some (-1) \<and> (handle_of w \<noteq> None \<longrightarrow> handle_of (?ws ! j) \<noteq> handle_of w)"
          if "j < length ?ws" "j \<noteq> i" for j
        proof (cases "handle_of (?ws ! j)")
          case (Some fd)
          from waits_handle [OF old(3) [OF that(1)] this] show ?thesis using Some b'(7) by (cases "handle_of w") auto
        qed auto
        note turn = worker_turn [OF inv i b'(2) q'(2) b'(3,5) others]
        show ?thesis
          using Work i Over ready Cons q' b'(1,4,6) turn by (simp add: work_one_def server_abs_def pcq_abs_def Let_def)
      qed
    qed
  qed
qed

interpretation server: simulation server_inv server_abs server_duty server_step server_spec
  by unfold_locales (rule server_simulates)

section \<open>Properties\<close>

text \<open>
  C4. The requests the broker takes from its queue are served as the service says, as long as
  the calls of the system succeed, there is memory, the name is shorter than 32 bytes, a
  handle is free for a session and the subscribers are not listed while there are boxes
  (\<open>serve_duty\<close>). On a state that satisfies the invariant, what the handler sends is what the
  specification sends (for a list, the lines the manager prints for it); the handler is over,
  except that of a subscriber of a box that exists, which stays with the box, at the end of
  its file; the state represents the specification's next state, and the invariant is kept.
\<close>

theorem requests_served:
  assumes "service_inv b" and "serve_duty r (service_abs b)"
  shows "\<exists>x b'. serve r b = Inr (x, b') \<and> service_inv b' \<and> serve_step_spec r (service_abs b) = (x, service_abs b')"
  by (rule service.simulates [OF assms])

definition no_service :: service where
  "no_service = \<lparr>s_boxes = (\<lambda>_. None), s_waiting = 0\<rparr>"

lemma start_inv:
  assumes "fs_inv s" and "fs_caps s = params_caps broker_params" and "fs_abs s = empty_afs"
    and "boxes_inv t" and "\<And>name. box_lookup name t = None" and "heap t = (\<lambda>_. None)" and "capacity t = 8" and "bt_size t = 0"
  shows "service_inv \<lparr>b_fs = s, b_table = t\<rparr>" and "service_abs \<lparr>b_fs = s, b_table = t\<rparr> = no_service"
proof -
  have "broker_inv \<lparr>b_fs = s, b_table = t\<rparr>"
    by (rule no_handles_inv [OF assms(1) _ assms(4,5)]) (simp add: assms(3) empty_afs_def)
  then show "service_inv \<lparr>b_fs = s, b_table = t\<rparr>"
    using assms by (simp add: service_inv_def box_ok_def small_def empty_afs_def)
  show "service_abs \<lparr>b_fs = s, b_table = t\<rparr> = no_service"
    using assms by (simp add: service_abs_def no_service_def mailbox_of_def empty_afs_def fun_eq_iff)
qed

text \<open>The request for the box \<open>a\<close>, on the broker's own file system just started.\<close>

definition demo_memory :: memory where
  "demo_memory = \<lparr>mem_malloc = (\<lambda>t. Suc (Max (insert 0 (dom (heap t))))), mem_realloc = (\<lambda>n. replicate n None)\<rparr>"

lemma demo_memory_ok: "memory_ok demo_memory"
proof -
  have "heap t (Suc (Max (insert 0 (dom (heap t))))) = None" if fin: "finite (dom (heap t))" for t :: box_table
  proof (rule ccontr)
    assume "heap t (Suc (Max (insert 0 (dom (heap t))))) \<noteq> None"
    then have "Suc (Max (insert 0 (dom (heap t)))) \<in> insert 0 (dom (heap t))" by blast
    then have "Suc (Max (insert 0 (dom (heap t)))) \<le> Max (insert 0 (dom (heap t)))" using fin by (intro Max_ge) simp_all
    then show False by simp
  qed
  then show ?thesis by (simp add: memory_ok_def demo_memory_def)
qed

definition live_start :: broker where "live_start = \<lparr>b_fs = live_fs0, b_table = empty_table\<rparr>"

lemma live_start_inv: "service_inv live_start" "service_abs live_start = no_service"
proof -
  have "fs_caps live_fs0 = params_caps broker_params" "fs_abs live_fs0 = empty_afs" using live_fs0(2) by (simp_all add: tfs_abs_def)
  note s = start_inv [OF live_fs0(1) this empty_table_inv empty_table_lookup]
  show "service_inv live_start" "service_abs live_start = no_service"
    unfolding live_start_def by (rule s; simp add: empty_table_def)+
qed

text \<open>What the specification does with a request, given what it carries.\<close>

lemma serve_spec_carries:
  assumes "carries buffer code pipe name"
  shows "serve_spec msgs buffer a =
     (if code = 1 then publish_spec name msgs a
      else if code = 2 then subscribe_spec pipe name a
      else if code = 3 then create_spec pipe name a
      else if code = 5 then remove_spec pipe name a
      else if code = 7 then list_spec pipe a
      else if code = 11 then (Sent [(pipe, empty_list_response 12)], a)
      else (Sent [], a))"
  using carriesD [OF assms] by (simp add: serve_spec_def string_at_def Let_def split: if_splits)

lemma activity_spec_carries:
  assumes "carries buffer code pipe name"
  shows "activity_spec buffer a =
     (case s_boxes a name of None \<Rightarrow> Ready | Some x \<Rightarrow> if code = 2 then Following pipe name (length (mb_messages x)) else Ready)"
  using carriesD [OF assms] by (simp add: activity_spec_def string_at_def split: if_splits option.split)

lemma serve_duty_carries:
  assumes "carries buffer code pipe name" and "length name < 32"
  shows "serve_duty \<lparr>r_env = e, r_memory = m, r_msgs = msgs, r_buffer = buffer\<rparr> a \<longleftrightarrow> calm e \<and> memory_ok m
     \<and> (\<forall>m\<in>set msgs. length m = 1024) \<and> (code \<in> {1, 2, 3} \<longrightarrow> s_waiting a < session_limit)
     \<and> (code = 11 \<longrightarrow> dom (s_boxes a) = {})"
  using assms carriesD(2) [OF assms(1)] by (auto simp: serve_duty_def)

theorem requests_served_witness:
  "\<exists>b'. serve \<lparr>r_env = calm_env, r_memory = demo_memory, r_msgs = [], r_buffer = demo_request 3\<rparr> live_start
      = Inr ((Sent [([99], manager_response 4 0 '''')], Ready), b') \<and> service_inv b'
    \<and> service_abs b' = no_service\<lparr>s_boxes := [[97] \<mapsto> \<lparr>mb_messages = [], mb_subs = 0\<rparr>]\<rparr>"
proof -
  let ?r = "\<lparr>r_env = calm_env, r_memory = demo_memory, r_msgs = [], r_buffer = demo_request 3\<rparr>"
  have "serve_duty ?r (service_abs live_start)"
    using calm_env_calm demo_memory_ok
    by (simp add: serve_duty_carries [OF demo_request_carries] live_start_inv(2) no_service_def)
  moreover have "serve_step_spec ?r no_service = ((Sent [([99], manager_response 4 0 '''')], Ready),
      no_service\<lparr>s_boxes := [[97] \<mapsto> \<lparr>mb_messages = [], mb_subs = 0\<rparr>]\<rparr>)"
    by (simp add: serve_step_spec_def serve_spec_carries [OF demo_request_carries] activity_spec_carries [OF demo_request_carries]
        create_spec_def no_service_def)
  ultimately show ?thesis
    using requests_served [OF live_start_inv(1), of ?r] live_start_inv(2) by auto
qed

text \<open>
  C1. The broker from its start: for every number of sessions, whatever memory it is given,
  \<open>main\<close> sets up a server with that many workers, which then meets every sequence of arriving
  messages and turns of workers as the specification says: a bounded list of pending requests
  in front of the service, where requests are taken in the order in which they arrived and
  none is lost, a worker that has accepted a subscriber takes no request any more, and on its
  turns sends all that has been stored in the box since, each message once and in order. No
  turn faults. The clients keep the duty: \<open>serve_duty\<close> for a request, calls that succeed, and
  publishers that hang up and subscribers that stay. Turns follow each other, they do not
  overlap.
\<close>

theorem server_runs:
  assumes m: "mallocs_ok broker_params (me_tfs e)" "me_boxes e = Some bx" "length bx = 8" "me_subs e = Some sb" "length sb = 8"
    and f: "me_unlink e = 0 \<or> me_enoent e" "me_mkfifo e = 0" and args: "list_all is_digit number" "atoi number = Inr n"
    and q: "me_queue e = Some buffer" "length buffer = nat n" and b0: "inode_table (b_fs b0) = None"
    and fresh: "heap (b_table b0) = (\<lambda>_. None)"
    and duty: "duty_all server_spec server_duty turns ((nat n, []), no_service, replicate (nat n) Ready)"
  shows "\<exists>b q s. broker_main e [prog, pipe, number] (b0, q0) = Inr (n, b, q)
    \<and> run_all server_step turns (server_start n (b, q))
        = Inr (fst (spec_all server_spec turns ((nat n, []), no_service, replicate (nat n) Ready)), s)
    \<and> server_abs s = snd (spec_all server_spec turns ((nat n, []), no_service, replicate (nat n) Ready))"
proof -
  obtain s t q' where r: "broker_main e [prog, pipe, number] (b0, q0) = Inr (n, \<lparr>b_fs = s, b_table = t\<rparr>, q')"
    "fs_inv s" "fs_caps s = params_caps broker_params" "fs_abs s = empty_afs" "boxes_inv t" "\<And>name. box_lookup name t = None"
    "heap t = (\<lambda>_. None)" "capacity t = 8" "bt_size t = 0" "pcq_inv q'" "pcq_abs q' = (nat n, [])"
    using main_runs [OF m f args q b0] fresh by metis
  let ?b = "\<lparr>b_fs = s, b_table = t\<rparr>"
  let ?s = "server_start n (?b, q')"
  note start = start_inv [OF r(2-9)]
  have ws: "waits_ok ?b (Over 0)" "activity_of ?b (Over 0) = Ready" by (simp_all add: waits_ok_def activity_of_def)
  have inv: "server_inv ?s"
    using start(1) r(10) ws(1) by (auto simp: server_start_def server_inv_def own_handles_def)
  have abs: "server_abs ?s = ((nat n, []), no_service, replicate (nat n) Ready)"
    using start(2) r(11) ws(2) by (simp add: server_start_def server_abs_def)
  obtain xs u where "run_all server_step turns ?s = Inr (xs, u)"
    "spec_all server_spec turns ((nat n, []), no_service, replicate (nat n) Ready) = (xs, server_abs u)"
    using server.run_simulates [OF inv] duty unfolding abs by blast
  then show ?thesis using r(1) by (intro exI [of _ ?b] exI [of _ q'] exI [of _ u]) simp
qed

text \<open>
  A server for two sessions: the box \<open>a\<close> is created; worker 0 takes the subscriber, to which
  there is nothing to send yet, and from then on leaves the queue alone; worker 1 serves a
  publisher; on its next turn worker 0 sends the message, on the one after that nothing; and
  the box, which has a subscriber, is not removed.
\<close>

definition demo_message :: "u8 \<Rightarrow> u8 list" where
  "demo_message code = register_message code (copy_arg 256 [99]) (copy_arg 32 [97])"

definition demo_turns :: "turn list" where
  "demo_turns = (let work = (\<lambda>i. Work i calm_env demo_memory) in
     [Arrive (demo_message 3), Arrive (demo_message 2), Arrive (demo_message 1), work 0 [], work 0 [],
      Arrive (demo_message 1), work 0 [], work 1 [live_msg], work 0 [], work 0 [], Arrive (demo_message 5), work 0 [],
      work 1 [], work 1 []])"

definition demo_effects :: "effect list" where
  "demo_effects =
     [Accepted, Accepted, Full, Answered (Sent [([99], manager_response 4 0 '''')]), Answered (Sent []),
      Accepted, Answered (Sent []), Answered (Sent []), Answered (Sent [([99], 10 # live_msg)]), Answered (Sent []), Accepted,
      Answered (Sent []), Answered (Sent []), Idle]"

definition demo_server :: "u8 list main_env" where
  "demo_server = \<lparr>me_tfs = live_mallocs, me_boxes = Some (replicate 8 (Some 3)), me_subs = Some (replicate 8 (Some 4)),
     me_queue = Some [[], []], me_unlink = -1, me_enoent = True, me_mkfifo = 0\<rparr>"

lemma demo_receives: "receive_request (demo_message code) = demo_request code"
  by (simp add: demo_message_def demo_request_def)

lemma demo_turns_run:
  "duty_all server_spec server_duty demo_turns ((2, []), no_service, [Ready, Ready])"
  "spec_all server_spec demo_turns ((2, []), no_service, [Ready, Ready]) = (demo_effects, (2, []),
     \<lparr>s_boxes = [[97] \<mapsto> \<lparr>mb_messages = [live_msg], mb_subs = 1\<rparr>], s_waiting = 1\<rparr>, [Following [99] [97] 1, Ready])"
  by (simp_all add: demo_turns_def demo_effects_def Let_def demo_receives serve_spec_carries [OF demo_request_carries]
      serve_duty_carries [OF demo_request_carries] activity_spec_carries [OF demo_request_carries] new_messages_def
      create_spec_def publish_spec_def subscribe_spec_def remove_spec_def no_service_def calm_env_calm demo_memory_ok live_msg_def)

theorem server_runs_witness:
  "\<exists>b q s. broker_main demo_server [[109], [112], [50]] (\<lparr>b_fs = no_fs, b_table = empty_table\<rparr>, \<lparr>pcq_buffer = None, pcq_capacity = 0,
        pcq_current_size = 0, pcq_head = 0, pcq_tail = 0\<rparr>) = Inr (2, b, q)
    \<and> run_all server_step demo_turns (server_start 2 (b, q)) = Inr (demo_effects, s)
    \<and> server_abs s = ((2, []), \<lparr>s_boxes = [[97] \<mapsto> \<lparr>mb_messages = [live_msg], mb_subs = 1\<rparr>], s_waiting = 1\<rparr>,
        [Following [99] [97] 1, Ready])"
proof -
  have two: "nat 2 = 2" "replicate 2 Ready = [Ready, Ready]" by (simp_all add: numeral_2_eq_2)
  have duty: "duty_all server_spec server_duty demo_turns ((nat 2, []), no_service, replicate (nat 2) Ready)"
    unfolding two by (rule demo_turns_run(1))
  have h: "heap (b_table \<lparr>b_fs = no_fs, b_table = empty_table\<rparr>) = (\<lambda>_. None)" by (simp add: empty_table_def)
  have v: "atoi [50] = Inr 2" "list_all is_digit [50]" by (simp_all add: atoi_def is_digit_def)
  have "\<exists>b q s. broker_main demo_server [[109], [112], [50]] (\<lparr>b_fs = no_fs, b_table = empty_table\<rparr>, \<lparr>pcq_buffer = None, pcq_capacity = 0,
        pcq_current_size = 0, pcq_head = 0, pcq_tail = 0\<rparr>) = Inr (2, b, q)
    \<and> run_all server_step demo_turns (server_start 2 (b, q))
        = Inr (fst (spec_all server_spec demo_turns ((nat 2, []), no_service, replicate (nat 2) Ready)), s)
    \<and> server_abs s = snd (spec_all server_spec demo_turns ((nat 2, []), no_service, replicate (nat 2) Ready))"
    by (rule server_runs [OF _ _ _ _ _ _ _ v(2,1) _ _ _ h duty, where bx = "replicate 8 (Some 3)" and sb = "replicate 8 (Some 4)" and buffer = "[[], []]"])
      (simp_all add: demo_server_def live_mallocs_def mallocs_ok_def broker_params_def no_fs_def)
  then show ?thesis unfolding two demo_turns_run(2) by simp
qed

end
