(* ===== verification/Live_Props.thy ===== *)
theory Live_Props
  imports Live_Steps Live_Sections Server
begin

text \<open>
  Interleaved sessions: in every order of their steps no section faults, a box's file holds
  the messages its publishers have stored, and a subscriber is sent a prefix of them.
\<close>

declare fs_abs_simps [simp del] and fs_caps_simps [simp del]

section \<open>Joining\<close>

text \<open>What a registration that succeeds has found.\<close>

lemma box_behind:
  assumes ok: "boxes_ok b" and look: "box_lookup name (b_table b) = Some p"
  shows "\<exists>z i. heap (b_table b) p = Some z \<and> a_names (b_afs b) name = Some i \<and> name \<noteq> [] \<and> length name < 32 \<and> is_cstring (47 # name)"
proof -
  note d = boxes_okD [OF ok]
  obtain z where "heap (b_table b) p = Some z" using lookup_name [OF d(2) look] by blast
  moreover obtain i where "a_names (b_afs b) name = Some i" using d(4) look unfolding backed_def by blast
  ultimately show ?thesis using d(3) look unfolding names_ok_lookup [OF d(2)] by (auto simp: is_cstring_def)
qed

lemma pub_enter_SomeD:
  assumes ok: "boxes_ok b" and e: "calm e" and run: "pub_enter e request b = Inr (Some p, b')"
  shows "\<exists>z. asks_for b request p \<and> heap (b_table b) p = Some z \<and> pub_num z = 0
    \<and> b' = \<lparr>b_fs = b_fs b, b_table = set_box p (z\<lparr>pub_num := 1\<rparr>) (b_table b)\<rparr>"
proof -
  note d = boxes_okD [OF ok]
  obtain rx name where str: "string_at 1 request = Inr rx" "string_at 257 request = Inr name"
    using run calmD [OF e] by (auto simp: pub_enter_def bindE_Inr_iff split: if_splits)
  obtain q z where z: "box_lookup name (b_table b) = Some q" "heap (b_table b) q = Some z"
  proof (cases "box_lookup name (b_table b)")
    case None
    then show ?thesis using run str calmD [OF e] box_count_eqs(1) [OF d(2) None] by (simp add: pub_enter_def)
  next
    case (Some q)
    then show ?thesis using that box_behind [OF ok] by blast
  qed
  then show ?thesis
    using run str calmD [OF e] box_count_eqs(2) [OF d(2) z] d(6) [OF z(2)]
    by (cases b) (auto simp: pub_enter_def asks_for_def split: if_splits)
qed

lemma sub_enter_SomeD:
  assumes ok: "boxes_ok b" and e: "calm e" and run: "sub_enter e request b = Inr (Some (tx, p), b')"
  shows "\<exists>z. asks_for b request p \<and> heap (b_table b) p = Some z
    \<and> b' = \<lparr>b_fs = b_fs b, b_table = set_box p (z\<lparr>sub_num := sub_num z + 1\<rparr>) (b_table b)\<rparr>"
proof -
  note d = boxes_okD [OF ok]
  obtain rx name where str: "string_at 1 request = Inr rx" "string_at 257 request = Inr name"
    using run calmD [OF e] by (auto simp: sub_enter_def bindE_Inr_iff split: if_splits)
  obtain q z where z: "box_lookup name (b_table b) = Some q" "heap (b_table b) q = Some z"
  proof (cases "box_lookup name (b_table b)")
    case None
    then show ?thesis using run str calmD [OF e] box_count_eqs(4) [OF d(2) None] by (simp add: sub_enter_def)
  next
    case (Some q)
    then show ?thesis using that box_behind [OF ok] by blast
  qed
  then show ?thesis
    using run str calmD [OF e] box_count_eqs(5) [OF d(2) z] by (cases b) (auto simp: sub_enter_def asks_for_def)
qed

text \<open>A registration changes one box and no file.\<close>

lemma live_joins:
  assumes inv: "live_inv before s"
    and p: "asks_for (l_broker s) request p" "heap (b_table (l_broker s)) p = Some z" "file_name w = file_name z"
      "pub_num w = pub_num z \<or> pub_num z = 0 \<and> pub_num w = 1"
    and x: "ss_box x = p" "entering (ss_point x) = Some request" "ss_sent x = []" "claims x \<longrightarrow> pub_num z = 0 \<and> pub_num w = 1"
  shows "live_inv before (s\<lparr>l_broker := \<lparr>b_fs = b_fs (l_broker s), b_table = set_box p w (b_table (l_broker s))\<rparr>,
    l_sessions := (l_sessions s)(t \<mapsto> x)\<rparr>)"
proof -
  let ?b = "l_broker s"
  let ?b' = "\<lparr>b_fs = b_fs ?b, b_table = set_box p w (b_table ?b)\<rparr>"
  note bok = live_invD(1) [OF inv]
  have tab: "same_table p (b_table ?b) (set_box p w (b_table ?b))"
    by (rule same_table_set [OF p(2,3)]) (use boxes_okD(6) [OF bok p(2)] p(4) in auto)
  note same = same_boxes_ok [OF bok same_boxesI [OF bok boxes_okD(1) [OF bok] refl refl tab]]
  have n: "\<not> opened x" "\<not> waits x" "\<not> closing (ss_point x)" "\<not> is_pub x" "\<not> is_sub x"
    using x(2) by (cases "ss_point x"; simp add: opened_def)+
  obtain name i where i: "box_lookup name (b_table ?b) = Some p" "a_names (b_afs ?b) name = Some i"
    using p(1) box_behind [OF bok] unfolding asks_for_def by blast
  have "box_file ?b p i" using i unfolding box_file_def by blast
  then have ok: "session_ok ?b' (kept before s p) x"
    using x p(1) n unfolding session_ok_def same by (auto simp: published_def)
  show ?thesis
  proof (rule live_sets [OF inv boxes_okD(1) [OF bok] refl refl refl])
    fix v y assume y: "l_sessions s v = Some y"
    have pub: "published ?b (ss_box y)" if "claims y" using session_okD(4) [OF live_invD(4) [OF inv y] that] .
    then show "undisturbed ?b ?b' (ss_box x) [] y \<and> apart x y"
      using n(1,2) x(1,4) p(2,4) by (auto simp: undisturbed_def apart_def published_def)
  qed (use tab ok x(1) in simp_all)
qed

lemma pub_joins_live:
  assumes inv: "live_inv before s" and e: "calm e" and run: "pub_enter e request (l_broker s) = Inr (Some p, b)"
    and x: "x = \<lparr>ss_box = p, ss_fd = -1, ss_pipe = [], ss_point = Pub_Open request, ss_sent = []\<rparr>"
  shows "live_inv before (s\<lparr>l_broker := b, l_sessions := (l_sessions s)(t \<mapsto> x)\<rparr>)"
proof -
  obtain z where z: "asks_for (l_broker s) request p" "heap (b_table (l_broker s)) p = Some z" "pub_num z = 0"
    "b = \<lparr>b_fs = b_fs (l_broker s), b_table = set_box p (z\<lparr>pub_num := 1\<rparr>) (b_table (l_broker s))\<rparr>"
    using pub_enter_SomeD [OF live_invD(1) [OF inv] e run] by blast
  show ?thesis unfolding z(4) by (rule live_joins [OF inv z(1,2)]) (simp_all add: x z(3))
qed

lemma sub_joins_live:
  assumes inv: "live_inv before s" and e: "calm e" and run: "sub_enter e request (l_broker s) = Inr (Some (tx, p), b)"
    and x: "x = \<lparr>ss_box = p, ss_fd = -1, ss_pipe = tx, ss_point = Sub_Open request, ss_sent = []\<rparr>"
  shows "live_inv before (s\<lparr>l_broker := b, l_sessions := (l_sessions s)(t \<mapsto> x)\<rparr>)"
proof -
  obtain z where z: "asks_for (l_broker s) request p" "heap (b_table (l_broker s)) p = Some z"
    "b = \<lparr>b_fs = b_fs (l_broker s), b_table = set_box p (z\<lparr>sub_num := sub_num z + 1\<rparr>) (b_table (l_broker s))\<rparr>"
    using sub_enter_SomeD [OF live_invD(1) [OF inv] e run] by blast
  show ?thesis unfolding z(3) by (rule live_joins [OF inv z(1,2)]) (simp_all add: x)
qed

section \<open>Opening the file\<close>

text \<open>With no handle free the result is \<open>-1\<close> and nothing has changed.\<close>

lemma open_existing:
  assumes inv: "fs_inv s" and i: "a_names (fs_abs s) name = Some i" "name \<noteq> []" "is_cstring (47 # name)"
    and mode: "mode = TFS_O_APPEND \<or> mode = 0"
  shows "\<exists>r u. tfs_open mutex_ok (Some (47 # name)) mode s = Inr (r, u) \<and> fs_inv u \<and> fs_caps u = fs_caps s
    \<and> (r = -1 \<and> fs_abs u = fs_abs s
      \<or> (\<exists>h. r = int h \<and> a_handles (fs_abs s) h = None \<and> fs_abs u = (fs_abs s)\<lparr>a_handles :=
          (a_handles (fs_abs s))(h \<mapsto> (i, if mode = 0 then 0 else length (the (a_data (fs_abs s) i))))\<rparr>))"
proof -
  have m: "mode AND TFS_O_TRUNC = 0" "mode AND TFS_O_APPEND \<noteq> 0 \<longleftrightarrow> mode \<noteq> 0" using mode by (auto simp: mode_defs)
  obtain r u where u: "tfs_open mutex_ok (Some (47 # name)) mode s = Inr (r, u)" "fs_inv u" "fs_caps u = fs_caps s"
    "a_open (fs_caps s) (Some (47 # name)) mode (fs_abs s) = (r, fs_abs u)"
    using sim_open [OF inv i(3) m(1)] by blast
  then have "a_open_handle (fs_caps s) i (if mode = 0 then 0 else length (the (a_data (fs_abs s) i))) (fs_abs s) = (r, fs_abs u)"
    using a_open_existing [OF i(2,1) m(1), of "fs_caps s"] m(2) by auto
  then show ?thesis
    using u(1-3) a_open_handle_cases [of "fs_caps s" i "if mode = 0 then 0 else length (the (a_data (fs_abs s) i))" "fs_abs s"] by auto
qed

lemma close_none:
  assumes "fs_inv s"
  shows "\<exists>u. tfs_close mutex_ok (-1) s = Inr (-1, u) \<and> fs_inv u \<and> fs_caps u = fs_caps s \<and> fs_abs u = fs_abs s"
  using sim_close [OF assms, of "-1"] by (auto simp: a_close_bad)

lemma live_opened:
  assumes inv: "live_inv before s" and x: "l_sessions s t = Some x"
    and u: "fs_inv u" "fs_caps u = b_caps (l_broker s)" "a_handles (b_afs (l_broker s)) h = None"
      "fs_abs u = (b_afs (l_broker s))\<lparr>a_handles := (a_handles (b_afs (l_broker s)))(h \<mapsto> k)\<rparr>"
    and y: "\<not> waiting y" "claiming y \<Longrightarrow> claims x"
    and ok: "session_ok ((l_broker s)\<lparr>b_fs := u\<rparr>) (kept before s (ss_box x)) (x\<lparr>ss_fd := int h, ss_point := y\<rparr>)"
  shows "live_inv before (goes t (x\<lparr>ss_fd := int h\<rparr>) y ((l_broker s)\<lparr>b_fs := u\<rparr>) s)"
proof -
  let ?b = "l_broker s" and ?x = "x\<lparr>ss_fd := int h, ss_point := y\<rparr>"
  have b: "?b\<lparr>b_fs := u\<rparr> = \<lparr>b_fs = u, b_table = b_table ?b\<rparr>" by (cases ?b) simp
  show ?thesis
    unfolding goes_def b
  proof (rule live_sets [OF inv u(1,2)])
    fix v z assume z: "v \<noteq> t" "l_sessions s v = Some z"
    note d = session_okD [OF live_invD(4) [OF inv z(2)]] and ap = live_invD(5) [OF inv z(1) [symmetric] x z(2)]
    have "ss_fd z \<noteq> int h" if o: "opened z"
    proof -
      obtain n where "stands ?b z n" using o d(3,8,10) unfolding opened_def by blast
      then show ?thesis using u(3) by (auto simp: stands_def)
    qed
    then show "undisturbed ?b \<lparr>b_fs = u, b_table = b_table ?b\<rparr> (ss_box ?x) [] z \<and> apart ?x z"
      using ap y by (auto simp: u(4) undisturbed_def apart_def published_def)
  qed (use u(4) ok in \<open>simp_all add: same_table_def b\<close>)
qed

lemma live_refused:
  assumes inv: "live_inv before s" and x: "l_sessions s t = Some x"
    and u: "fs_inv u" "fs_caps u = b_caps (l_broker s)" "fs_abs u = b_afs (l_broker s)"
  shows "live_inv before (goes t (x\<lparr>ss_fd := fd\<rparr>) (Returned v) ((l_broker s)\<lparr>b_fs := u\<rparr>) s)"
proof -
  let ?b = "l_broker s"
  have b: "?b\<lparr>b_fs := u\<rparr> = \<lparr>b_fs = u, b_table = b_table ?b\<rparr>" by (cases ?b) simp
  have bf: "box_file \<lparr>b_fs = u, b_table = b_table ?b\<rparr> = box_file ?b" by (simp add: box_file_def u(3) fun_eq_iff)
  show ?thesis
    unfolding goes_def b
    by (rule live_goes [OF inv x u(1,2)])
      (use session_okD(1,9) [OF live_invD(4) [OF inv x]] bf in \<open>simp_all add: u(3) same_table_def published_def opened_def session_ok_def\<close>)
qed

text \<open>
  A session that has been registered finds the file of its box: it is refused a handle, and
  closing \<open>-1\<close> then changes nothing, or it gets one at the file's end or its start.
\<close>

lemma entering_opens:
  assumes inv: "live_inv before s" and x: "l_sessions s t = Some x" "entering (ss_point x) = Some request"
    and mode: "mode = TFS_O_APPEND \<or> mode = 0"
  shows "\<exists>name i r u. string_at 257 request = Inr name \<and> length name < 32 \<and> box_file (l_broker s) (ss_box x) i
    \<and> tfs_open mutex_ok (Some (47 # name)) mode (b_fs (l_broker s)) = Inr (r, u) \<and> fs_inv u \<and> fs_caps u = b_caps (l_broker s)
    \<and> (r = -1 \<and> (\<exists>v. tfs_close mutex_ok (-1) u = Inr (-1, v)
          \<and> (\<forall>fd w. live_inv before (goes t (x\<lparr>ss_fd := fd\<rparr>) (Returned w) ((l_broker s)\<lparr>b_fs := v\<rparr>) s)))
      \<or> (\<exists>h. r = int h \<and> a_handles (b_afs (l_broker s)) h = None \<and> fs_abs u = (b_afs (l_broker s))\<lparr>a_handles :=
          (a_handles (b_afs (l_broker s)))(h \<mapsto> (i, if mode = 0 then 0 else 1024 * length (kept before s (ss_box x))))\<rparr>))"
proof -
  let ?b = "l_broker s" and ?p = "ss_box x"
  note bok = live_invD(1) [OF inv]
  have "asks_for ?b request ?p" using session_okD(11) [OF live_invD(4) [OF inv x(1)] x(2)] ..
  then obtain name where n: "string_at 257 request = Inr name" "box_lookup name (b_table ?b) = Some ?p" unfolding asks_for_def by blast
  obtain i where i: "a_names (b_afs ?b) name = Some i" "name \<noteq> []" "length name < 32" "is_cstring (47 # name)"
    using box_behind [OF bok n(2)] by blast
  have bf: "box_file ?b ?p i" using n(2) i(1) unfolding box_file_def by blast
  have len: "length (the (a_data (b_afs ?b) i)) = 1024 * length (kept before s ?p)"
    using live_invD(3) [OF inv bf] length_file [OF inv] by simp
  obtain r u where u: "tfs_open mutex_ok (Some (47 # name)) mode (b_fs ?b) = Inr (r, u)" "fs_inv u" "fs_caps u = b_caps ?b"
    "r = -1 \<and> fs_abs u = b_afs ?b \<or> (\<exists>h. r = int h \<and> a_handles (b_afs ?b) h = None \<and> fs_abs u = (b_afs ?b)\<lparr>a_handles :=
      (a_handles (b_afs ?b))(h \<mapsto> (i, if mode = 0 then 0 else 1024 * length (kept before s ?p)))\<rparr>)"
    using open_existing [OF boxes_okD(1) [OF bok] i(1,2,4) mode] unfolding len by blast
  have "\<exists>v. tfs_close mutex_ok (-1) u = Inr (-1, v) \<and> (\<forall>fd w. live_inv before (goes t (x\<lparr>ss_fd := fd\<rparr>) (Returned w) (?b\<lparr>b_fs := v\<rparr>) s))"
    if "fs_abs u = b_afs ?b"
    using close_none [OF u(2)] live_refused [OF inv x(1)] u(3) that by metis
  then show ?thesis using n(1) i(3) bf u by blast
qed

lemma pub_opens_live:
  assumes inv: "live_inv before s" and e: "calm e" and x: "l_sessions s t = Some x" "ss_point x = Pub_Open request"
  shows "\<exists>fd y b. pub_open e request (l_broker s) = Inr (fd, y, b) \<and> live_inv before (goes t (x\<lparr>ss_fd := fd\<rparr>) y b s)"
proof -
  let ?b = "l_broker s" and ?p = "ss_box x" and ?y = "Pub_Read (replicate PUBLISHER_BUFFER_SIZE 0)"
  have en: "ss_sent x = []" "published ?b ?p" using session_okD(4,11) [OF live_invD(4) [OF inv x(1)]] x(2) by simp_all
  obtain name i r u where o: "string_at 257 request = Inr name" "length name < 32" "box_file ?b ?p i"
    "tfs_open mutex_ok (Some (47 # name)) TFS_O_APPEND (b_fs ?b) = Inr (r, u)" "fs_inv u" "fs_caps u = b_caps ?b"
    and r: "r = -1 \<and> (\<exists>v. tfs_close mutex_ok (-1) u = Inr (-1, v)
          \<and> (\<forall>fd w. live_inv before (goes t (x\<lparr>ss_fd := fd\<rparr>) (Returned w) (?b\<lparr>b_fs := v\<rparr>) s)))
      \<or> (\<exists>h. r = int h \<and> a_handles (b_afs ?b) h = None \<and> fs_abs u = (b_afs ?b)\<lparr>a_handles :=
          (a_handles (b_afs ?b))(h \<mapsto> (i, if TFS_O_APPEND = 0 then 0 else 1024 * length (kept before s ?p)))\<rparr>)"
    using entering_opens [OF inv x(1), of request TFS_O_APPEND] x(2) by auto
  note run = pub_open_def box_path_def Let_def o(1,4) calmD [OF e]
  from r show ?thesis
  proof (elim disjE exE conjE)
    fix v assume "r = -1" "tfs_close mutex_ok (-1) u = Inr (-1, v)"
      "\<forall>fd w. live_inv before (goes t (x\<lparr>ss_fd := fd\<rparr>) (Returned w) (?b\<lparr>b_fs := v\<rparr>) s)"
    then show ?thesis using o(2) by (simp add: run)
  next
    fix h assume h: "r = int h" "a_handles (b_afs ?b) h = None" "fs_abs u = (b_afs ?b)\<lparr>a_handles :=
      (a_handles (b_afs ?b))(h \<mapsto> (i, if TFS_O_APPEND = 0 then 0 else 1024 * length (kept before s ?p)))\<rparr>"
    have "box_file (?b\<lparr>b_fs := u\<rparr>) = box_file ?b" by (simp add: box_file_def h(3) fun_eq_iff)
    then have "session_ok (?b\<lparr>b_fs := u\<rparr>) (kept before s ?p) (x\<lparr>ss_fd := int h, ss_point := ?y\<rparr>)"
      using o(3) en by (auto simp: session_ok_def stands_def published_def h(3) mode_defs)
    then have "live_inv before (goes t (x\<lparr>ss_fd := int h\<rparr>) ?y (?b\<lparr>b_fs := u\<rparr>) s)"
      by (intro live_opened [OF inv x(1) o(5,6) h(2,3)]) (simp_all add: x(2))
    then show ?thesis using h(1) o(2) by (simp add: run)
  qed
qed

lemma sub_opens_live:
  assumes inv: "live_inv before s" and e: "calm e" and x: "l_sessions s t = Some x" "ss_point x = Sub_Open request"
  shows "\<exists>fd y b. sub_open e request (l_broker s) = Inr (fd, y, b) \<and> live_inv before (goes t (x\<lparr>ss_fd := fd\<rparr>) y b s)"
proof -
  let ?b = "l_broker s" and ?p = "ss_box x" and ?y = "Sub_Read ((replicate SUBSCRIBER_BUFFER_SIZE 0)[0 := 10])"
  have en: "ss_sent x = []" using session_okD(11) [OF live_invD(4) [OF inv x(1)]] x(2) by simp
  obtain name i r u where o: "string_at 257 request = Inr name" "length name < 32" "box_file ?b ?p i"
    "tfs_open mutex_ok (Some (47 # name)) 0 (b_fs ?b) = Inr (r, u)" "fs_inv u" "fs_caps u = b_caps ?b"
    and r: "r = -1 \<and> (\<exists>v. tfs_close mutex_ok (-1) u = Inr (-1, v)
          \<and> (\<forall>fd w. live_inv before (goes t (x\<lparr>ss_fd := fd\<rparr>) (Returned w) (?b\<lparr>b_fs := v\<rparr>) s)))
      \<or> (\<exists>h. r = int h \<and> a_handles (b_afs ?b) h = None
          \<and> fs_abs u = (b_afs ?b)\<lparr>a_handles := (a_handles (b_afs ?b))(h \<mapsto> (i, 0))\<rparr>)"
    using entering_opens [OF inv x(1), of request 0] x(2) by auto
  note run = sub_open_def Let_def subscriber_name [OF o(1,2)] o(4) calmD [OF e]
  from r show ?thesis
  proof (elim disjE exE conjE)
    fix v assume "r = -1" "tfs_close mutex_ok (-1) u = Inr (-1, v)"
      "\<forall>fd w. live_inv before (goes t (x\<lparr>ss_fd := fd\<rparr>) (Returned w) (?b\<lparr>b_fs := v\<rparr>) s)"
    then show ?thesis by (simp add: run)
  next
    fix h assume h: "r = int h" "a_handles (b_afs ?b) h = None"
      "fs_abs u = (b_afs ?b)\<lparr>a_handles := (a_handles (b_afs ?b))(h \<mapsto> (i, 0))\<rparr>"
    have "box_file (?b\<lparr>b_fs := u\<rparr>) = box_file ?b" by (simp add: box_file_def h(3) fun_eq_iff)
    then have "session_ok (?b\<lparr>b_fs := u\<rparr>) (kept before s ?p) (x\<lparr>ss_fd := int h, ss_point := ?y\<rparr>)"
      using o(3) en by (auto simp: session_ok_def stands_def taken_def h(3))
    then have "live_inv before (goes t (x\<lparr>ss_fd := int h\<rparr>) ?y (?b\<lparr>b_fs := u\<rparr>) s)"
      by (intro live_opened [OF inv x(1) o(5,6) h(2,3)]) (simp_all add: x(2))
    then show ?thesis using h(1) by (simp add: run)
  qed
qed

text \<open>A session that starts while no other session moves.\<close>

lemma publisher_starts:
  assumes "l_sessions s t = None" and "publisher_start e request (l_broker s) = Inr (Some (p, fd), b)" and "\<not> held p s"
  shows "live_reachable e s (s\<lparr>l_broker := b, l_sessions := (l_sessions s)(t \<mapsto>
    \<lparr>ss_box = p, ss_fd = fd, ss_pipe = [], ss_point = Pub_Read (replicate PUBLISHER_BUFFER_SIZE 0), ss_sent = []\<rparr>)\<rparr>)"
proof -
  let ?x = "\<lparr>ss_box = p, ss_fd = -1, ss_pipe = [], ss_point = Pub_Open request, ss_sent = []\<rparr>"
  obtain b1 where b1: "pub_enter e request (l_broker s) = Inr (Some p, b1)"
    "pub_open e request b1 = Inr (fd, Pub_Read (replicate PUBLISHER_BUFFER_SIZE 0), b)"
    using publisher_startD [OF assms(2)] by blast
  obtain s1 where s1: "s1 = s\<lparr>l_broker := b1, l_sessions := (l_sessions s)(t \<mapsto> ?x)\<rparr>" by blast
  have st: "live_step e s s1" unfolding s1 by (rule live_step.pub_joins [OF assms(1) b1(1) assms(3) refl])
  have "live_step e s1 (goes t (?x\<lparr>ss_fd := fd\<rparr>) (Pub_Read (replicate PUBLISHER_BUFFER_SIZE 0)) b s1)"
    by (rule live_step.pub_opens [where request = request]) (use b1(2) in \<open>simp_all add: s1\<close>)
  then have "live_reachable e s (goes t (?x\<lparr>ss_fd := fd\<rparr>) (Pub_Read (replicate PUBLISHER_BUFFER_SIZE 0)) b s1)"
    using st unfolding live_reachable_def by (meson r_into_rtranclp rtranclp.rtrancl_into_rtrancl)
  then show ?thesis by (simp add: goes_def s1)
qed

lemma subscriber_starts:
  assumes "l_sessions s t = None" and "subscriber_start e request (l_broker s) = Inr (Some (tx, p, fd), b)" and "\<not> held p s"
  shows "live_reachable e s (s\<lparr>l_broker := b, l_sessions := (l_sessions s)(t \<mapsto>
    \<lparr>ss_box = p, ss_fd = fd, ss_pipe = tx, ss_point = Sub_Read ((replicate SUBSCRIBER_BUFFER_SIZE 0)[0 := 10]), ss_sent = []\<rparr>)\<rparr>)"
proof -
  let ?x = "\<lparr>ss_box = p, ss_fd = -1, ss_pipe = tx, ss_point = Sub_Open request, ss_sent = []\<rparr>"
    and ?y = "Sub_Read ((replicate SUBSCRIBER_BUFFER_SIZE 0)[0 := 10])"
  obtain b1 where b1: "sub_enter e request (l_broker s) = Inr (Some (tx, p), b1)" "sub_open e request b1 = Inr (fd, ?y, b)"
    using subscriber_startD [OF assms(2)] by blast
  obtain s1 where s1: "s1 = s\<lparr>l_broker := b1, l_sessions := (l_sessions s)(t \<mapsto> ?x)\<rparr>" by blast
  have st: "live_step e s s1" unfolding s1 by (rule live_step.sub_joins [OF assms(1) b1(1) assms(3) refl])
  have "live_step e s1 (goes t (?x\<lparr>ss_fd := fd\<rparr>) ?y b s1)"
    by (rule live_step.sub_opens [where request = request]) (use b1(2) in \<open>simp_all add: s1\<close>)
  then have "live_reachable e s (goes t (?x\<lparr>ss_fd := fd\<rparr>) ?y b s1)"
    using st unfolding live_reachable_def by (meson r_into_rtranclp rtranclp.rtrancl_into_rtrancl)
  then show ?thesis by (simp add: goes_def s1)
qed

section \<open>Every interleaving\<close>

text \<open>The messages in the file of a box, and a broker before its first session.\<close>

definition file_messages :: "broker \<Rightarrow> addr \<Rightarrow> u8 list list" where
  "file_messages b p = (case heap (b_table b) p of None \<Rightarrow> []
     | Some z \<Rightarrow> (case mailbox_of (b_afs b) (b_table b) (file_name z) of None \<Rightarrow> [] | Some m \<Rightarrow> mb_messages m))"

definition started :: "broker \<Rightarrow> interleaved" where
  "started b = \<lparr>l_broker = b, l_sessions = (\<lambda>_. None), l_stored = (\<lambda>_. [])\<rparr>"

lemma file_messages_data:
  assumes "boxes_inv (b_table b)" and "box_lookup name (b_table b) = Some p" and "a_names (b_afs b) name = Some i"
    and "a_data (b_afs b) i = Some (concat ms)" and "whole ms"
  shows "file_messages b p = ms"
  using lookup_name [OF assms(1,2)] assms(2-5) by (auto simp: file_messages_def mailbox_of_def)

lemma live_file:
  assumes inv: "live_inv before s" and i: "box_file (l_broker s) p i"
  shows "file_messages (l_broker s) p = kept before s p"
proof -
  obtain name where n: "box_lookup name (b_table (l_broker s)) = Some p" "a_names (b_afs (l_broker s)) name = Some i"
    using i unfolding box_file_def by blast
  show ?thesis
    by (rule file_messages_data [OF boxes_okD(2) [OF live_invD(1) [OF inv]] n live_invD(3) [OF inv i] whole_kept [OF inv]])
qed

lemma started_inv:
  assumes inv: "service_inv b"
  shows "live_inv (file_messages b) (started b)"
proof -
  note i = broker_invD [OF service_invD(1) [OF inv]]
  have box: "\<exists>z i ms. heap (b_table b) p = Some z \<and> a_names (b_afs b) name = Some i \<and> a_data (b_afs b) i = Some (concat ms)
    \<and> whole ms \<and> length ms \<le> 100 \<and> pub_num z = 0 \<and> file_messages b p = ms" if p: "box_lookup name (b_table b) = Some p" for name p
  proof -
    obtain z k ms where z: "heap (b_table b) p = Some z" "a_names (b_afs b) name = Some k" "a_data (b_afs b) k = Some (concat ms)"
      "whole ms" "pub_num z = 0"
      using service_box [OF inv p] by blast
    have "1024 * length ms \<le> 102400"
      using file_fits [OF i(1) z(3)] service_invD(2) [OF inv] broker_caps(1) length_concat_whole [OF z(4)] by simp
    then show ?thesis using z file_messages_data [OF i(2) p z(2-4)] by auto
  qed
  have "boxes_ok b"
    unfolding boxes_ok_def
  proof (intro conjI allI impI)
    fix p z assume z: "heap (b_table b) p = Some z"
    then obtain name where "box_lookup name (b_table b) = Some p" using service_invD(4) [OF inv, of p] by auto
    from box [OF this] z show "pub_num z = 0 \<or> pub_num z = 1" by auto
  qed (use i service_invD(2) [OF inv] in simp_all)
  moreover have "whole (file_messages b p)" for p
  proof (cases "heap (b_table b) p")
    case (Some z)
    then obtain name where "box_lookup name (b_table b) = Some p" using service_invD(4) [OF inv, of p] by auto
    from box [OF this] show ?thesis by auto
  qed (simp add: file_messages_def)
  moreover have "a_data (b_afs b) k = Some (concat (take 100 (file_messages b p)))" if k: "box_file b p k" for p k
  proof -
    obtain name where "box_lookup name (b_table b) = Some p" "a_names (b_afs b) name = Some k" using k unfolding box_file_def by blast
    with box [OF this(1)] show ?thesis by auto
  qed
  ultimately show ?thesis by (simp add: live_inv_def started_def kept_def)
qed

lemma live_step_inv:
  assumes "live_step e s s'" and inv: "live_inv before s" and e: "calm e"
  shows "live_inv before s'"
  using assms(1)
proof cases
  case (pub_joins t request p b x)
  then show ?thesis using pub_joins_live [OF inv e] by simp
next
  case (sub_joins t request tx p b x)
  then show ?thesis using sub_joins_live [OF inv e] by simp
next
  case (pub_opens t x request fd y b)
  then show ?thesis using pub_opens_live [OF inv e, of t x request] by auto
next
  case (sub_opens t x request fd y b)
  then show ?thesis using sub_opens_live [OF inv e, of t x request] by auto
next
  case (pub_reads t x buffer r c y b)
  then show ?thesis using pub_reads_live [OF inv e, of t x buffer c r] by auto
next
  case (pub_wakes t x wrote buffer s')
  then show ?thesis using pub_wakes_live [OF inv] by simp
next
  case (pub_counts t x wrote buffer c y b)
  then show ?thesis using pub_counts_live [OF inv e, of t x wrote buffer c] by auto
next
  case (sub_tries t x response c y b)
  then show ?thesis using sub_tries_live [OF inv e, of t x response c] by auto
next
  case (sub_sleeps t x response)
  then show ?thesis using sub_moves_live [OF inv _ alike_points(1)] by simp
next
  case (sub_wakes t x response)
  then show ?thesis using sub_moves_live [OF inv _ alike_points(2)] by simp
next
  case (sub_sends t x response w c y b)
  then show ?thesis using sub_sends_live [OF inv e, of t x response c w] by (auto split: if_splits)
next
  case (closes t x v c y b)
  then show ?thesis using live_closes [OF inv e, of t x v c] by auto
qed

interpretation sessions: machine "\<lambda>s t. \<exists>e. calm e \<and> live_step e s t" "live_inv before" for before
  by unfold_locales (use live_step_inv in blast)

lemma live_reachable_inv:
  assumes "live_reachable e s s'" and "live_inv before s" and "calm e"
  shows "live_inv before s'"
proof (rule sessions.holds_after [OF _ assms(2)])
  show "(\<lambda>s t. \<exists>e. calm e \<and> live_step e s t)\<^sup>*\<^sup>* s s'"
    using assms(1) unfolding live_reachable_def by (rule rtranclp_mono [THEN predicate2D, rotated]) (use assms(3) in auto)
qed

end
