(* ===== verification/Live_Demo.thy ===== *)
theory Live_Demo
  imports Live_Props
begin

text \<open>
  A publisher and a subscriber of the box \<open>a\<close> on the broker's own file system, for the
  witnesses of \<open>Interleaving\<close>: the subscriber has found nothing to read and is about to sleep,
  the publisher waits for its client.
\<close>

declare fs_abs_simps [simp del] and fs_caps_simps [simp del]

lemma demo_box:
  "\<exists>b. service_inv b \<and> service_abs b = no_service\<lparr>s_boxes := [[97] \<mapsto> \<lparr>mb_messages = [], mb_subs = 0\<rparr>]\<rparr>"
proof -
  let ?r = "\<lparr>r_env = calm_env, r_memory = demo_memory, r_msgs = [], r_buffer = demo_request 3\<rparr>"
  have "serve_duty ?r (service_abs live_start)"
    using calm_env_calm demo_memory_ok by (simp add: serve_duty_carries [OF demo_request_carries] live_start_inv(2) no_service_def)
  from service.simulates [OF live_start_inv(1) this] obtain x b where "service_inv b"
    "serve_step_spec ?r (service_abs live_start) = (x, service_abs b)" by blast
  moreover have "serve_step_spec ?r no_service = ((Sent [([99], manager_response 4 0 '''')], Ready),
      no_service\<lparr>s_boxes := [[97] \<mapsto> \<lparr>mb_messages = [], mb_subs = 0\<rparr>]\<rparr>)"
    by (simp add: serve_step_spec_def serve_spec_carries [OF demo_request_carries]
        activity_spec_carries [OF demo_request_carries] create_spec_def no_service_def)
  ultimately show ?thesis using live_start_inv(2) by (metis prod.inject)
qed

lemma demo_waiting:
  "\<exists>b s x y response buffer. service_inv b \<and> live_reachable calm_env (started b) s \<and> l_sessions s 1 = Some x
    \<and> ss_point x = Sub_Wait response \<and> l_sessions s 0 = Some y \<and> ss_point y = Pub_Read buffer \<and> ss_box y = ss_box x
    \<and> ss_sent x = [] \<and> file_messages (l_broker s) (ss_box x) = []"
proof -
  obtain b where b: "service_inv b" "service_abs b = no_service\<lparr>s_boxes := [[97] \<mapsto> \<lparr>mb_messages = [], mb_subs = 0\<rparr>]\<rparr>"
    using demo_box by blast
  note i = broker_invD [OF service_invD(1) [OF b(1)]] and req = carriesD(3,4) [OF demo_request_carries]
  have abs: "s_boxes (service_abs b) [97] = Some \<lparr>mb_messages = [], mb_subs = 0\<rparr>" "s_waiting (service_abs b) = 0"
    using b(2) by (simp_all add: no_service_def)
  then have "box_lookup [97] (b_table b) \<noteq> None" using service_none [of b "[97]"] by auto
  then obtain p where p: "box_lookup [97] (b_table b) = Some p" by blast
  obtain z k ms where z: "heap (b_table b) p = Some z" "a_names (b_afs b) [97] = Some k" "a_data (b_afs b) k = Some (concat ms)"
    "pub_num z = 0" "whole ms" "ms = []"
    using service_box [OF b(1) p] abs(1) by auto
  have caps: "c_files (b_caps b) = 16" using service_invD(2) [OF b(1)] broker_caps(3) by simp
  have "dom (a_handles (b_afs b)) = {}" using abs(2) service_bounds(4) [OF b(1)] by (simp add: service_abs_def)
  then have none: "a_handles (b_afs b) h = None" for h by (simp add: dom_eq_empty_conv)
  have free: "\<exists>h<c_files (b_caps b). a_handles (b_afs b) h = None" using none caps by (intro exI [of _ 0]) simp
  let ?z = "z\<lparr>pub_num := 1\<rparr>"
  let ?z2 = "?z\<lparr>sub_num := sub_num ?z + 1\<rparr>"
  obtain h u where u: "publisher_start calm_env (demo_request 1) b = Inr (Some (p, int h), \<lparr>b_fs = u, b_table = set_box p ?z (b_table b)\<rparr>)"
    "fs_caps u = b_caps b" "fs_abs u = (b_afs b)\<lparr>a_handles := (a_handles (b_afs b))(h \<mapsto> (k, length (concat ms)))\<rparr>"
    using publisher_start_eq [OF i(1-3) calm_env_calm req p z(1,4,2,3) free] by blast
  let ?b1 = "\<lparr>b_fs = u, b_table = set_box p ?z (b_table b)\<rparr>"
  let ?y = "\<lparr>ss_box = p, ss_fd = int h, ss_pipe = [], ss_point = Pub_Read (replicate PUBLISHER_BUFFER_SIZE 0), ss_sent = []\<rparr>"
  obtain s1 where s1: "s1 = (started b)\<lparr>l_broker := ?b1, l_sessions := (l_sessions (started b))(0 \<mapsto> ?y)\<rparr>" by blast
  have r1: "live_reachable calm_env (started b) s1"
    unfolding s1 by (rule publisher_starts [where request = "demo_request 1"]) (use u(1) in \<open>simp_all add: started_def held_def\<close>)
  have inv1: "live_inv (file_messages b) s1" by (rule live_reachable_inv [OF r1 started_inv [OF b(1)] calm_env_calm])
  have ok1: "boxes_ok ?b1" using live_invD(1) [OF inv1] by (simp add: s1)
  have look: "box_lookup [97] (b_table ?b1) = Some p" using set_box_inv(2) [OF i(2) z(1), of ?z] p by simp
  have at1: "heap (b_table ?b1) p = Some ?z" "a_names (b_afs ?b1) [97] = Some k" using z(2) u(3) by simp_all
  have free1: "\<exists>j<c_files (b_caps ?b1). a_handles (b_afs ?b1) j = None"
    using none caps u(2,3) by (intro exI [of _ "if h = 0 then 1 else 0"]) simp
  obtain j v where v: "subscriber_start calm_env (demo_request 2) ?b1
      = Inr (Some ([99], p, int j), \<lparr>b_fs = v, b_table = set_box p ?z2 (b_table ?b1)\<rparr>)"
    using subscriber_start_eq [OF boxes_okD(1-3) [OF ok1] calm_env_calm carriesD(3,4) [OF demo_request_carries [of 2]] look at1 free1]
    by blast
  let ?x = "\<lparr>ss_box = p, ss_fd = int j, ss_pipe = [99], ss_point = Sub_Read ((replicate SUBSCRIBER_BUFFER_SIZE 0)[0 := 10]), ss_sent = []\<rparr>"
  obtain s2 where s2: "s2 = s1\<lparr>l_broker := \<lparr>b_fs = v, b_table = set_box p ?z2 (b_table ?b1)\<rparr>, l_sessions := (l_sessions s1)(1 \<mapsto> ?x)\<rparr>" by blast
  have r2: "live_reachable calm_env s1 s2"
    unfolding s2
    by (rule subscriber_starts [where request = "demo_request 2"]) (use v in \<open>simp_all add: s1 started_def held_def split: if_splits\<close>)
  have inv2: "live_inv (file_messages b) s2" by (rule live_reachable_inv [OF r2 inv1 calm_env_calm])
  have x: "l_sessions s2 1 = Some ?x" "l_sessions s2 0 = Some ?y" "l_stored s2 = (\<lambda>_. [])" by (simp_all add: s2 s1 started_def)
  have "kept (file_messages b) s2 p = []"
    using file_messages_data [OF i(2) p z(2,3,5)] z(6) by (simp add: kept_def x(3))
  then obtain b3 where b3: "sub_try calm_env 0 (ss_box ?x) (ss_fd ?x) ((replicate SUBSCRIBER_BUFFER_SIZE 0)[0 := 10]) (l_broker s2)
      = Inr (Sub_Wait ((replicate SUBSCRIBER_BUFFER_SIZE 0)[0 := 10]), b3)"
    using sub_tries_live [OF inv2 calm_env_calm x(1), of _ 0] by auto
  have free2: "\<not> held p s2" by (auto simp: held_def s2 s1 started_def split: if_splits)
  obtain s3 where s3: "s3 = goes 1 ?x (Sub_Wait ((replicate SUBSCRIBER_BUFFER_SIZE 0)[0 := 10])) b3 s2" by blast
  have st3: "live_step calm_env s2 s3"
    unfolding s3 by (rule live_step.sub_tries [OF x(1) _ _ b3]) (use free2 in simp_all)
  have r: "live_reachable calm_env (started b) s3"
    using r1 r2 st3 unfolding live_reachable_def by (meson rtranclp_trans rtranclp.rtrancl_into_rtrancl)
  have inv3: "live_inv (file_messages b) s3" by (rule live_reachable_inv [OF r started_inv [OF b(1)] calm_env_calm])
  have x3: "l_sessions s3 1 = Some (?x\<lparr>ss_point := Sub_Wait ((replicate SUBSCRIBER_BUFFER_SIZE 0)[0 := 10])\<rparr>)" "l_sessions s3 0 = Some ?y"
    "l_stored s3 = (\<lambda>_. [])"
    using x by (simp_all add: s3 goes_def)
  obtain q where "box_file (l_broker s3) p q" using session_okD(9) [OF live_invD(4) [OF inv3 x3(2)]] by auto
  then have "file_messages (l_broker s3) p = []"
    using live_file [OF inv3] file_messages_data [OF i(2) p z(2,3,5)] z(6) by (simp add: kept_def x3(3))
  then show ?thesis using b(1) r x3(1,2) by (intro exI [of _ b] exI [of _ s3] exI) (rule conjI, assumption, rule conjI, assumption, auto)
qed

end
