(* ===== verification/Interleaving.thy ===== *)
theory Interleaving
  imports Live_Demo
begin

text \<open>
  What holds of sessions in every order of their steps, and what goes wrong in one: delivery
  without faults, a subscriber that catches up, the wake-up that is lost, and the box that is
  removed under a subscriber.
\<close>

declare fs_abs_simps [simp del] and fs_caps_simps [simp del]

section \<open>Delivery\<close>

text \<open>
  C2. Delivery under every interleaving. From a broker without sessions, however publishers
  and subscribers join and however their steps interleave, and whatever bytes the publishers
  send: the file of a session's box holds the messages it had at first and those that
  publishers have stored since, as many as fit, in the order of storing; and what a
  subscriber has been sent is a prefix of them, each once, in order, with the type 10.
\<close>

theorem interleaved_delivery:
  assumes "service_inv b" and "calm e" and "live_reachable e (started b) s" and x: "l_sessions s t = Some x"
  shows "file_messages (l_broker s) (ss_box x) = take message_limit (file_messages b (ss_box x) @ l_stored s (ss_box x))
    \<and> ss_sent x = map ((#) 10) (take (length (ss_sent x)) (file_messages (l_broker s) (ss_box x)))"
proof -
  have inv: "live_inv (file_messages b) s" by (rule live_reachable_inv [OF assms(3) started_inv [OF assms(1)] assms(2)])
  note ok = session_okD [OF live_invD(4) [OF inv x]]
  obtain i where "box_file (l_broker s) (ss_box x) i" using ok(9) by blast
  from live_file [OF inv this] ok(1) show ?thesis by (simp only: kept_def simp_thms)
qed

text \<open>
  C5. No section faults. In every state that interleaved sessions reach, the next section of
  every session runs to its end: no assertion fails, nothing is read or written out of
  bounds and no freed memory is used, whatever the client sends or however it goes away.
\<close>

theorem no_section_faults:
  assumes "service_inv b" and e: "calm e" and "live_reachable e (started b) s" and x: "l_sessions s t = Some x"
  shows "\<exists>y b'. next_section e c r w x (l_broker s) = Inr (y, b')"
proof -
  have inv: "live_inv (file_messages b) s" by (rule live_reachable_inv [OF assms(3) started_inv [OF assms(1)] e])
  note opens = pub_opens_live [OF inv e x] sub_opens_live [OF inv e x] and closes = live_closes [OF inv e x, of _ c]
    and reads = pub_reads_live [OF inv e x, of _ c r] and counts = pub_counts_live [OF inv e x, of _ _ c]
    and tries = sub_tries_live [OF inv e x, of _ c] and sends = sub_sends_live [OF inv e x, of _ c w]
  show ?thesis
  proof (cases "ss_point x")
    case (Pub_Open request)
    then show ?thesis using opens(1) [of request] unfolding next_section_def by auto
  next
    case (Sub_Open request)
    then show ?thesis using opens(2) [of request] unfolding next_section_def by auto
  next
    case Closing
    then show ?thesis using closes unfolding next_section_def by auto
  next
    case Pub_Read
    then show ?thesis using reads unfolding next_section_def by auto
  next
    case Pub_Count
    then show ?thesis using counts unfolding next_section_def by auto
  next
    case Sub_Read
    then show ?thesis using tries unfolding next_section_def by (simp split del: if_split) blast
  next
    case Sub_Send
    then show ?thesis using sends unfolding next_section_def by (simp split del: if_split) blast
  qed (simp_all add: next_section_def)
qed

section \<open>Catching up\<close>

lemma kept_same: "l_stored s' = l_stored s \<Longrightarrow> kept before s' p = kept before s p"
  by (simp only: kept_def)

lemma catches_up:
  assumes e: "calm e"
  shows "live_inv before s \<Longrightarrow> l_sessions s t = Some x \<Longrightarrow> ss_point x = Sub_Read response \<Longrightarrow> \<not> held (ss_box x) s \<Longrightarrow>
    length (kept before s (ss_box x)) - length (ss_sent x) = n \<Longrightarrow>
    \<exists>s' x' r. live_reachable e s s' \<and> l_sessions s' t = Some x' \<and> ss_point x' = Sub_Wait r
      \<and> ss_sent x' = map ((#) 10) (kept before s (ss_box x)) \<and> (\<forall>u. u \<noteq> t \<longrightarrow> l_sessions s' u = l_sessions s u)"
proof (induction n arbitrary: s x response)
  case 0
  let ?ms = "kept before s (ss_box x)"
  note ok = session_okD [OF live_invD(4) [OF 0(1,2)]]
  have "length (ss_sent x) \<le> length ?ms" using ok(1) by (metis length_map length_take min.cobounded1)
  then have all: "length (ss_sent x) = length ?ms" using 0(5) by simp
  then obtain b where b: "sub_try e 0 (ss_box x) (ss_fd x) response (l_broker s) = Inr (Sub_Wait response, b)"
    using sub_tries_live [OF 0(1) e 0(2,3), of 0] by auto
  have "live_step e s (goes t x (Sub_Wait response) b s)" by (rule live_step.sub_tries [OF 0(2-4) b])
  moreover have "ss_sent x = map ((#) 10) ?ms" using ok(1) all by simp
  ultimately show ?case
    by (intro exI [of _ "goes t x (Sub_Wait response) b s"] exI [of _ "x\<lparr>ss_point := Sub_Wait response\<rparr>"] exI [of _ response])
      (simp add: live_reachable_def goes_def)
next
  case (Suc n)
  let ?p = "ss_box x"
  let ?ms = "kept before s ?p" and ?m = "10 # kept before s ?p ! length (ss_sent x)"
  have "length (ss_sent x) \<noteq> length ?ms" using Suc.prems(5) by simp
  then obtain b where b: "sub_try e 0 ?p (ss_fd x) response (l_broker s) = Inr (Sub_Send ?m, b)"
    "live_inv before (goes t x (Sub_Send ?m) b s)"
    using sub_tries_live [OF Suc.prems(1) e Suc.prems(2,3), of 0] Suc.prems(4) by auto
  let ?s1 = "goes t x (Sub_Send ?m) b s" and ?x1 = "x\<lparr>ss_point := Sub_Send ?m\<rparr>"
  have st1: "live_step e s ?s1" by (rule live_step.sub_tries [OF Suc.prems(2-4) b(1)])
  have x1: "l_sessions ?s1 t = Some ?x1" "ss_point ?x1 = Sub_Send ?m" by (simp_all add: goes_def)
  obtain y b' where y: "sub_send e 0 (ss_box ?x1) (1025, False) ?m (l_broker ?s1) = Inr (Sub_Read y, b')"
    "live_inv before (goes t (?x1\<lparr>ss_sent := ss_sent ?x1 @ [?m]\<rparr>) (Sub_Read y) b' ?s1)"
    using sub_sends_live [OF b(2) e x1, of 0 "(1025, False)"] by auto
  let ?x2 = "?x1\<lparr>ss_sent := ss_sent ?x1 @ [?m], ss_point := Sub_Read y\<rparr>"
  let ?s2 = "goes t (?x1\<lparr>ss_sent := ss_sent ?x1 @ [?m]\<rparr>) (Sub_Read y) b' ?s1"
  have st2: "live_step e ?s1 ?s2" using live_step.sub_sends [OF x1, of "(1025, False)" e 0] y(1) by simp
  have s2: "l_sessions ?s2 t = Some ?x2" "\<And>u. u \<noteq> t \<Longrightarrow> l_sessions ?s2 u = l_sessions s u" "l_stored ?s2 = l_stored s"
    by (simp_all add: goes_def)
  have k: "kept before ?s2 q = kept before s q" for q by (rule kept_same [OF s2(3)])
  have free: "\<not> held (ss_box ?x2) ?s2" using Suc.prems(4) s2(2) by (auto simp: held_def goes_def)
  have x2: "ss_point ?x2 = Sub_Read y" "ss_box ?x2 = ?p" by simp_all
  have left: "length (kept before ?s2 (ss_box ?x2)) - length (ss_sent ?x2) = n" using Suc.prems(5) unfolding k x2(2) by simp
  obtain s' x' r where s': "live_reachable e ?s2 s'" "l_sessions s' t = Some x'"
    "ss_point x' = Sub_Wait r" "ss_sent x' = map ((#) 10) ?ms" "\<forall>u. u \<noteq> t \<longrightarrow> l_sessions s' u = l_sessions ?s2 u"
    using Suc.IH [OF y(2) s2(1) x2(1) free left] unfolding k x2(2) by blast
  have "live_reachable e s s'"
    using s'(1) st1 st2 unfolding live_reachable_def by (meson converse_rtranclp_into_rtranclp)
  moreover have "\<forall>u. u \<noteq> t \<longrightarrow> l_sessions s' u = l_sessions s u" using s'(5) s2(2) by metis
  ultimately show ?case using s'(2-4) by blast
qed

text \<open>
  C7. A subscriber catches up. In every reachable state, a subscriber about to read, whose
  box's mutex nobody holds, needs only its own steps, while its client reads, to be sent
  every message the file holds; then it waits. Nobody else is disturbed.
\<close>

theorem subscriber_catches_up:
  assumes "service_inv b" and e: "calm e" and "live_reachable e (started b) s" and x: "l_sessions s t = Some x"
    and "ss_point x = Sub_Read response" and "\<not> held (ss_box x) s"
  shows "\<exists>s' x' r. live_reachable e s s' \<and> l_sessions s' t = Some x' \<and> ss_point x' = Sub_Wait r
      \<and> ss_sent x' = map ((#) 10) (file_messages (l_broker s) (ss_box x)) \<and> (\<forall>u. u \<noteq> t \<longrightarrow> l_sessions s' u = l_sessions s u)"
proof -
  have inv: "live_inv (file_messages b) s" by (rule live_reachable_inv [OF assms(3) started_inv [OF assms(1)] e])
  obtain i where "box_file (l_broker s) (ss_box x) i" using session_okD(9) [OF live_invD(4) [OF inv x]] by blast
  note live_file [OF inv this]
  then show ?thesis using catches_up [OF e inv x assms(5,6) refl] by simp
qed

section \<open>The wake-up that is lost\<close>

text \<open>A whole message of 1024 bytes arrives at a publisher's session.\<close>

lemma message_arrives:
  assumes inv: "live_inv before s" and e: "calm e" and x: "l_sessions s u = Some x" "ss_point x = Pub_Read buffer" and m: "length m = 1024"
  shows "\<exists>n b. pub_receive e 0 (ss_box x) (ss_fd x) (Some (9 # m)) buffer (l_broker s) = Inr (Pub_Broadcast (int n) (9 # m), b)"
proof -
  have p: "is_pub x" "length buffer = 1025" using session_okD(2) [OF live_invD(4) [OF inv x(1)]] x(2) by simp_all
  have "\<exists>n u. tfs_write mutex_ok (ss_fd x) m 1024 (b_fs (l_broker s)) = Inr (int n, u)"
    using live_stores [OF inv x(1) p(1) m, of "\<lambda>_. Pub_Read buffer" buffer] p(2) by auto
  moreover have "patch 0 (9 # m) buffer = 9 # m" using p(2) m by (intro patch_whole) simp
  ultimately show ?thesis using m calmD [OF e] by (auto simp: pub_receive_def Let_def)
qed

lemma wakeup_missed:
  assumes "service_inv b" and e: "calm e" and reach: "live_reachable e (started b) s"
    and x: "l_sessions s t = Some x" "ss_point x = Sub_Wait response"
    and y: "l_sessions s u = Some y" "ss_point y = Pub_Read buffer" "ss_box y = ss_box x"
    and m: "length m = 1024" "length (file_messages (l_broker s) (ss_box x)) < message_limit"
  shows "\<exists>s' buffer'. live_reachable e s s' \<and> l_sessions s' t = Some (x\<lparr>ss_point := Sub_Asleep response\<rparr>)
    \<and> l_sessions s' u = Some (y\<lparr>ss_point := Pub_Read buffer'\<rparr>)
    \<and> file_messages (l_broker s') (ss_box x) = file_messages (l_broker s) (ss_box x) @ [m]
    \<and> length (ss_sent x) < length (file_messages (l_broker s') (ss_box x)) \<and> \<not> held (ss_box x) s'"
proof -
  let ?p = "ss_box x"
  let ?before = "file_messages b" and ?old = "file_messages (l_broker s) (ss_box x)"
  have inv: "live_inv ?before s" by (rule live_reachable_inv [OF reach started_inv [OF assms(1)] e])
  have ut: "u \<noteq> t" using x y by auto
  obtain n b1 where b1: "pub_receive e 0 (ss_box y) (ss_fd y) (Some (9 # m)) buffer (l_broker s) = Inr (Pub_Broadcast (int n) (9 # m), b1)"
    using message_arrives [OF inv e y(1,2) m(1)] by blast
  let ?y1 = "y\<lparr>ss_point := Pub_Broadcast (int n) (9 # m)\<rparr>"
  obtain s1 where s1_def: "s1 = recorded ?p (Pub_Broadcast (int n) (9 # m)) (goes u y (Pub_Broadcast (int n) (9 # m)) b1 s)" by blast
  have st1: "live_step e s s1" using live_step.pub_reads [OF y(1,2) _ b1] y(3) unfolding s1_def by simp
  have s1: "l_sessions s1 = (l_sessions s)(u \<mapsto> ?y1)" "l_stored s1 = (l_stored s)(?p := l_stored s ?p @ [m])"
    by (simp_all add: s1_def recorded_def goes_def)
  let ?y2 = "y\<lparr>ss_point := Pub_Count (int n) (9 # m)\<rparr>"
  obtain s2' where s2': "s2' = goes u ?y1 (Pub_Count (int n) (9 # m)) (l_broker s1) s1" by blast
  obtain s2 where s2_def: "s2 = s2'\<lparr>l_sessions := (\<lambda>v. map_option (woken ?p) (l_sessions s2' v))\<rparr>" by blast
  have st2: "live_step e s1 s2" using live_step.pub_wakes [of s1 u ?y1 "int n" "9 # m" s2' e] y(3) unfolding s2_def by (simp add: s1 s2')
  have w: "woken ?p x = x" "woken ?p ?y2 = ?y2" using x(2) by simp_all
  have s2: "l_sessions s2 u = Some ?y2" "l_sessions s2 t = Some x" "l_stored s2 = l_stored s1"
    "\<And>v. v \<noteq> u \<Longrightarrow> l_sessions s2 v = map_option (woken ?p) (l_sessions s v)"
    using s1(1) x(1) ut w by (simp_all add: s2_def s2' goes_def del: woken.simps)
  let ?x3 = "x\<lparr>ss_point := Sub_Asleep response\<rparr>"
  obtain s3 where s3_def: "s3 = goes t x (Sub_Asleep response) (l_broker s2) s2" by blast
  have st3: "live_step e s2 s3" unfolding s3_def by (rule live_step.sub_sleeps [OF s2(2) x(2)])
  have s3: "l_sessions s3 t = Some ?x3" "l_sessions s3 u = Some ?y2" "l_stored s3 = l_stored s2"
    "\<And>v. v \<noteq> t \<Longrightarrow> l_sessions s3 v = l_sessions s2 v"
    using s2 ut by (simp_all add: s3_def goes_def)
  have r3: "live_reachable e s s3" using st1 st2 st3 unfolding live_reachable_def by (meson r_into_rtranclp rtranclp.rtrancl_into_rtrancl)
  have inv3: "live_inv ?before s3" by (rule live_reachable_inv [OF r3 inv e])
  have free: "\<not> held (ss_box ?y2) s3"
  proof
    assume "held (ss_box ?y2) s3"
    then obtain v z r where z: "l_sessions s3 v = Some z" "ss_box z = ?p" "ss_point z = Sub_Wait r"
      using y(3) by (auto simp: held_def)
    then have v: "v \<noteq> t" "v \<noteq> u" using s3 by auto
    then obtain z' where z': "l_sessions s v = Some z'" "z = woken ?p z'"
      using z(1) s3(4) s2(4) [of v] by auto
    then have "z' = z" using z(2,3) by (auto split: point.splits if_splits)
    then have "apart x z" using live_invD(5) [OF inv v(1) [symmetric] x(1)] z'(1) by simp
    then show False using x(2) z(2,3) by (simp add: apart_def)
  qed
  obtain z b4 where b4: "pub_count e 0 (ss_box ?y2) (int n) (9 # m) (l_broker s3) = Inr (z, b4)"
    using pub_counts_live [OF inv3 e s3(2), of "int n" "9 # m" 0] by auto
  have z: "z = Pub_Read (patch 1 (replicate MESSAGE_LEN 0) (9 # m))"
    using b4 by (auto simp: pub_count_def bindE_Inr_iff Let_def split: if_splits)
  obtain s4 where s4_def: "s4 = goes u ?y2 z b4 s3" by blast
  have st4: "live_step e s3 s4" unfolding s4_def by (rule live_step.pub_counts [OF s3(2) _ free b4]) simp
  have r4: "live_reachable e s s4" using r3 st4 unfolding live_reachable_def by (rule rtranclp.rtrancl_into_rtrancl)
  have inv4: "live_inv ?before s4" by (rule live_reachable_inv [OF r4 inv e])
  have s4: "l_sessions s4 t = Some ?x3" "l_sessions s4 u = Some (y\<lparr>ss_point := z\<rparr>)" "l_stored s4 = (l_stored s)(?p := l_stored s ?p @ [m])"
    using s3 s2(3) s1(2) ut by (simp_all add: s4_def goes_def)
  note ok = session_okD [OF live_invD(4) [OF inv x(1)]] and ok4 = session_okD [OF live_invD(4) [OF inv4 s4(1)]]
  obtain i j where "box_file (l_broker s) ?p i" "box_file (l_broker s4) ?p j" using ok(9) ok4(9) by auto
  then have k: "?old = kept ?before s ?p" "file_messages (l_broker s4) ?p = kept ?before s4 ?p"
    using live_file [OF inv] live_file [OF inv4] by blast+
  have short: "length (?before ?p @ l_stored s ?p) < message_limit" using m(2) unfolding k(1) kept_def by simp
  have "file_messages (l_broker s4) ?p = ?old @ [m]"
    using short unfolding k kept_def s4(3) by simp
  moreover have "length (ss_sent x) \<le> length ?old"
    using ok(1) unfolding k(1) by (metis length_map length_take min.cobounded1)
  moreover have "\<not> held ?p s4" using free s3(2) y(3) z by (auto simp: held_def s4_def goes_def)
  ultimately show ?thesis using r4 s4(1,2) z by auto
qed

text \<open>
  C31. A wake-up is lost. The publisher broadcasts without holding the mutex of the box, so a
  subscriber that has found nothing to read and has not yet gone to sleep misses it: from
  every reachable state with such a subscriber and a publisher waiting for its client, a
  message of the client leads to a state in which the message is in the file, the publisher
  waits for its client again, and the subscriber sleeps without having been sent the message.
\<close>

theorem wakeup_lost:
  assumes "service_inv b" and "calm e" and "live_reachable e (started b) s"
    and "l_sessions s t = Some x" "ss_point x = Sub_Wait response"
    and "l_sessions s u = Some y" "ss_point y = Pub_Read buffer" "ss_box y = ss_box x"
    and "length m = 1024" "length (file_messages (l_broker s) (ss_box x)) < message_limit"
  shows "\<exists>s' buffer'. live_reachable e s s' \<and> l_sessions s' t = Some (x\<lparr>ss_point := Sub_Asleep response\<rparr>)
    \<and> l_sessions s' u = Some (y\<lparr>ss_point := Pub_Read buffer'\<rparr>)
    \<and> file_messages (l_broker s') (ss_box x) = file_messages (l_broker s) (ss_box x) @ [m]
    \<and> length (ss_sent x) < length (file_messages (l_broker s') (ss_box x)) \<and> \<not> held (ss_box x) s'"
  by (rule wakeup_missed [OF assms])

section \<open>A box removed under a subscriber\<close>

lemma unlink_runs:
  assumes inv: "fs_inv s" and i: "a_names (fs_abs s) name = Some i" and name: "name \<noteq> []" "is_cstring (47 # name)"
  shows "\<exists>u. tfs_unlink mutex_ok (Some (47 # name)) s = Inr (0, u)"
proof -
  have nc: "is_cstring name" using name(2) by (simp add: is_cstring_def)
  have f: "dir_find (root_dir s) name \<noteq> -1" using i by (simp add: fs_abs_simps dir_names_def split: if_splits)
  obtain k where k: "dir_index (\<lambda>e. fst e = name) (root_dir s) = Some k"
    using unlink_entry [OF fs_invD(5) [OF inv] name(1) f] by blast
  have "tfs_unlink_body (Some (47 # name)) s = Inr (0, delete_file (nat (dir_find (root_dir s) name)) k s)"
    unfolding tfs_unlink_body_eq [OF inv name(1) nc] using f k by (simp add: unlink_result_def)
  then show ?thesis by (simp add: tfs_unlink_def with_library_mutex_def)
qed

lemma no_waiting:
  assumes "service_inv b" and "s_waiting (service_abs b) < session_limit"
  shows "\<exists>h<c_files (b_caps b). a_handles (b_afs b) h = None"
  using free_handle [OF assms(1)] assms(2) by (simp add: service_abs_def)

text \<open>
  C32. A box is removed under a subscriber. The broker checks that a box is idle, lets go of
  its mutex and then removes it. A subscriber that joins in between is accepted, the manager
  is told that the box is gone, and the subscriber's next step uses the freed box.
\<close>

theorem removed_under_subscriber:
  assumes inv: "service_inv b" and e: "calm e" and rm: "carries remove 5 pipe name" and sub: "carries request 2 tx name"
    and idle: "s_boxes (service_abs b) name = Some \<lparr>mb_messages = ms, mb_subs = 0\<rparr>" and free: "s_waiting (service_abs b) < session_limit"
  shows "\<exists>p fd b1 b2. remove_check e remove b = Inr None \<and> subscriber_start e request b = Inr (Some (tx, p, fd), b1)
    \<and> remove_finish e remove b1 = Inr (0, [(pipe, manager_response 6 0 '''')], b2)
    \<and> (\<forall>c response. sub_try e c p fd response b2 = Inl Undefined)"
proof -
  note i = broker_invD [OF service_invD(1) [OF inv]]
  have "box_lookup name (b_table b) \<noteq> None" using service_none [of b name] idle by auto
  then obtain p where p: "box_lookup name (b_table b) = Some p" by blast
  obtain z k where z: "heap (b_table b) p = Some z" "a_names (b_afs b) name = Some k" "pub_num z = 0" "sub_num z = 0"
    using service_box [OF inv p] idle by (auto simp: unat_eq_0)
  have name: "name \<noteq> []" "is_cstring (47 # name)" "length name < 32"
    using i(3) p unfolding names_ok_lookup [OF i(2)] by (auto simp: is_cstring_def)
  let ?z = "z\<lparr>sub_num := sub_num z + 1\<rparr>"
  obtain h s where s: "subscriber_start e request b = Inr (Some (tx, p, int h), \<lparr>b_fs = s, b_table = set_box p ?z (b_table b)\<rparr>)"
    "fs_inv s" "fs_abs s = (b_afs b)\<lparr>a_handles := (a_handles (b_afs b))(h \<mapsto> (k, 0))\<rparr>"
    using subscriber_start_eq [OF i(1-3) e carriesD(3,4) [OF sub] p z(1,2) no_waiting [OF inv free]] by blast
  note t = set_box_inv [OF i(2) z(1), of ?z]
  obtain u where u: "tfs_unlink mutex_ok (Some (47 # name)) s = Inr (0, u)"
    using unlink_runs [OF s(2) _ name(1,2), of k] z(2) s(3) by auto
  obtain t' where t': "box_remove mutex_ok name (set_box p ?z (b_table b)) = Inr (0, t')"
    "heap t' = (heap (set_box p ?z (b_table b)))(p := None)"
    using box_remove_eq(2) [OF t(1), of name p] t(2) p by auto
  have "remove_check e remove b = Inr None"
    using carriesD(3,4) [OF rm] calmD [OF e] box_find_eq [OF i(2)] p z name(3)
    by (simp add: remove_check_def box_path_def deref_def)
  moreover have "remove_finish e remove \<lparr>b_fs = s, b_table = set_box p ?z (b_table b)\<rparr>
      = Inr (0, [(pipe, manager_response 6 0 '''')], \<lparr>b_fs = u, b_table = t'\<rparr>)"
    using carriesD(3,4) [OF rm] calmD [OF e] u t'(1) name(3) by (simp add: remove_finish_def box_path_def Let_def)
  moreover have "sub_try e c p (int h) response \<lparr>b_fs = u, b_table = t'\<rparr> = Inl Undefined" for c response
    using t'(2) by (simp add: sub_try_def deref_def)
  ultimately show ?thesis using s(1) by blast
qed

section \<open>Witnesses\<close>

text \<open>The state of \<open>Live_Demo\<close> after a message whose wake-up is lost and a wake-up of the system's own.\<close>

lemma live_msg_length: "length live_msg = 1024"
  by (simp add: live_msg_def)

lemma demo_missed:
  "\<exists>b s x response. service_inv b \<and> live_reachable calm_env (started b) s \<and> l_sessions s 1 = Some x
    \<and> ss_point x = Sub_Read response \<and> \<not> held (ss_box x) s \<and> file_messages (l_broker s) (ss_box x) = [live_msg]"
proof -
  obtain b s x y response buffer where d: "service_inv b" "live_reachable calm_env (started b) s" "l_sessions s 1 = Some x"
    "ss_point x = Sub_Wait response" "l_sessions s 0 = Some y" "ss_point y = Pub_Read buffer" "ss_box y = ss_box x"
    "file_messages (l_broker s) (ss_box x) = []"
    using demo_waiting by blast
  have short: "length (file_messages (l_broker s) (ss_box x)) < message_limit" by (simp add: d(8))
  obtain s' where s': "live_reachable calm_env s s'" "l_sessions s' 1 = Some (x\<lparr>ss_point := Sub_Asleep response\<rparr>)"
    "file_messages (l_broker s') (ss_box x) = [live_msg]" "\<not> held (ss_box x) s'"
    using wakeup_missed [OF d(1) calm_env_calm d(2-7) live_msg_length short] d(8) by auto
  let ?x = "x\<lparr>ss_point := Sub_Asleep response\<rparr>"
  obtain s2 where s2: "s2 = goes 1 ?x (Sub_Read response) (l_broker s') s'" by blast
  have st: "live_step calm_env s' s2" unfolding s2 by (rule live_step.sub_wakes [OF s'(2)]) simp
  have r: "live_reachable calm_env (started b) s2"
    using d(2) s'(1) st unfolding live_reachable_def by (meson rtranclp.rtrancl_into_rtrancl rtranclp_trans)
  have "\<not> held (ss_box x) s2" using s'(4) by (auto simp: held_def s2 goes_def split: if_splits)
  then show ?thesis using d(1) r s'(3)
    by (intro exI [of _ b] exI [of _ s2] exI [of _ "x\<lparr>ss_point := Sub_Read response\<rparr>"] exI [of _ response]) (simp add: s2 goes_def)
qed

theorem subscriber_catches_up_witness:
  "\<exists>b s s' x'. service_inv b \<and> live_reachable calm_env (started b) s \<and> live_reachable calm_env s s' \<and> l_sessions s' 1 = Some x'
    \<and> ss_sent x' = [10 # live_msg]"
proof -
  obtain b s x response where d: "service_inv b" "live_reachable calm_env (started b) s" "l_sessions s 1 = Some x"
    "ss_point x = Sub_Read response" "\<not> held (ss_box x) s" "file_messages (l_broker s) (ss_box x) = [live_msg]"
    using demo_missed by blast
  from subscriber_catches_up [OF d(1) calm_env_calm d(2-5)] obtain s' x' where "live_reachable calm_env s s'"
    "l_sessions s' 1 = Some x'" "ss_sent x' = [10 # live_msg]"
    using d(6) by auto
  then show ?thesis using d(1,2) by blast
qed

lemma demo_delivered:
  "\<exists>b s x. service_inv b \<and> live_reachable calm_env (started b) s \<and> l_sessions s 1 = Some x \<and> ss_sent x = [10 # live_msg]"
proof -
  obtain b s x response where d: "service_inv b" "live_reachable calm_env (started b) s" "l_sessions s 1 = Some x"
    "ss_point x = Sub_Read response" "\<not> held (ss_box x) s" "file_messages (l_broker s) (ss_box x) = [live_msg]"
    using demo_missed by blast
  have inv: "live_inv (file_messages b) s" by (rule live_reachable_inv [OF d(2) started_inv [OF d(1)] calm_env_calm])
  obtain i where "box_file (l_broker s) (ss_box x) i" using session_okD(9) [OF live_invD(4) [OF inv d(3)]] by blast
  then have k: "kept (file_messages b) s (ss_box x) = [live_msg]" using live_file [OF inv] d(6) by simp
  obtain s' x' where "live_reachable calm_env s s'" "l_sessions s' 1 = Some x'" "ss_sent x' = [10 # live_msg]"
    using catches_up [OF calm_env_calm inv d(3-5) refl] unfolding k by auto
  then show ?thesis using d(1,2) unfolding live_reachable_def by (meson rtranclp_trans)
qed

theorem interleaved_delivery_witness:
  "\<exists>b s x. service_inv b \<and> live_reachable calm_env (started b) s \<and> l_sessions s 1 = Some x \<and> ss_sent x = [10 # live_msg]
    \<and> take 1 (file_messages (l_broker s) (ss_box x)) = [live_msg]"
proof -
  obtain b s x where d: "service_inv b" "live_reachable calm_env (started b) s" "l_sessions s 1 = Some x" "ss_sent x = [10 # live_msg]"
    using demo_delivered by blast
  from interleaved_delivery [OF d(1) calm_env_calm d(2,3)] have "[10 # live_msg] = map ((#) 10) (take 1 (file_messages (l_broker s) (ss_box x)))"
    unfolding d(4) by simp
  then have "take 1 (file_messages (l_broker s) (ss_box x)) = [live_msg]"
    by (cases "file_messages (l_broker s) (ss_box x)") simp_all
  then show ?thesis using d by blast
qed

theorem no_section_faults_witness:
  "\<exists>b s x y b'. service_inv b \<and> live_reachable calm_env (started b) s \<and> l_sessions s 1 = Some x \<and> ss_sent x = [10 # live_msg]
    \<and> next_section calm_env 0 None (-1, True) x (l_broker s) = Inr (y, b')"
proof -
  obtain b s x where d: "service_inv b" "live_reachable calm_env (started b) s" "l_sessions s 1 = Some x" "ss_sent x = [10 # live_msg]"
    using demo_delivered by blast
  from no_section_faults [OF d(1) calm_env_calm d(2,3), of 0 None "(-1, True)"] show ?thesis using d by blast
qed

theorem wakeup_lost_witness:
  "\<exists>b s x. service_inv b \<and> live_reachable calm_env (started b) s \<and> l_sessions s 1 = Some x \<and> ss_sent x = []
    \<and> (\<exists>response. ss_point x = Sub_Asleep response) \<and> file_messages (l_broker s) (ss_box x) = [live_msg]"
proof -
  obtain b s x y response buffer where d: "service_inv b" "live_reachable calm_env (started b) s" "l_sessions s 1 = Some x"
    "ss_point x = Sub_Wait response" "l_sessions s 0 = Some y" "ss_point y = Pub_Read buffer" "ss_box y = ss_box x"
    "ss_sent x = []" "file_messages (l_broker s) (ss_box x) = []"
    using demo_waiting by blast
  have short: "length (file_messages (l_broker s) (ss_box x)) < message_limit" by (simp add: d(9))
  obtain s' where s': "live_reachable calm_env s s'" "l_sessions s' 1 = Some (x\<lparr>ss_point := Sub_Asleep response\<rparr>)"
    "file_messages (l_broker s') (ss_box x) = [live_msg]"
    using wakeup_lost [OF d(1) calm_env_calm d(2-7) live_msg_length short] d(9) by auto
  have "live_reachable calm_env (started b) s'" using d(2) s'(1) unfolding live_reachable_def by (rule rtranclp_trans)
  then show ?thesis using d(1,8) s'(2,3)
    by (intro exI [of _ b] exI [of _ s'] exI [of _ "x\<lparr>ss_point := Sub_Asleep response\<rparr>"]) simp
qed

theorem removed_under_subscriber_witness:
  "\<exists>b p fd b1 b2. service_inv b \<and> remove_check calm_env (demo_request 5) b = Inr None
    \<and> subscriber_start calm_env (demo_request 2) b = Inr (Some ([99], p, fd), b1)
    \<and> remove_finish calm_env (demo_request 5) b1 = Inr (0, [([99], manager_response 6 0 '''')], b2)
    \<and> sub_try calm_env 1 p fd (replicate 1025 0) b2 = Inl Undefined"
proof -
  obtain b where b: "service_inv b" "service_abs b = no_service\<lparr>s_boxes := [[97] \<mapsto> \<lparr>mb_messages = [], mb_subs = 0\<rparr>]\<rparr>"
    using demo_box by blast
  then have "s_boxes (service_abs b) [97] = Some \<lparr>mb_messages = [], mb_subs = 0\<rparr>" "s_waiting (service_abs b) < session_limit"
    by (simp_all add: no_service_def)
  from removed_under_subscriber [OF b(1) calm_env_calm demo_request_carries demo_request_carries this] b(1) show ?thesis by blast
qed

end
