(* ===== verification/Typing.thy ===== *)
theory Typing
  imports Service
begin

text \<open>
  The types of the messages the broker writes: each request is answered on the pipe it names
  with messages of the type that belongs to it, and a message has the length that the client
  reads for its type. Nothing is assumed of the broker's state or of the system calls.
\<close>

section \<open>Types and lengths\<close>

text \<open>The sizes of the buffers of the clients, by the type in the first byte.\<close>

definition message_size :: "u8 \<Rightarrow> nat" where
  "message_size t = (if t = 10 then SUBSCRIBER_BUFFER_SIZE
     else if t = 4 \<or> t = 6 then MANAGER_RESPONSE_BUFFER_SIZE
     else if t = 8 \<or> t = 12 then MANAGER_LIST_RESPONSE_BUFFER_SIZE else 0)"

definition reply_type :: "u8 \<Rightarrow> u8" where
  "reply_type code = (if code = 2 then 10 else code + 1)"

definition typed :: "cstring \<Rightarrow> u8 \<Rightarrow> sent \<Rightarrow> bool" where
  "typed pipe t ws \<longleftrightarrow> (\<forall>(tx, m)\<in>set ws. tx = pipe \<and> m ! 0 = t \<and> length m = message_size t)"

lemma typed_simps [simp]:
  "typed pipe t []" "typed pipe t ((tx, m) # ws) \<longleftrightarrow> tx = pipe \<and> m ! 0 = t \<and> length m = message_size t \<and> typed pipe t ws"
  by (auto simp: typed_def)

lemma response_sizes [simp]:
  "length msg < 1024 \<Longrightarrow> length (manager_response t rc msg) = 1029" "length (empty_list_response t) = 58"
  "length (list_response flag x) = 58"
  by (simp_all add: manager_response_def empty_list_response_def list_response_def Let_def text_bytes_def)

lemma list_response_type [simp]: "list_response flag x ! 0 = 8"
  by (simp add: list_response_def Let_def patch_head)

section \<open>Subscribers\<close>

lemma tfs_read_length:
  assumes "tfs_read m fd n (buffer, s) = Inr (r, buffer', s')"
  shows "length buffer' = length buffer"
  using assms
  by (auto simp: tfs_read_def with_library_mutex_def tfs_read_body_def bindE_Inr_iff Let_def
      split: if_splits option.splits)

lemma subscriber_loop_typed:
  "subscriber_loop e c tx p fd response ws b = Inr (r, out, b') \<Longrightarrow> length response = 1025 \<Longrightarrow> response ! 0 = 10 \<Longrightarrow> typed tx 10 out"
proof (induction ws arbitrary: c response b r out b')
  case (Cons w ws)
  obtain wrote epipe where w: "w = (wrote, epipe)" by (cases w)
  obtain readd buffer s where rd: "tfs_read (e_tfs e c) fd 1024 (drop 1 response, b_fs b) = Inr (readd, buffer, s) \<or> out = []"
    using Cons.prems(1) by (auto simp: w bindE_Inr_iff split: if_splits)
  show ?case
  proof (cases "out = []")
    case False
    then have rd: "tfs_read (e_tfs e c) fd 1024 (drop 1 response, b_fs b) = Inr (readd, buffer, s)" using rd by simp
    let ?r = "take 1 response @ buffer"
    have l: "length ?r = 1025" using tfs_read_length [OF rd] Cons.prems(2) by simp
    have z: "?r ! 0 = 10" using Cons.prems(2,3) by (simp add: nth_append)
    have next': "length (patch 1 (replicate 1024 0) ?r) = 1025" "patch 1 (replicate 1024 0) ?r ! 0 = 10"
      using l z by (simp_all add: patch_head)
    note IH = Cons.IH [OF _ next']
    show ?thesis
      using Cons.prems(1) False rd IH l z by (auto simp: w bindE_Inr_iff Let_def message_size_def split: if_splits)
  qed simp
qed simp

lemma subscriber_typed:
  assumes "subscriber_register e request ws b = Inr (r, out, b')" and "string_at 1 request = Inr pipe"
  shows "typed pipe 10 out"
proof (cases "\<exists>tx p fd b1. subscriber_start e request b = Inr (Some (tx, p, fd), b1)")
  case True
  then obtain tx p fd b1 where s: "subscriber_start e request b = Inr (Some (tx, p, fd), b1)" by blast
  then have "tx = pipe" using assms(2) by (auto simp: subscriber_start_def Let_def bindE_Inr_iff split: if_splits option.splits)
  then show ?thesis
    using assms(1) s subscriber_loop_typed [of e 1 tx p fd "(replicate 1025 0)[0 := 10]" ws b1 r out b']
    by (simp add: subscriber_register_def)
next
  case False
  then have "out = []" using assms(1) by (auto simp: subscriber_register_def bindE_Inr_iff split: option.splits)
  then show ?thesis by simp
qed

section \<open>Managers\<close>

lemma list_loop_typed:
  "list_loop e tx i n flag k t = Inr (r, out) \<Longrightarrow> typed tx 8 out"
proof (induction e tx i n flag k t arbitrary: r out rule: list_loop.induct)
  case (1 e tx i n flag k t)
  show ?case
  proof (cases "i < n")
    case False
    then show ?thesis using 1(3) by (simp add: list_loop.simps [of e tx i])
  next
    case True
    obtain o' where o': "aget (boxes t) i = Inr o'" using 1(3) True by (auto simp: list_loop.simps [of e tx i] bindE_Inr_iff)
    show ?thesis
    proof (cases o')
      case None
      then show ?thesis using 1(3) True o' 1(1) [OF True o' None] by (simp add: list_loop.simps [of e tx i])
    next
      case (Some p)
      then show ?thesis using 1(3) True o' 1(2) [OF True o' Some refl]
        by (auto simp: list_loop.simps [of e tx i] bindE_Inr_iff Let_def message_size_def split: if_splits)
    qed
  qed
qed

text \<open>What holds of a result if there is one, computed backwards through a handler.\<close>

definition returns :: "'a res \<Rightarrow> ('a \<Rightarrow> bool) \<Rightarrow> bool" where
  "returns m Q \<longleftrightarrow> (\<forall>x. m = Inr x \<longrightarrow> Q x)"

lemma returns_simps [simp]:
  "returns (Inr x) Q \<longleftrightarrow> Q x" "returns (Inl fault) Q" "returns (bindE m' f) Q \<longleftrightarrow> returns m' (\<lambda>x. returns (f x) Q)"
  "returns (if c then m else n) Q \<longleftrightarrow> (if c then returns m Q else returns n Q)"
  "returns (case_option m g v) Q \<longleftrightarrow> (case v of None \<Rightarrow> returns m Q | Some x \<Rightarrow> returns (g x) Q)"
  "returns (case_prod h w) Q \<longleftrightarrow> (case w of (y, z) \<Rightarrow> returns (h y z) Q)"
  by (auto simp: returns_def bindE_Inr_iff split: option.split prod.split)

lemma returnsI: "(\<And>x. m = Inr x \<Longrightarrow> Q x) \<Longrightarrow> returns m Q"
  by (simp add: returns_def)

lemma returnsD: "returns m Q \<Longrightarrow> m = Inr x \<Longrightarrow> Q x"
  by (simp add: returns_def)

lemma managers_return_typed:
  assumes "string_at 1 request = Inr pipe"
  shows "returns (manager_create_box e request b) (\<lambda>(r, out, b'). typed pipe 4 out)"
    and "returns (manager_remove_box e request b) (\<lambda>(r, out, b'). typed pipe 6 out)"
    and "returns (manager_list_box e request b) (\<lambda>(r, out, b'). typed pipe 8 out)"
    and "returns (manager_list_subs e request b) (\<lambda>(r, out, b'). typed pipe 12 out)"
proof -
  note run = assms [unfolded One_nat_def] Let_def message_size_def response_types split_beta
  show "returns (manager_create_box e request b) (\<lambda>(r, out, b'). typed pipe 4 out)"
    unfolding manager_create_box_def by (simp add: run) (auto intro!: returnsI)
  show "returns (manager_remove_box e request b) (\<lambda>(r, out, b'). typed pipe 6 out)"
    unfolding manager_remove_box_def by (simp add: run) (auto intro!: returnsI split: option.split)
  show "returns (manager_list_box e request b) (\<lambda>(r, out, b'). typed pipe 8 out)"
    unfolding manager_list_box_def by (simp add: run) (auto intro!: returnsI list_loop_typed)
  show "returns (manager_list_subs e request b) (\<lambda>(r, out, b'). typed pipe 12 out)"
    unfolding manager_list_subs_def by (simp add: run)
qed

lemma managers_typed:
  assumes "string_at 1 request = Inr pipe"
  shows "manager_create_box e request b = Inr (r, out, b') \<Longrightarrow> typed pipe 4 out"
    and "manager_remove_box e request b = Inr (r, out, b') \<Longrightarrow> typed pipe 6 out"
    and "manager_list_box e request b = Inr (r, out, b') \<Longrightarrow> typed pipe 8 out"
    and "manager_list_subs e request b = Inr (r, out, b') \<Longrightarrow> typed pipe 12 out"
  using managers_return_typed [OF assms] returnsD by fastforce+

section \<open>Every request\<close>

text \<open>
  C12. Replies are well typed. Whatever the state of the broker, whatever the system calls and
  the clients do, every message a handler has written, until it returned or to where it waits,
  went to the pipe that the request names, has the type that answers the request's type and has exactly the size
  that the client expects of that type.
\<close>

theorem replies_typed:
  assumes "handle_request e reads writes buffer b = Inr (h, ws, b')" and "string_at 1 buffer = Inr pipe"
  shows "typed pipe (reply_type (buffer ! 0)) ws"
proof -
  note run = assms(1) [unfolded handle_request_def Let_def]
  consider "ws = []" | "buffer ! 0 = 2" "subscriber_register e buffer writes b = Inr (h, ws, b')"
    | r where "buffer ! 0 = 3" "manager_create_box e buffer b = Inr (r, ws, b')"
    | r where "buffer ! 0 = 5" "manager_remove_box e buffer b = Inr (r, ws, b')"
    | r where "buffer ! 0 = 7" "manager_list_box e buffer b = Inr (r, ws, b')"
    | r where "buffer ! 0 = 11" "manager_list_subs e buffer b = Inr (r, ws, b')"
    using run by (simp split: if_splits) (auto simp: bindE_Inr_iff)
  then show ?thesis
  proof cases
    case 2
    then show ?thesis using subscriber_typed [OF 2(2) assms(2)] by (simp add: reply_type_def)
  qed (use managers_typed [OF assms(2)] in \<open>simp_all add: reply_type_def\<close>)
qed

theorem replies_typed_witness:
  "\<exists>ws. handle_request calm_env [] [] (demo_request 7) demo_list = Inr (Over 0, ws, demo_list) \<and> ws \<noteq> [] \<and> typed [99] 8 ws"
proof -
  let ?t = "b_table demo_list"
  have t: "?t = demo_table" by (simp add: demo_list_def)
  have n: "num_elem ?t \<noteq> 0" by (simp add: t demo_table_def)
  obtain ws where ws: "manager_list_box calm_env (demo_request 7) demo_list = Inr (0, ws, demo_list)" "length ws = unat (num_elem ?t)"
    using list_box_sends [of demo_list, unfolded t, OF demo_table_inv calm_env_calm carriesD(3) [OF demo_request_carries]] n
      length_listed_all [OF demo_table_inv]
    by (auto simp: t)
  have run: "handle_request calm_env [] [] (demo_request 7) demo_list = Inr (Over 0, ws, demo_list)"
    using ws(1) carriesD(2) [OF demo_request_carries] by (simp add: handle_request_def)
  moreover have "ws \<noteq> []" using ws(2) n by (auto simp: unat_eq_0)
  ultimately show ?thesis
    using replies_typed [OF run carriesD(3) [OF demo_request_carries]] carriesD(2) [OF demo_request_carries]
    by (intro exI [of _ ws]) (simp add: reply_type_def)
qed

end
