(* ===== verification/Logging.thy ===== *)
theory Logging
  imports Prelude
begin

text \<open>
  The log (\<open>utils/logging.h\<close>, \<open>utils/logging.c\<close>): the level \<open>g_level\<close> and the lines on
  \<open>stderr\<close>. A macro is given the place of its use and the text its arguments format to.
\<close>

section \<open>Levels\<close>

datatype log_level_t = LOG_QUIET | LOG_NORMAL | LOG_VERBOSE

primrec level_value :: "log_level_t \<Rightarrow> nat" where
  "level_value LOG_QUIET = 0"
| "level_value LOG_NORMAL = 1"
| "level_value LOG_VERBOSE = 2"

lemma level_value_inj [simp]: "level_value k = level_value l \<longleftrightarrow> k = l"
  by (cases k; cases l) simp_all

instantiation log_level_t :: linorder
begin

definition less_eq_log_level_t :: "log_level_t \<Rightarrow> log_level_t \<Rightarrow> bool" where
  "less_eq_log_level_t k l \<longleftrightarrow> level_value k \<le> level_value l"

definition less_log_level_t :: "log_level_t \<Rightarrow> log_level_t \<Rightarrow> bool" where
  "less_log_level_t k l \<longleftrightarrow> level_value k < level_value l"

instance
  by intro_classes (auto simp: less_eq_log_level_t_def less_log_level_t_def simp flip: level_value_inj)

end

section \<open>The macros\<close>

record logging =
  g_level :: log_level_t
  err :: "string list"

text \<open>\<open>__FILE__\<close>, \<open>__LINE__\<close> and \<open>__func__\<close>.\<close>

record place =
  at_file :: string
  at_line :: nat
  at_func :: string

definition log_start :: logging where
  "log_start = \<lparr>g_level = LOG_QUIET, err = []\<rparr>"

definition set_log_level :: "log_level_t \<Rightarrow> logging \<Rightarrow> logging" where
  "set_log_level level s = s\<lparr>g_level := level\<rparr>"

text \<open>\<open>printf("%d")\<close> of a line number, and \<open>snprintf(buf, 2048, ...)\<close> of the text.\<close>

fun decimal :: "nat \<Rightarrow> string" where
  "decimal n = (if n < 10 then [char_of (48 + n)] else decimal (n div 10) @ [char_of (48 + n mod 10)])"

declare decimal.simps [simp del]

definition log_buffer :: "string \<Rightarrow> string" where
  "log_buffer text = take 2047 text"

definition log_line :: "string \<Rightarrow> place \<Rightarrow> string \<Rightarrow> string" where
  "log_line tag p text =
     tag @ at_file p @ '':'' @ decimal (at_line p) @ '' :: '' @ at_func p @ '' :: '' @ log_buffer text @ ''\<newline>''"

definition print_line :: "string \<Rightarrow> place \<Rightarrow> string \<Rightarrow> logging \<Rightarrow> logging" where
  "print_line tag p text s = s\<lparr>err := err s @ [log_line tag p text]\<rparr>"

definition INFO :: "place \<Rightarrow> string \<Rightarrow> logging \<Rightarrow> logging" where
  "INFO p text s = print_line ''[INFO]:  '' p text s"

definition WARN :: "place \<Rightarrow> string \<Rightarrow> logging \<Rightarrow> logging" where
  "WARN p text s =
     (if g_level s = LOG_NORMAL \<or> g_level s = LOG_VERBOSE then print_line ''[WARN]:  '' p text s else s)"

definition LOG :: "place \<Rightarrow> string \<Rightarrow> logging \<Rightarrow> logging" where
  "LOG p text s =
     (if g_level s = LOG_NORMAL \<or> g_level s = LOG_VERBOSE then print_line ''[LOG]:   '' p text s else s)"

definition DEBUG :: "place \<Rightarrow> string \<Rightarrow> logging \<Rightarrow> logging" where
  "DEBUG p text s = (if g_level s = LOG_VERBOSE then print_line ''[DEBUG]: '' p text s else s)"

text \<open>
  Two assertions: that of \<open>utils/\<close> ends the process by \<open>exit\<close>, that of \<open>fs/\<close>, with a \<open>PANIC\<close>
  of its own, by \<open>abort\<close>.
\<close>

definition PANIC :: "place \<Rightarrow> string \<Rightarrow> logging \<Rightarrow> unit res \<times> logging" where
  "PANIC p text s = (Inl Exit_failure, print_line ''[PANIC]: '' p text s)"

definition ALWAYS_ASSERT :: "bool \<Rightarrow> place \<Rightarrow> string \<Rightarrow> logging \<Rightarrow> unit res \<times> logging" where
  "ALWAYS_ASSERT cond p text s = (if \<not> cond then PANIC p text s else (Inr (), s))"

definition fs_PANIC :: "string \<Rightarrow> logging \<Rightarrow> unit res \<times> logging" where
  "fs_PANIC msg s = (Inl (Abort msg), s\<lparr>err := err s @ [''Aborting. Reason: '' @ msg @ ''\<newline>'']\<rparr>)"

definition fs_ALWAYS_ASSERT :: "bool \<Rightarrow> string \<Rightarrow> logging \<Rightarrow> unit res \<times> logging" where
  "fs_ALWAYS_ASSERT cond msg s = (let should_quit = \<not> cond in if should_quit then fs_PANIC msg s else (Inr (), s))"

text \<open>The assertions of \<open>Tfs_State\<close> and \<open>Tfs_Ops\<close> are these, without the line on \<open>stderr\<close>.\<close>

lemma fs_assert_outcome: "fst (fs_ALWAYS_ASSERT cond msg s) = always_assert cond msg (Inr ())"
  by (simp add: fs_ALWAYS_ASSERT_def fs_PANIC_def always_assert_def Let_def)

section \<open>What is printed\<close>

datatype log_macro = M_INFO | M_WARN | M_LOG | M_DEBUG

fun log_call :: "log_macro \<Rightarrow> place \<Rightarrow> string \<Rightarrow> logging \<Rightarrow> logging" where
  "log_call M_INFO = INFO"
| "log_call M_WARN = WARN"
| "log_call M_LOG = LOG"
| "log_call M_DEBUG = DEBUG"

fun log_tag :: "log_macro \<Rightarrow> string" where
  "log_tag M_INFO = ''[INFO]:  ''"
| "log_tag M_WARN = ''[WARN]:  ''"
| "log_tag M_LOG = ''[LOG]:   ''"
| "log_tag M_DEBUG = ''[DEBUG]: ''"

text \<open>The least level at which a macro prints.\<close>

fun threshold :: "log_macro \<Rightarrow> log_level_t" where
  "threshold M_INFO = LOG_QUIET"
| "threshold M_WARN = LOG_NORMAL"
| "threshold M_LOG = LOG_NORMAL"
| "threshold M_DEBUG = LOG_VERBOSE"

lemma log_call_eq: "log_call m p text s = (if threshold m \<le> g_level s then print_line (log_tag m) p text s else s)"
  by (cases m; cases "g_level s") (simp_all add: INFO_def WARN_def LOG_def DEBUG_def less_eq_log_level_t_def)

text \<open>
  The log. After \<open>set_log_level\<close>, what any sequence of uses of the macros adds to
  \<open>stderr\<close> is one line for each use whose threshold the level reaches, in order: \<open>INFO\<close> always,
  \<open>WARN\<close> and \<open>LOG\<close> from \<open>LOG_NORMAL\<close> on, \<open>DEBUG\<close> at \<open>LOG_VERBOSE\<close>; and the level stays.
\<close>

theorem log_filters:
  "fold (\<lambda>(m, p, text). log_call m p text) calls (set_log_level level s)
     = \<lparr>g_level = level, err = err s @ map (\<lambda>(m, p, text). log_line (log_tag m) p text)
          (filter (\<lambda>(m, p, text). threshold m \<le> level) calls)\<rparr>"
proof -
  have "fold (\<lambda>(m, p, text). log_call m p text) calls u
      = u\<lparr>err := err u @ map (\<lambda>(m, p, text). log_line (log_tag m) p text) (filter (\<lambda>(m, p, text). threshold m \<le> g_level u) calls)\<rparr>" for u
  proof (induction calls arbitrary: u)
    case (Cons c calls)
    then show ?case by (cases c) (simp add: log_call_eq print_line_def)
  qed simp
  from this [of "set_log_level level s"] show ?thesis by (cases s) (simp add: set_log_level_def)
qed

end
