(* ===== verification/Spec2Isabelle.thy ===== *)
theory Spec2Isabelle
  imports Tfs_Misuse Slots Interleaving Typing Logging
begin

text \<open>
  A message broker over a small in-memory file system, in C. \<open>mbroker\<close> keeps named boxes,
  each backed by one file of TecnicoFS (\<open>fs/\<close>). Clients write a request of fixed layout to
  the broker's register pipe: a \<open>manager\<close> creates, removes and lists boxes, a \<open>pub\<close> sends the
  lines of its input to one box, a \<open>sub\<close> prints the messages of one box. \<open>main\<close> of the broker
  reads requests into buffers and enqueues them (\<open>producer-consumer/\<close>); worker threads
  dequeue them and run one handler each.

  \<^bold>\<open>Conventions.\<close> A C statement yields a value or the way the process ends (\<open>'a res\<close> of
  \<open>Prelude\<close>: \<open>Abort\<close> for \<open>ALWAYS_ASSERT\<close> and \<open>PANIC\<close>, \<open>Exit_failure\<close> for \<open>exit\<close>,
  \<open>Undefined\<close> for what C leaves undefined, such as an access outside an array). Integers have
  their C widths and wrap. A pointer into a table is an index, a pointer to a box an address of
  an explicit heap, a pointer to characters the list of bytes it leads to. What \<open>malloc\<close>
  returns, with whatever garbage is in it, what system calls return and what the calls on
  mutexes return are arguments.

  \<^bold>\<open>The file system.\<close> \<open>Tfs_State\<close> models \<open>fs/config.h\<close>, \<open>fs/state.h\<close> and \<open>fs/state.c\<close> (the
  record \<open>fs\<close> has the five tables and the parameters; directory entries are 44 bytes of a data
  block); \<open>Tfs_Ops\<close> models \<open>fs/operations.c\<close>. \<open>Tfs_Dir\<close> and \<open>Tfs_Prims\<close> turn loops and
  primitives into equations, \<open>Tfs_Inv\<close> states the invariant \<open>fs_inv\<close>, \<open>Tfs_Keep\<close>,
  \<open>Tfs_Exec\<close>, \<open>Tfs_Init\<close> and \<open>Tfs_Safe\<close> run every operation and keep it. \<open>Tfs_Spec\<close> is the
  abstract file system \<open>afs\<close> (names to identities, identities to bytes, handles to positions),
  \<open>Tfs_Refine\<close> and \<open>Tfs_Run\<close> the refinement, for single operations and for sequences of them.
  Every operation but \<open>tfs_init\<close> and \<open>tfs_destroy\<close> holds one mutex from its first access to its
  last, so a sequence of operations is an interleaving of threads. The properties are in
  \<open>Tfs_Props\<close> (each operation implements the abstract one, and so does every sequence from
  \<open>tfs_init\<close> on), \<open>Tfs_Files\<close> (reading what was written, what a write leaves alone, when a
  file can be created) and \<open>Tfs_Misuse\<close> (what happens when a caller breaks the rules: from
  any state of the invariant, a handle on a file that is unlinked reads what is written to
  another file, a handle on a file that is truncated reads a block that is free).

  \<^bold>\<open>The queue.\<close> \<open>Pcq\<close> models \<open>producer-consumer.c\<close>, each call as its three critical sections;
  \<open>Pcq_Conc\<close> interleaves the sections of several threads, with sleeping and waking
  (\<open>inductive cstep\<close>), and keeps an invariant for one producer and one consumer;
  \<open>Pcq_Props\<close> shows the queue to be a bounded list, safe and live with one producer and one
  consumer, and has the run in which two consumers break it.

  \<^bold>\<open>The boxes.\<close> \<open>Boxes\<close> models \<open>mbroker/boxes.c\<close> on a heap of boxes, \<open>Boxes_Inv\<close> its
  invariant \<open>boxes_inv\<close>; \<open>Boxes_Props\<close> has the table as a map from names to boxes,
  \<open>Boxes_Counts\<close> the counts of publishers and subscribers.

  \<^bold>\<open>Messages and clients.\<close> \<open>Wire\<close> has the layouts (\<open>utils/ops.h\<close>, \<open>utils/ops.c\<close>, and the
  arrays the programs fill), \<open>Clients\<close> the programs \<open>publisher/pub.c\<close>, \<open>subscriber/sub.c\<close>
  and \<open>manager/manager.c\<close>; the name \<open>getResponse\<close> stands for two functions, here
  \<open>sub_getResponse\<close> and \<open>manager_getResponse\<close>. \<open>Clients_Props\<close> shows that requests arrive as
  they were meant, that lines become messages and that responses are read back.

  \<^bold>\<open>The broker.\<close> \<open>Broker\<close> models the handlers of \<open>mbroker/mbroker.c\<close> on the record \<open>broker\<close>
  (the file system and the table of boxes), \<open>Broker_Main\<close> its start, one turn of the loop of
  \<open>main\<close> (\<open>receive_one\<close>), one of a worker's (\<open>work_one\<close>) and \<open>close_server\<close>. A handler that
  serves a session takes the results of its reads or writes as a list. What it returns is of
  type \<open>handler\<close>: \<open>Over r\<close> when the C function returns \<open>r\<close>, otherwise the variables with which it
  waits in its loop, \<open>Publishing\<close> for the next message of its client, \<open>Subscribing\<close> for the next
  message of its box; \<open>resume\<close> goes on from there. A worker is such a value too: its turn is a
  request from the queue if it is over, and the rest of its loop if it is not.
  \<open>Broker_Inv\<close> joins the two components:
  \<open>broker_inv\<close> says that both invariants hold, every box has its file (\<open>backed\<close>) and an open
  file belongs to a box that has a publisher or a subscriber (\<open>guarded\<close>). \<open>Lists\<close> follows the
  list of the boxes to the manager's screen, \<open>Broker_Props\<close> the other requests of a manager,
  \<open>Sessions\<close> whole sessions, up to a line's way from the publisher's keyboard to the
  subscriber's screen; \<open>Failures\<close> has the start, the end and what goes wrong between.

  \<^bold>\<open>The broker as a service.\<close> \<open>Service_Spec\<close> states what all this is for, without files,
  handles or tables: names map to lists of at most 100 messages and a number of subscribers.
  A request has an answer and leaves its worker \<open>Ready\<close>, or \<open>Following\<close> a box for a subscriber.
  \<open>Service_Inv\<close> has the abstraction of a broker and the invariant \<open>service_inv\<close>, \<open>Service\<close>
  shows that every handler implements the service under the clients' duty \<open>serve_duty\<close>, \<open>Server\<close>
  puts the queue and the workers in front of it and \<open>main\<close> before that: the first property of
  the list. As many workers as \<open>main\<close> was asked for take turns in any order. A worker that has
  accepted a subscriber takes no request again, as in the code, and sends on its turns what
  has been stored since. A request of a manager and the whole session of a publisher are one
  turn each. A subscriber does not leave in this model: when it does, the code forgets to
  close its handle (\<open>Failures\<close>).

  \<^bold>\<open>Overlapping sessions.\<close> \<open>Live\<close> cuts the sessions of publishers and subscribers, from the
  registration to the close, and the removal of a box into the sections between which other
  workers run, and interleaves the sections of any number of sessions (\<open>inductive
  live_step\<close>), with the mutex of each box, broadcasts, sleeping and waking. \<open>Live_Sections\<close>
  shows, as a check of the model, that a handler nobody interrupts is its sections in order. \<open>Live_Inv\<close> has the invariant of the interleaving, \<open>Live_Steps\<close> runs the
  sections of the loops and the close on it, \<open>Live_Props\<close> registration and opening, and
  follows whole runs. \<open>Interleaving\<close> states what follows: every subscriber
  is sent a prefix of what the publishers of its box have stored, no section faults, a
  subscriber that runs catches up; and two races of the code, a wake-up that is lost and a
  box that is removed under a subscriber. \<open>Live_Demo\<close> builds the state for the witnesses.
  \<open>Typing\<close> shows that every message the broker writes has the type and the size its reader
  expects.

  \<^bold>\<open>The log.\<close> \<open>Logging\<close> models \<open>utils/logging.h\<close>, \<open>utils/logging.c\<close> and both headers
  \<open>betterassert.h\<close>, and shows which uses of the macros print at which level.

  \<^bold>\<open>Interfaces.\<close> Four locales: \<open>simulation\<close> (\<open>Simulation\<close>; a server of requests implements an
  abstract one; interpreted by the file system, the queue, the handlers of the broker and the
  server as a whole), \<open>machine\<close> (\<open>Simulation\<close>; steps of several threads that keep an
  invariant; interpreted by the sections of the queue and those of the sessions), \<open>slot_table\<close>
  (\<open>Slots\<close>; an allocation map; interpreted by the three maps of \<open>state.c\<close>) and \<open>named_table\<close>
  (\<open>Boxes_Inv\<close>; a table that looks up by name; interpreted by the boxes).

  \<^bold>\<open>Bounds and fuel.\<close> No definition has fuel: loops over a table are recursive on the distance
  to its end, loops over a stream on the list of results or bytes left, and \<open>cstep\<close> and
  \<open>live_step\<close> are relations. In \<open>Service_Spec\<close> a subscriber can be written to 101 times, which is enough for the
  100 messages a file can hold and the wait after them.

  \<^bold>\<open>Not modelled.\<close> The busy loop \<open>insert_delay\<close> and what the handlers themselves print to
  \<open>stderr\<close>; the creation of threads and the delivery of signals; closing pipes on error paths,
  which changes nothing a later step reads; the order in which the kernel delivers what
  several clients write to one pipe; the test programs under \<open>tests/\<close>, written for an earlier
  exercise. In the server of \<open>Server\<close> the turns of the workers do not overlap. In \<open>live_step\<close> sessions
  overlap, section by section, but boxes are neither created nor removed: what a removal can
  do to a session is shown for one order of the steps only. Where the result depends on what
  ISO C leaves undefined but the compiler defines, the compiler is followed: in
  \<open>return_code_loop\<close> (\<open>getResponse\<close> of the manager) the shift of a byte into the sign bit of an
  \<open>int\<close> wraps, as gcc documents.
\<close>

end
